(* ===== verification/Prelude.thy ===== *)
theory Prelude
  imports Main "HOL-Library.Word" "HOL-Library.AList" "HOL-Library.Multiset" "HOL-Library.Sublist"
begin

text \<open>
  What every component shares: the machine integers, the \<open>Result\<close> type with the \<open>?\<close>
  operator, panics as values, and the byte-level string operations of the Rust standard library
  that the crate calls (\<open>str\<close> is a list of UTF-8 bytes, so \<open>length\<close> is \<open>str::len\<close>).
\<close>

section \<open>Hint collections\<close>

named_theorems result_inv \<open>inversion rules for results of fallible code\<close>
named_theorems byte_simps \<open>facts about single bytes\<close>

section \<open>Machine integers\<close>

type_synonym u16 = "16 word"
type_synonym u32 = "32 word"
type_synonym u64 = "64 word"
type_synonym usize = "64 word"

text \<open>Instants and durations are natural numbers of nanoseconds.\<close>

type_synonym instant = nat
type_synonym duration = nat

definition from_millis :: "u64 \<Rightarrow> duration" where
  "from_millis ms = unat ms * 1000000"

definition as_secs :: "duration \<Rightarrow> nat" where
  "as_secs d = d div 1000000000"

section \<open>Results and panics\<close>

text \<open>The \<open>?\<close> operator: an error returns from the enclosing function at once.\<close>

fun and_then :: "'e + 'a \<Rightarrow> ('a \<Rightarrow> 'e + 'b) \<Rightarrow> 'e + 'b" where
  "and_then (Inl e) f = Inl e"
| "and_then (Inr x) f = f x"

lemma and_then_Inr_iff [result_inv]:
  "and_then r f = Inr y \<longleftrightarrow> (\<exists>x. r = Inr x \<and> f x = Inr y)"
  by (cases r) auto

lemma and_then_Inl_iff [result_inv]:
  "and_then r f = Inl e \<longleftrightarrow> r = Inl e \<or> (\<exists>x. r = Inr x \<and> f x = Inl e)"
  by (cases r) auto

text \<open>A call that may panic: \<open>Panic\<close> unwinds the task, \<open>Ret\<close> is a normal return.\<close>

datatype 'a rust = Panic | Ret 'a

fun rust_bind :: "'a rust \<Rightarrow> ('a \<Rightarrow> 'b rust) \<Rightarrow> 'b rust" where
  "rust_bind Panic f = Panic"
| "rust_bind (Ret x) f = f x"

lemma rust_bind_Ret_iff [result_inv]:
  "rust_bind r f = Ret y \<longleftrightarrow> (\<exists>x. r = Ret x \<and> f x = Ret y)"
  by (cases r) auto

section \<open>Bytes\<close>

definition byte :: "char \<Rightarrow> nat" where
  "byte c = of_char c"

lemma byte_less [byte_simps]: "byte c < 256"
  by (simp add: byte_def)

lemma byte_inject [byte_simps]: "byte c = byte d \<longleftrightarrow> c = d"
  by (simp add: byte_def)

lemma byte_char_of [byte_simps]: "n < 256 \<Longrightarrow> byte (char_of n) = n"
  by (simp add: byte_def)

definition is_ascii_uppercase :: "char \<Rightarrow> bool" where
  "is_ascii_uppercase c \<longleftrightarrow> 65 \<le> byte c \<and> byte c \<le> 90"

definition is_ascii_lowercase :: "char \<Rightarrow> bool" where
  "is_ascii_lowercase c \<longleftrightarrow> 97 \<le> byte c \<and> byte c \<le> 122"

definition is_ascii_digit :: "char \<Rightarrow> bool" where
  "is_ascii_digit c \<longleftrightarrow> 48 \<le> byte c \<and> byte c \<le> 57"

definition is_ascii_alphanumeric :: "char \<Rightarrow> bool" where
  "is_ascii_alphanumeric c \<longleftrightarrow>
     is_ascii_uppercase c \<or> is_ascii_lowercase c \<or> is_ascii_digit c"

lemmas ascii_class_defs =
  is_ascii_uppercase_def is_ascii_lowercase_def is_ascii_digit_def is_ascii_alphanumeric_def

definition lower_byte :: "char \<Rightarrow> char" where
  "lower_byte c = (if is_ascii_uppercase c then char_of (byte c + 32) else c)"

definition to_ascii_lowercase :: "string \<Rightarrow> string" where
  "to_ascii_lowercase s = map lower_byte s"

lemma lower_byte_not_upper [byte_simps]: "\<not> is_ascii_uppercase (lower_byte c)"
  by (auto simp: lower_byte_def is_ascii_uppercase_def byte_char_of)

lemma lower_byte_idem [simp]: "lower_byte (lower_byte c) = lower_byte c"
  using lower_byte_not_upper [of c] by (simp add: lower_byte_def [of "lower_byte c"])

lemma to_ascii_lowercase_idem [simp]:
  "to_ascii_lowercase (to_ascii_lowercase s) = to_ascii_lowercase s"
  by (simp add: to_ascii_lowercase_def)

lemma to_ascii_lowercase_append [simp]:
  "to_ascii_lowercase (s @ t) = to_ascii_lowercase s @ to_ascii_lowercase t"
  by (simp add: to_ascii_lowercase_def)

lemma to_ascii_lowercase_id:
  "\<not> (\<exists>c\<in>set s. is_ascii_uppercase c) \<Longrightarrow> to_ascii_lowercase s = s"
  by (induction s) (auto simp: to_ascii_lowercase_def lower_byte_def)

lemma to_ascii_lowercase_Nil [simp]:
  "to_ascii_lowercase [] = []" "to_ascii_lowercase s = [] \<longleftrightarrow> s = []"
  "[] = to_ascii_lowercase s \<longleftrightarrow> s = []"
  by (auto simp: to_ascii_lowercase_def)

section \<open>UTF-8 strings and slices\<close>

text \<open>
  Continuation bytes, the number of continuation bytes a lead byte announces, and
  well-formedness of a byte list. The predicate admits overlong forms and surrogates too, so
  it holds of every Rust \<open>str\<close>.
\<close>

definition utf8_cont :: "char \<Rightarrow> bool" where
  "utf8_cont c \<longleftrightarrow> 128 \<le> byte c \<and> byte c < 192"

definition utf8_trailing :: "char \<Rightarrow> nat option" where
  "utf8_trailing c =
     (if byte c < 128 then Some 0
      else if byte c < 192 then None
      else if byte c < 224 then Some 1
      else if byte c < 240 then Some 2
      else if byte c < 248 then Some 3
      else None)"

function utf8 :: "string \<Rightarrow> bool" where
  "utf8 [] = True"
| "utf8 (c # cs) =
     (case utf8_trailing c of
        None \<Rightarrow> False
      | Some k \<Rightarrow> k \<le> length cs \<and> list_all utf8_cont (take k cs) \<and> utf8 (drop k cs))"
  by pat_completeness auto
termination
  by (relation "measure length") auto

lemma utf8_head_not_cont: "utf8 (c # cs) \<Longrightarrow> \<not> utf8_cont c"
  by (auto simp: utf8_trailing_def utf8_cont_def split: if_splits option.splits)

text \<open>The rest of a string after a well-formed prefix is well formed.\<close>

lemma utf8_append_right: "utf8 s \<Longrightarrow> utf8 (s @ t) \<Longrightarrow> utf8 t"
proof (induction s rule: utf8.induct)
  case 1
  then show ?case by simp
next
  case (2 c cs)
  from "2.prems"(1) obtain k where k: "utf8_trailing c = Some k" "k \<le> length cs" "utf8 (drop k cs)"
    by (auto split: option.splits)
  with "2.prems"(2) have "utf8 (drop k cs @ t)" by simp
  with "2.IH" k show ?case by simp
qed

lemma utf8_append: "utf8 s \<Longrightarrow> utf8 t \<Longrightarrow> utf8 (s @ t)"
  by (induction s rule: utf8.induct) (auto split: option.splits)

text \<open>An ASCII byte is a character of its own wherever it stands.\<close>

lemma utf8_split_ascii:
  "utf8 (s @ c # t) \<Longrightarrow> byte c < 128 \<Longrightarrow> utf8 s \<and> utf8 t"
proof (induction s rule: utf8.induct)
  case 1
  then show ?case by (auto simp: utf8_trailing_def)
next
  case (2 b bs)
  from "2.prems"(1) obtain k where k: "utf8_trailing b = Some k"
    "k \<le> length (bs @ c # t)" "list_all utf8_cont (take k (bs @ c # t))" "utf8 (drop k (bs @ c # t))"
    by (auto split: option.splits)
  have le: "k \<le> length bs"
  proof (rule ccontr)
    assume "\<not> k \<le> length bs"
    then obtain j where "k = length bs + Suc j" using less_imp_Suc_add by force
    then have "c \<in> set (take k (bs @ c # t))" by simp
    with k(3) have "utf8_cont c" by (auto simp: list_all_iff)
    with "2.prems"(2) show False by (simp add: utf8_cont_def)
  qed
  with k have "utf8 (drop k bs @ c # t)" by simp
  with "2.IH" [OF k(1)] "2.prems"(2) have "utf8 (drop k bs) \<and> utf8 t" by blast
  with k le show ?case by auto
qed

lemma utf8_ascii: "list_all (\<lambda>c. byte c < 128) s \<Longrightarrow> utf8 s"
  by (induction s) (auto simp: utf8_trailing_def)

definition is_char_boundary :: "string \<Rightarrow> nat \<Rightarrow> bool" where
  "is_char_boundary s i \<longleftrightarrow> i = 0 \<or> i = length s \<or> i < length s \<and> \<not> utf8_cont (s ! i)"

text \<open>The slices \<open>&s[i..]\<close> and \<open>&s[..i]\<close> panic off a character boundary.\<close>

definition slice_from :: "string \<Rightarrow> nat \<Rightarrow> string rust" where
  "slice_from s i = (if is_char_boundary s i then Ret (drop i s) else Panic)"

definition slice_to :: "string \<Rightarrow> nat \<Rightarrow> string rust" where
  "slice_to s i = (if is_char_boundary s i then Ret (take i s) else Panic)"

lemma is_char_boundary_append:
  "utf8 t \<Longrightarrow> is_char_boundary (s @ t) (length s)"
  by (cases t) (auto simp: is_char_boundary_def dest: utf8_head_not_cont simp del: utf8.simps)

lemma slice_from_append: "utf8 t \<Longrightarrow> slice_from (s @ t) (length s) = Ret t"
  by (simp add: slice_from_def is_char_boundary_append)

lemma slice_to_append: "utf8 t \<Longrightarrow> slice_to (s @ t) (length s) = Ret s"
  by (simp add: slice_to_def is_char_boundary_append)

section \<open>Splitting and searching\<close>

definition starts_with :: "string \<Rightarrow> string \<Rightarrow> bool" where
  "starts_with s p \<longleftrightarrow> prefix p s"

definition ends_with :: "string \<Rightarrow> string \<Rightarrow> bool" where
  "ends_with s p \<longleftrightarrow> suffix p s"

text \<open>\<open>str::split\<close> on one ASCII byte.\<close>

fun split_on :: "char \<Rightarrow> string \<Rightarrow> string list" where
  "split_on c [] = [[]]"
| "split_on c (x # xs) =
     (if x = c then [] # split_on c xs
      else (case split_on c xs of [] \<Rightarrow> [[x]] | p # ps \<Rightarrow> (x # p) # ps))"

text \<open>\<open>str::split_once\<close> on one ASCII byte: the first occurrence.\<close>

fun split_once :: "char \<Rightarrow> string \<Rightarrow> (string \<times> string) option" where
  "split_once c [] = None"
| "split_once c (x # xs) =
     (if x = c then Some ([], xs)
      else (case split_once c xs of None \<Rightarrow> None | Some (a, b) \<Rightarrow> Some (x # a, b)))"

text \<open>\<open>str::rsplit_once\<close>: the last occurrence.\<close>

definition rsplit_once :: "char \<Rightarrow> string \<Rightarrow> (string \<times> string) option" where
  "rsplit_once c s =
     (case split_once c (rev s) of None \<Rightarrow> None | Some (a, b) \<Rightarrow> Some (rev b, rev a))"

text \<open>\<open>str::find\<close> of one ASCII byte.\<close>

fun find_byte :: "char \<Rightarrow> string \<Rightarrow> nat option" where
  "find_byte c [] = None"
| "find_byte c (x # xs) = (if x = c then Some 0 else map_option Suc (find_byte c xs))"

lemma split_on_not_Nil [simp]: "split_on c s \<noteq> []"
  by (induction s) (auto split: list.splits)

lemma split_on_none: "c \<notin> set s \<Longrightarrow> split_on c s = [s]"
  by (induction s) auto

lemma split_on_append: "c \<notin> set s \<Longrightarrow> split_on c (s @ c # t) = s # split_on c t"
  by (induction s) auto

lemma split_on_parts: "p \<in> set (split_on c s) \<Longrightarrow> c \<notin> set p"
  by (induction s arbitrary: p) (auto split: if_splits list.splits)

lemma split_on_hd:
  "split_on c s = p # ps \<Longrightarrow> (ps = [] \<and> s = p) \<or> (\<exists>t. s = p @ c # t \<and> split_on c t = ps)"
proof (induction s arbitrary: p)
  case Nil
  then show ?case by simp
next
  case (Cons x s)
  show ?case
  proof (cases "x = c")
    case True
    with Cons.prems show ?thesis by auto
  next
    case False
    with Cons.prems obtain q where q: "p = x # q" "split_on c s = q # ps"
      by (auto split: list.splits)
    from Cons.IH [OF q(2)] q(1) show ?thesis by auto
  qed
qed

lemma split_once_None: "split_once c s = None \<longleftrightarrow> c \<notin> set s"
  by (induction s) (auto split: option.splits)

lemma split_once_append: "c \<notin> set a \<Longrightarrow> split_once c (a @ c # b) = Some (a, b)"
  by (induction a) auto

lemma split_once_Some:
  "split_once c s = Some (a, b) \<longleftrightarrow> s = a @ c # b \<and> c \<notin> set a"
proof
  show "split_once c s = Some (a, b) \<Longrightarrow> s = a @ c # b \<and> c \<notin> set a"
    by (induction s arbitrary: a) (auto split: if_splits option.splits)
qed (auto simp: split_once_append)

lemma rsplit_once_None: "rsplit_once c s = None \<longleftrightarrow> c \<notin> set s"
  using split_once_None [of c "rev s"] by (auto simp: rsplit_once_def split: option.splits)

lemma rsplit_once_Some:
  "rsplit_once c s = Some (a, b) \<longleftrightarrow> s = a @ c # b \<and> c \<notin> set b"
proof -
  have "rsplit_once c s = Some (a, b) \<longleftrightarrow> split_once c (rev s) = Some (rev b, rev a)"
    by (auto simp: rsplit_once_def split: option.splits)
  also have "\<dots> \<longleftrightarrow> rev s = rev b @ c # rev a \<and> c \<notin> set b"
    by (simp add: split_once_Some)
  also have "rev s = rev b @ c # rev a \<longleftrightarrow> s = a @ c # b"
    by (metis append.assoc append_Cons append_Nil rev.simps(2) rev_append rev_rev_ident)
  finally show ?thesis .
qed

lemma find_byte_None: "find_byte c s = None \<longleftrightarrow> c \<notin> set s"
  by (induction s) auto

lemma find_byte_Some:
  "find_byte c s = Some i \<Longrightarrow> \<exists>a b. s = a @ c # b \<and> c \<notin> set a \<and> length a = i"
proof (induction s arbitrary: i)
  case (Cons x s)
  show ?case
  proof (cases "x = c")
    case True
    with Cons.prems have "x # s = [] @ c # s \<and> c \<notin> set [] \<and> length [] = i" by simp
    then show ?thesis by blast
  next
    case False
    with Cons.prems obtain j where j: "find_byte c s = Some j" "i = Suc j" by auto
    from Cons.IH [OF j(1)] obtain a b where "s = a @ c # b" "c \<notin> set a" "length a = j" by blast
    with False j have "x # s = (x # a) @ c # b \<and> c \<notin> set (x # a) \<and> length (x # a) = i" by simp
    then show ?thesis by blast
  qed
qed simp

lemma find_byte_append: "c \<notin> set a \<Longrightarrow> find_byte c (a @ c # b) = Some (length a)"
  by (induction a) auto

end
