(* ===== verification/Text_Lib.thy ===== *)
theory Text_Lib
  imports Prelude
begin

text \<open>
  The remaining text functions of the Rust standard library the crate calls: \<open>str::trim\<close>,
  number formatting (\<open>to_string\<close>, \<open>{:x}\<close>) and \<open>str::parse::<u64>\<close>.
\<close>

section \<open>Trimming\<close>

text \<open>
  \<open>ws_enc bs\<close>: the bytes are the UTF-8 encoding of one character with the Unicode property
  White_Space, which is what \<open>str::trim\<close> removes.
\<close>

definition ws_codes :: "nat list \<Rightarrow> bool" where
  "ws_codes bs =
     (case bs of
        [b] \<Rightarrow> 9 \<le> b \<and> b \<le> 13 \<or> b = 32
      | [b, c] \<Rightarrow> b = 0xC2 \<and> (c = 0x85 \<or> c = 0xA0)
      | [b, c, d] \<Rightarrow>
          b = 0xE1 \<and> c = 0x9A \<and> d = 0x80
          \<or> b = 0xE2 \<and> c = 0x80 \<and> (0x80 \<le> d \<and> d \<le> 0x8A \<or> d = 0xA8 \<or> d = 0xA9 \<or> d = 0xAF)
          \<or> b = 0xE2 \<and> c = 0x81 \<and> d = 0x9F
          \<or> b = 0xE3 \<and> c = 0x80 \<and> d = 0x80
      | _ \<Rightarrow> False)"

definition ws_enc :: "string \<Rightarrow> bool" where
  "ws_enc s = ws_codes (map byte s)"

definition is_space :: "char \<Rightarrow> bool" where
  "is_space c \<longleftrightarrow> 9 \<le> byte c \<and> byte c \<le> 13 \<or> byte c = 32"

definition ws_leading :: "string \<Rightarrow> nat option" where
  "ws_leading s = find (\<lambda>k. ws_enc (take k s)) [1, 2, 3]"

definition ws_trailing :: "string \<Rightarrow> nat option" where
  "ws_trailing s = find (\<lambda>k. ws_enc (drop (length s - k) s)) [1, 2, 3]"

lemma ws_enc_Nil [simp]: "\<not> ws_enc []"
  by (simp add: ws_enc_def ws_codes_def)

lemma ws_leading_Some: "ws_leading s = Some k \<Longrightarrow> 0 < k \<and> s \<noteq> []"
  by (auto simp: ws_leading_def split: if_splits)

lemma ws_trailing_Some: "ws_trailing s = Some k \<Longrightarrow> 0 < k \<and> s \<noteq> []"
  by (auto simp: ws_trailing_def split: if_splits)

function trim_start :: "string \<Rightarrow> string" where
  "trim_start s = (case ws_leading s of None \<Rightarrow> s | Some k \<Rightarrow> trim_start (drop k s))"
  by pat_completeness auto
termination
  by (relation "measure length") (auto dest: ws_leading_Some)

function trim_end :: "string \<Rightarrow> string" where
  "trim_end s =
     (case ws_trailing s of None \<Rightarrow> s | Some k \<Rightarrow> trim_end (take (length s - k) s))"
  by pat_completeness auto
termination
proof (relation "measure length")
  fix s k assume "ws_trailing s = Some k"
  then have "0 < k" "0 < length s" by (auto dest: ws_trailing_Some)
  then show "(take (length s - k) s, s) \<in> measure length" by auto
qed auto

declare trim_start.simps [simp del] trim_end.simps [simp del]

definition trim :: "string \<Rightarrow> string" where
  "trim s = trim_end (trim_start s)"

text \<open>An ASCII byte other than a space stops the trimming on its side.\<close>

definition graphic :: "char \<Rightarrow> bool" where
  "graphic c \<longleftrightarrow> byte c < 128 \<and> \<not> is_space c"

lemma ws_enc_hd: "ws_enc (c # s) \<Longrightarrow> \<not> graphic c"
  by (auto simp: ws_enc_def ws_codes_def graphic_def is_space_def split: list.splits)

lemma ws_enc_last:
  assumes "ws_enc (s @ [c])"
  shows "\<not> graphic c"
proof -
  have "length s < 3"
    using assms by (auto simp: ws_enc_def ws_codes_def split: list.splits)
  then consider "s = []" | a where "s = [a]" | a b where "s = [a, b]"
    by (metis One_nat_def Suc_1 length_0_conv length_Suc_conv less_Suc_eq numeral_3_eq_3 less_nat_zero_code)
  then show ?thesis
    using assms by cases (auto simp: ws_enc_def ws_codes_def graphic_def is_space_def)
qed

lemma trim_start_graphic: "graphic c \<Longrightarrow> trim_start (c # s) = c # s"
proof -
  assume "graphic c"
  then have "ws_leading (c # s) = None"
    by (auto simp: ws_leading_def find_None_iff take_Cons split: nat.splits dest: ws_enc_hd)
  then show ?thesis by (simp add: trim_start.simps)
qed

lemma trim_end_graphic: "graphic c \<Longrightarrow> trim_end (s @ [c]) = s @ [c]"
proof -
  assume g: "graphic c"
  have none: "\<not> ws_enc (drop (length (s @ [c]) - k) (s @ [c]))" if "0 < k" for k
  proof -
    from that have "drop (length (s @ [c]) - k) (s @ [c]) = drop (Suc (length s) - k) s @ [c]"
      by simp
    then show ?thesis using ws_enc_last g by metis
  qed
  have "ws_trailing (s @ [c]) = None"
    using none [of 1] none [of 2] none [of 3] by (simp add: ws_trailing_def)
  then show ?thesis by (simp add: trim_end.simps)
qed

lemma trim_Nil [simp]: "trim [] = []"
  by (simp add: trim_def trim_start.simps trim_end.simps ws_leading_def ws_trailing_def)

lemma trim_graphic:
  assumes "s \<noteq> [] \<Longrightarrow> graphic (hd s) \<and> graphic (last s)"
  shows "trim s = s"
proof (cases "s = []")
  case False
  with assms have g: "graphic (hd s)" "graphic (last s)" by auto
  from False g(1) have "trim_start s = s"
    by (metis list.collapse trim_start_graphic)
  moreover from False g(2) have "trim_end s = s"
    by (metis append_butlast_last_id trim_end_graphic)
  ultimately show ?thesis by (simp add: trim_def)
qed simp

lemma trim_start_space: "is_space c \<Longrightarrow> trim_start (c # s) = trim_start s"
  by (subst trim_start.simps)
     (simp add: ws_leading_def ws_enc_def ws_codes_def is_space_def)

lemma alphanumeric_graphic: "is_ascii_alphanumeric c \<Longrightarrow> graphic c"
  by (auto simp: graphic_def is_space_def ascii_class_defs)

text \<open>Trimming only removes bytes at the two ends.\<close>

lemma trim_start_suffix: "suffix (trim_start s) s"
proof (induction s rule: trim_start.induct)
  case (1 s)
  then show ?case
    by (subst trim_start.simps)
       (auto split: option.splits intro: suffix_order.trans [OF _ suffix_drop])
qed

lemma trim_end_prefix: "prefix (trim_end s) s"
proof (induction s rule: trim_end.induct)
  case (1 s)
  then show ?case
    by (subst trim_end.simps)
       (auto split: option.splits intro: prefix_order.trans [OF _ take_is_prefix])
qed

lemma set_trim: "set (trim s) \<subseteq> set s"
  using set_mono_prefix [OF trim_end_prefix] set_mono_suffix [OF trim_start_suffix]
  by (fastforce simp: trim_def)

section \<open>Numbers as text\<close>

definition digit_char :: "nat \<Rightarrow> char" where
  "digit_char d = (if d < 10 then char_of (48 + d) else char_of (87 + d))"

definition digit_value :: "char \<Rightarrow> nat" where
  "digit_value c = (if is_ascii_digit c then byte c - 48 else byte c - 87)"

lemma digit_value_char: "d < 16 \<Longrightarrow> digit_value (digit_char d) = d"
  by (auto simp: digit_value_def digit_char_def is_ascii_digit_def byte_char_of)

lemma digit_char_digit: "d < 10 \<Longrightarrow> is_ascii_digit (digit_char d)"
  by (simp add: digit_char_def is_ascii_digit_def byte_char_of)

lemma digit_char_alphanumeric: "d < 16 \<Longrightarrow> is_ascii_alphanumeric (digit_char d)"
  by (auto simp: digit_char_def ascii_class_defs byte_char_of)

text \<open>Positional notation in base \<open>b\<close>, most significant digit first.\<close>

fun radix :: "nat \<Rightarrow> nat \<Rightarrow> string" where
  "radix b n =
     (if n < b \<or> b < 2 then [digit_char n] else radix b (n div b) @ [digit_char (n mod b)])"

declare radix.simps [simp del]

definition to_dec :: "nat \<Rightarrow> string" where
  "to_dec n = radix 10 n"

definition to_hex :: "nat \<Rightarrow> string" where
  "to_hex n = radix 16 n"

definition unradix :: "nat \<Rightarrow> string \<Rightarrow> nat" where
  "unradix b s = foldl (\<lambda>a c. a * b + digit_value c) 0 s"

lemma radix_small: "n < b \<Longrightarrow> radix b n = [digit_char n]"
  by (simp add: radix.simps [of b n])

lemma radix_big:
  "2 \<le> b \<Longrightarrow> \<not> n < b \<Longrightarrow> radix b n = radix b (n div b) @ [digit_char (n mod b)]"
  by (simp add: radix.simps [of b n])

lemma radix_not_Nil [simp]: "radix b n \<noteq> []"
  by (subst radix.simps) simp

text \<open>Induction over the digits of a number, for a fixed base.\<close>

lemma radix_induct:
  assumes "2 \<le> b"
    and "\<And>n. n < b \<Longrightarrow> P n"
    and "\<And>n. \<not> n < b \<Longrightarrow> P (n div b) \<Longrightarrow> P n"
  shows "P (n :: nat)"
proof (induction n rule: less_induct)
  case (less n)
  show ?case
  proof (cases "n < b")
    case False
    with assms(1) have "n div b < n" by simp
    with less assms(3) False show ?thesis by blast
  qed (rule assms(2))
qed

lemma unradix_radix:
  assumes "2 \<le> b" "b \<le> 16"
  shows "unradix b (radix b n) = n"
proof (induction n rule: radix_induct [OF assms(1)])
  case (1 n)
  with assms show ?case by (simp add: radix_small unradix_def digit_value_char)
next
  case (2 n)
  from assms have "n mod b < 16" using mod_less_divisor [of b n] by linarith
  with 2 assms(1) show ?case by (simp add: radix_big unradix_def digit_value_char)
qed

lemma radix_alphanumeric:
  assumes "2 \<le> b" "b \<le> 16"
  shows "\<forall>c\<in>set (radix b n). is_ascii_alphanumeric c"
proof (induction n rule: radix_induct [OF assms(1)])
  case (1 n)
  with assms show ?case by (simp add: radix_small digit_char_alphanumeric)
next
  case (2 n)
  from assms have "n mod b < 16" using mod_less_divisor [of b n] by linarith
  with 2 assms(1) show ?case by (auto simp: radix_big digit_char_alphanumeric)
qed

lemma to_dec_digits: "\<forall>c\<in>set (to_dec n). is_ascii_digit c"
proof -
  have "\<forall>c\<in>set (radix 10 n). is_ascii_digit c"
  proof (induction n rule: radix_induct [of 10])
    case (2 n)
    then show ?case by (simp add: radix_small digit_char_digit)
  next
    case (3 n)
    then show ?case by (auto simp: radix_big digit_char_digit)
  qed simp
  then show ?thesis by (simp add: to_dec_def)
qed

text \<open>The number of digits, from above and from below.\<close>

lemma length_radix:
  assumes "2 \<le> b"
  shows "0 < k \<Longrightarrow> n < b ^ k \<Longrightarrow> length (radix b n) \<le> k"
proof (induction n arbitrary: k rule: radix_induct [OF assms])
  case (1 n)
  then show ?case by (simp add: radix_small)
next
  case (2 n)
  then obtain j where j: "k = Suc j" by (cases k) auto
  with 2 have "0 < j" by (cases j) auto
  moreover from 2 j have "n div b < b ^ j"
    by (simp add: less_mult_imp_div_less mult.commute)
  ultimately have "length (radix b (n div b)) \<le> j" by (rule "2.IH")
  with 2 j assms show ?case by (simp add: radix_big)
qed

lemma length_radix_lower:
  assumes "2 \<le> b"
  shows "b ^ k \<le> n \<Longrightarrow> k < length (radix b n)"
proof (induction n arbitrary: k rule: radix_induct [OF assms])
  case (1 n)
  show ?case
  proof (cases k)
    case (Suc j)
    from assms have "b * 1 \<le> b * b ^ j" by (intro mult_le_mono2) simp
    with 1 Suc show ?thesis by simp
  qed simp
next
  case (2 n)
  show ?case
  proof (cases k)
    case (Suc j)
    with 2 assms have "b ^ j \<le> n div b"
      by (simp add: less_eq_div_iff_mult_less_eq mult.commute)
    with "2.IH" have "j < length (radix b (n div b))" .
    with 2 Suc assms show ?thesis by (simp add: radix_big)
  qed simp
qed

lemma to_hex_inject [simp]: "to_hex m = to_hex n \<longleftrightarrow> m = n"
proof
  assume "to_hex m = to_hex n"
  then have "unradix 16 (radix 16 m) = unradix 16 (radix 16 n)" by (simp add: to_hex_def)
  then show "m = n" by (simp add: unradix_radix)
qed simp

text \<open>
  \<open>str::parse::<u64>\<close>: an optional \<open>+\<close>, then at least one digit, and nothing that overflows
  64 bits on the way.
\<close>

fun parse_digits :: "nat \<Rightarrow> string \<Rightarrow> nat option" where
  "parse_digits acc [] = Some acc"
| "parse_digits acc (c # cs) =
     (if is_ascii_digit c
      then let acc' = acc * 10 + (byte c - 48)
           in if acc' < 2 ^ 64 then parse_digits acc' cs else None
      else None)"

definition parse_u64 :: "string \<Rightarrow> u64 option" where
  "parse_u64 s =
     (let ds = (case s of c # cs \<Rightarrow> if c = CHR ''+'' then cs else s | [] \<Rightarrow> [])
      in if ds = [] then None else map_option of_nat (parse_digits 0 ds))"

lemma parse_digits_value:
  "list_all is_ascii_digit s \<Longrightarrow>
   parse_digits a s =
     (let v = foldl (\<lambda>a c. a * 10 + digit_value c) a s
      in if s = [] \<or> v < 2 ^ 64 then Some v else None)"
proof (induction s arbitrary: a)
  case (Cons c s)
  have ge: "x \<le> foldl (\<lambda>a c. a * 10 + digit_value c) x s" for x :: nat
  proof (induction s arbitrary: x)
    case (Cons d s)
    have "x \<le> x * 10 + digit_value d" by simp
    also note Cons.IH [of "x * 10 + digit_value d"]
    finally show ?case by simp
  qed simp
  from Cons.prems have c: "digit_value c = byte c - 48" by (simp add: digit_value_def)
  show ?case
    using Cons.IH [of "a * 10 + digit_value c"] Cons.prems ge [of "a * 10 + digit_value c"]
    by (auto simp: Let_def c)
qed simp

lemma parse_u64_to_dec: "parse_u64 (to_dec n) = (if n < 2 ^ 64 then Some (of_nat n) else None)"
proof -
  have d: "list_all is_ascii_digit (to_dec n)"
    using to_dec_digits by (simp add: list_all_iff)
  then obtain c cs where s: "to_dec n = c # cs" "is_ascii_digit c"
    by (cases "to_dec n") (auto simp: to_dec_def)
  then have "c \<noteq> CHR ''+''" by (auto simp: is_ascii_digit_def byte_def)
  moreover have "foldl (\<lambda>a c. a * 10 + digit_value c) 0 (to_dec n) = n"
    using unradix_radix [of 10 n] by (simp add: to_dec_def unradix_def)
  ultimately show ?thesis
    using parse_digits_value [OF d, of 0] s(1) by (auto simp: parse_u64_def Let_def)
qed

end
