(* ===== verification/Affinity.thy ===== *)
theory Affinity
  imports Text_Lib
begin

text \<open>
  Affinity keys in \<open>src/router.rs\<close>: which keys are safe to put into a cookie, the key read from
  a cookie or a header of a request, the \<open>Set-Cookie\<close> value the proxy answers with, and the keys
  it generates. What the code reads of a request is the record \<open>session\<close>; what it calls of the
  \<open>http\<close> crate is the record \<open>http_lib\<close>, a parameter.
\<close>

section \<open>Requests and the http crate\<close>

type_synonym header_map = "(string \<times> string) list"

record session =
  req_raw_path :: string
  req_path :: string
  req_headers :: header_map
  req_h1_raw :: string
  req_is_upgrade :: bool

text \<open>
  \<open>HeaderMap::get\<close>, \<open>HeaderValue::to_str\<close> (\<open>None\<close> for an error) and \<open>HeaderName::from_static\<close>
  (\<open>None\<close> for a panic).
\<close>

record http_lib =
  hl_get :: "header_map \<Rightarrow> string \<Rightarrow> string option"
  hl_to_str :: "string \<Rightarrow> string option"
  hl_from_static :: "string \<Rightarrow> string option"

text \<open>The value of a header as text: \<open>headers.get(name).and_then(|v| v.to_str().ok())\<close>.\<close>

definition header_text :: "http_lib \<Rightarrow> session \<Rightarrow> string \<Rightarrow> string option" where
  "header_text L s name = Option.bind (hl_get L (req_headers s) name) (hl_to_str L)"

section \<open>Safe keys\<close>

definition MAX_AFFINITY_KEY_LEN :: nat where "MAX_AFFINITY_KEY_LEN = 256"

definition is_cookie_safe_affinity_key :: "string \<Rightarrow> bool" where
  "is_cookie_safe_affinity_key v \<longleftrightarrow>
     v \<noteq> [] \<and> length v \<le> MAX_AFFINITY_KEY_LEN
     \<and> list_all (\<lambda>c. is_ascii_alphanumeric c \<or> c = CHR ''.'' \<or> c = CHR ''_'' \<or> c = CHR ''-'') v"

section \<open>Reading the key of a request\<close>

fun find_map :: "('a \<Rightarrow> 'b option) \<Rightarrow> 'a list \<Rightarrow> 'b option" where
  "find_map f [] = None"
| "find_map f (x # xs) = (case f x of Some y \<Rightarrow> Some y | None \<Rightarrow> find_map f xs)"

text \<open>The closure of \<open>extract_cookie_value\<close>, applied to one \<open>;\<close>-separated part.\<close>

definition cookie_pair_value :: "string \<Rightarrow> string \<Rightarrow> string option" where
  "cookie_pair_value cookie_name pair =
     (case split_once CHR ''='' (trim pair) of
        None \<Rightarrow> None
      | Some (name, value) \<Rightarrow>
          if name = cookie_name
          then let value = trim value
               in if is_cookie_safe_affinity_key value then Some value else None
          else None)"

definition extract_cookie_value :: "http_lib \<Rightarrow> session \<Rightarrow> string \<Rightarrow> string option" where
  "extract_cookie_value L s cookie_name =
     (case header_text L s ''cookie'' of
        None \<Rightarrow> None
      | Some raw \<Rightarrow> find_map (cookie_pair_value cookie_name) (split_on CHR '';'' raw))"

definition extract_header_value :: "http_lib \<Rightarrow> session \<Rightarrow> string \<Rightarrow> string option" where
  "extract_header_value L s header_name =
     (case header_text L s header_name of
        None \<Rightarrow> None
      | Some v \<Rightarrow> let v = trim v in if is_cookie_safe_affinity_key v then Some v else None)"

section \<open>The sticky session configuration and the cookie\<close>

record sticky_session_config =
  sc_enabled :: bool
  sc_cookie_name :: string
  sc_header_name :: string
  sc_ttl :: duration
  sc_max_entries :: nat
  sc_cookie_secure :: bool

definition cookie_header_value :: "sticky_session_config \<Rightarrow> string \<Rightarrow> string" where
  "cookie_header_value cfg affinity_key =
     (let max_age_seconds = to_dec (max (as_secs (sc_ttl cfg)) 1)
      in if sc_cookie_secure cfg
         then sc_cookie_name cfg @ ''='' @ affinity_key @ ''; Max-Age='' @ max_age_seconds
                @ ''; Path=/; HttpOnly; SameSite=Lax; Secure''
         else sc_cookie_name cfg @ ''='' @ affinity_key @ ''; Max-Age='' @ max_age_seconds
                @ ''; Path=/; HttpOnly; SameSite=Lax'')"

text \<open>
  The text of a generated key. The clock is the time since the epoch in nanoseconds, \<open>None\<close>
  when the system clock is before the epoch.
\<close>

definition affinity_key_text :: "nat option \<Rightarrow> u64 \<Rightarrow> string" where
  "affinity_key_text clock tick =
     (let now = (case clock of Some n \<Rightarrow> n | None \<Rightarrow> 0) in to_hex now @ to_hex (unat tick))"

section \<open>Facts\<close>

lemma find_map_Some: "find_map f xs = Some y \<Longrightarrow> \<exists>x\<in>set xs. f x = Some y"
  by (induction xs) (auto split: option.splits)

lemma find_map_skip: "\<forall>x\<in>set xs. f x = None \<Longrightarrow> find_map f (xs @ ys) = find_map f ys"
  by (induction xs) auto

lemma cookie_pair_value_safe:
  "cookie_pair_value n p = Some v \<Longrightarrow> is_cookie_safe_affinity_key v"
  by (auto simp: cookie_pair_value_def Let_def split: option.splits if_splits)

lemma extract_cookie_value_safe:
  "extract_cookie_value L s n = Some v \<Longrightarrow> is_cookie_safe_affinity_key v"
  by (auto simp: extract_cookie_value_def dest!: find_map_Some intro: cookie_pair_value_safe
      split: option.splits)

lemma extract_header_value_safe:
  "extract_header_value L s n = Some v \<Longrightarrow> is_cookie_safe_affinity_key v"
  by (auto simp: extract_header_value_def Let_def split: option.splits if_splits)

lemma safe_key_byte:
  assumes "is_cookie_safe_affinity_key k" "c \<in> set k"
  shows "graphic c" "c \<noteq> CHR '';''" "c \<noteq> CHR ''=''" "c \<noteq> CHR '',''" "byte c < 128"
  using assms
  by (auto simp: is_cookie_safe_affinity_key_def list_all_iff graphic_def is_space_def
      ascii_class_defs byte_def)

lemma safe_key_not_Nil: "is_cookie_safe_affinity_key k \<Longrightarrow> k \<noteq> []"
  by (simp add: is_cookie_safe_affinity_key_def)

lemma trim_safe_key: "is_cookie_safe_affinity_key k \<Longrightarrow> trim k = k"
  by (rule trim_graphic) (simp add: safe_key_byte)

lemma trim_space: "trim (CHR '' '' # s) = trim s"
  by (simp add: trim_def trim_start_space is_space_def byte_def)

lemma cookie_pair_value_space: "cookie_pair_value n (CHR '' '' # p) = cookie_pair_value n p"
  by (simp add: cookie_pair_value_def trim_space)

text \<open>A cookie name the round trip holds for: no separators, nothing \<open>trim\<close> would remove.\<close>

definition plain_cookie_name :: "string \<Rightarrow> bool" where
  "plain_cookie_name n \<longleftrightarrow>
     n \<noteq> [] \<and> graphic (hd n) \<and> CHR ''='' \<notin> set n \<and> CHR '';'' \<notin> set n"

lemma cookie_pair_value_own:
  assumes "plain_cookie_name n" "is_cookie_safe_affinity_key k"
  shows "cookie_pair_value n (n @ ''='' @ k) = Some k"
proof -
  from assms have "trim (n @ ''='' @ k) = n @ ''='' @ k"
    by (intro trim_graphic) (auto simp: plain_cookie_name_def safe_key_byte safe_key_not_Nil)
  moreover have "split_once CHR ''='' (n @ CHR ''='' # k) = Some (n, k)"
    using assms(1) by (intro split_once_append) (simp add: plain_cookie_name_def)
  ultimately show ?thesis using assms(2) by (simp add: cookie_pair_value_def trim_safe_key)
qed

text \<open>A \<open>Cookie\<close> header: the parts joined by a semicolon and a space.\<close>

fun cookie_header :: "string list \<Rightarrow> string" where
  "cookie_header [] = []"
| "cookie_header [p] = p"
| "cookie_header (p # q # ps) = p @ ''; '' @ cookie_header (q # ps)"

lemma find_map_cookie_header:
  assumes "\<forall>p\<in>set ps. CHR '';'' \<notin> set p" "ps \<noteq> []"
  shows "find_map (cookie_pair_value n) (split_on CHR '';'' (cookie_header ps))
           = find_map (cookie_pair_value n) ps"
    and "find_map (cookie_pair_value n) (split_on CHR '';'' (CHR '' '' # cookie_header ps))
           = find_map (cookie_pair_value n) ps"
  using assms
proof (induction ps rule: cookie_header.induct)
  case (2 p)
  case 1
  then show ?case by (simp add: split_on_none)
  case 2
  then show ?case by (simp add: split_on_none cookie_pair_value_space)
next
  case (3 p q ps)
  case 1
  with 3 show ?case
    using split_on_append [of "CHR '';''" p "CHR '' '' # cookie_header (q # ps)"]
    by (simp split: option.split)
  case 2
  with 3 show ?case
    using split_on_append [of "CHR '';''" "CHR '' '' # p" "CHR '' '' # cookie_header (q # ps)"]
    by (simp add: cookie_pair_value_space split: option.split)
qed auto

text \<open>What a client stores and sends back: the part of \<open>Set-Cookie\<close> before the first semicolon.\<close>

definition cookie_pair_of :: "string \<Rightarrow> string" where
  "cookie_pair_of set_cookie = takeWhile (\<lambda>c. c \<noteq> CHR '';'') set_cookie"

lemma takeWhile_stop: "\<forall>c\<in>set s. P c \<Longrightarrow> \<not> P d \<Longrightarrow> takeWhile P (s @ d # t) = s"
  by (induction s) auto

lemma cookie_pair_of_header_value:
  assumes "plain_cookie_name (sc_cookie_name cfg)" "is_cookie_safe_affinity_key k"
  shows "cookie_pair_of (cookie_header_value cfg k) = sc_cookie_name cfg @ ''='' @ k"
proof -
  obtain rest where "cookie_header_value cfg k
      = (sc_cookie_name cfg @ ''='' @ k) @ CHR '';'' # rest"
    by (cases "sc_cookie_secure cfg") (auto simp: cookie_header_value_def Let_def)
  moreover have "\<forall>c\<in>set (sc_cookie_name cfg @ ''='' @ k). c \<noteq> CHR '';''"
    using assms by (auto simp: plain_cookie_name_def dest: safe_key_byte)
  ultimately show ?thesis by (simp only: cookie_pair_of_def) (rule takeWhile_stop, auto)
qed

text \<open>Generated keys.\<close>

lemma unat_u64_less: "unat (t :: u64) < 2 ^ 64"
  using unsigned_less [of t] by simp

lemma affinity_key_text_safe:
  assumes "\<And>n. clock = Some n \<Longrightarrow> n < 2 ^ 128"
  shows "is_cookie_safe_affinity_key (affinity_key_text clock tick)"
proof -
  define now where "now = (case clock of Some n \<Rightarrow> n | None \<Rightarrow> 0)"
  have "now < 16 ^ 32" using assms by (auto simp: now_def split: option.splits)
  then have "length (to_hex now) \<le> 32" by (simp only: to_hex_def) (rule length_radix, auto)
  moreover have "length (to_hex (unat tick)) \<le> 16"
    using unat_u64_less [of tick] by (simp only: to_hex_def) (rule length_radix, auto)
  moreover have "list_all is_ascii_alphanumeric (to_hex m)" for m
    using radix_alphanumeric [of 16 m] by (simp add: to_hex_def list_all_iff)
  ultimately show ?thesis
    by (auto simp: affinity_key_text_def is_cookie_safe_affinity_key_def MAX_AFFINITY_KEY_LEN_def
        list_all_iff to_hex_def simp flip: now_def)
qed

text \<open>Two clock readings with the same number of hexadecimal digits separate the two parts.\<close>

lemma affinity_key_text_inject:
  assumes "length (to_hex m) = length (to_hex n)"
  shows "affinity_key_text (Some m) t = affinity_key_text (Some n) u \<longleftrightarrow> m = n \<and> t = u"
  using assms by (auto simp: affinity_key_text_def word_unat_eq_iff)

lemma length_to_hex: "16 ^ k \<le> n \<Longrightarrow> n < 16 ^ Suc k \<Longrightarrow> length (to_hex n) = Suc k"
  using length_radix [of 16 "Suc k" n] length_radix_lower [of 16 k n] by (simp add: to_hex_def)

end
