(* ===== verification/Errors.thy ===== *)
theory Errors
  imports Prelude
begin

text \<open>
  \<open>src/errors.rs\<close>: the stable JavaScript error codes and the constructors of errors. A
  constructor both throws into the JavaScript environment and returns the \<open>napi::Error\<close>; every
  caller returns that error at once, so one value carries the class, the code, the status and
  the message of the exception the JavaScript side sees.
\<close>

definition INVALID_PROXY_OPTIONS :: string where
  "INVALID_PROXY_OPTIONS = ''InvalidProxyOptions''"

definition INVALID_APPLICATION_OPTIONS :: string where
  "INVALID_APPLICATION_OPTIONS = ''InvalidApplicationOptions''"

definition UNKNOWN_APPLICATION :: string where
  "UNKNOWN_APPLICATION = ''UnknownApplication''"

definition ALREADY_STARTED :: string where
  "ALREADY_STARTED = ''AlreadyStarted''"

definition LISTEN_BIND_FAILED :: string where
  "LISTEN_BIND_FAILED = ''ListenBindFailed''"

definition UNSUPPORTED_UPSTREAM_TYPE :: string where
  "UNSUPPORTED_UPSTREAM_TYPE = ''UnsupportedUpstreamType''"

definition UPSTREAM_ALREADY_EXISTS :: string where
  "UPSTREAM_ALREADY_EXISTS = ''UpstreamAlreadyExists''"

definition UPSTREAM_NOT_FOUND :: string where
  "UPSTREAM_NOT_FOUND = ''UpstreamNotFound''"

datatype js_class = JsTypeError | JsError

datatype status = InvalidArg | GenericFailure | CodeStatus string

record napi_error =
  err_class :: js_class
  err_code :: "string option"
  err_status :: status
  err_reason :: string

definition type_error :: "string \<Rightarrow> string \<Rightarrow> napi_error" where
  "type_error code msg =
     \<lparr>err_class = JsTypeError, err_code = Some code, err_status = InvalidArg, err_reason = msg\<rparr>"

definition generic_error :: "string \<Rightarrow> string \<Rightarrow> napi_error" where
  "generic_error code msg =
     \<lparr>err_class = JsError, err_code = Some code, err_status = GenericFailure, err_reason = msg\<rparr>"

definition throw_type_error :: "string \<Rightarrow> string \<Rightarrow> napi_error + 'a" where
  "throw_type_error code msg = Inl (type_error code msg)"

text \<open>\<open>napi::Error::from_reason\<close>: an error without a code.\<close>

definition from_reason :: "string \<Rightarrow> napi_error" where
  "from_reason msg =
     \<lparr>err_class = JsError, err_code = None, err_status = GenericFailure, err_reason = msg\<rparr>"

text \<open>A value in single quotes, as the messages show it.\<close>

definition quoted :: "string \<Rightarrow> string" where
  "quoted s = CHR 0x27 # s @ [CHR 0x27]"

lemma throw_type_error_not_Inr [simp]: "throw_type_error c m \<noteq> Inr x"
  by (simp add: throw_type_error_def)

lemma throw_type_error_Inl [simp]: "throw_type_error c m = Inl e \<longleftrightarrow> e = type_error c m"
  by (auto simp: throw_type_error_def)

lemma err_code_simps [simp]:
  "err_code (type_error c m) = Some c" "err_code (generic_error c m) = Some c"
  "err_code (from_reason m) = None"
  by (simp_all add: type_error_def generic_error_def from_reason_def)

lemma err_class_simps [simp]:
  "err_class (type_error c m) = JsTypeError" "err_class (generic_error c m) = JsError"
  by (simp_all add: type_error_def generic_error_def)

end
