(* ===== verification/Options.thy ===== *)
theory Options
  imports Errors Text_Lib
begin

text \<open>
  \<open>src/options.rs\<close>: the option objects JavaScript passes, their parsed forms, and the parsing
  and validation that turns one into the other. \<open>u32\<close> fields are 32-bit words; the parsed limits
  are \<open>usize\<close> and \<open>u64\<close> words, and the casts between them are \<open>ucast\<close>.
\<close>

section \<open>Defaults\<close>

definition MAX_URI_BYTES :: usize where "MAX_URI_BYTES = 8192"
definition MAX_REQUEST_HEADERS :: usize where "MAX_REQUEST_HEADERS = 100"
definition MAX_SINGLE_HEADER_BYTES :: usize where "MAX_SINGLE_HEADER_BYTES = 8192"
definition MAX_REQUEST_HEADER_BYTES :: usize where "MAX_REQUEST_HEADER_BYTES = 64 * 1024"
definition MAX_REQUEST_BODY_BYTES :: u64 where "MAX_REQUEST_BODY_BYTES = 16 * 1024 * 1024"

definition DOWNSTREAM_HEADER_TIMEOUT_MS :: u32 where "DOWNSTREAM_HEADER_TIMEOUT_MS = 10000"
definition DOWNSTREAM_BODY_IDLE_TIMEOUT_MS :: u32 where "DOWNSTREAM_BODY_IDLE_TIMEOUT_MS = 60000"
definition UPSTREAM_CONNECT_TIMEOUT_MS :: u32 where "UPSTREAM_CONNECT_TIMEOUT_MS = 5000"
definition UPSTREAM_READ_TIMEOUT_MS :: u32 where "UPSTREAM_READ_TIMEOUT_MS = 60000"
definition UPSTREAM_WRITE_TIMEOUT_MS :: u32 where "UPSTREAM_WRITE_TIMEOUT_MS = 60000"
definition DOWNSTREAM_KEEP_ALIVE_TIMEOUT_SECONDS :: u32 where
  "DOWNSTREAM_KEEP_ALIVE_TIMEOUT_SECONDS = 75"

lemmas limit_default_defs =
  MAX_URI_BYTES_def MAX_REQUEST_HEADERS_def MAX_SINGLE_HEADER_BYTES_def
  MAX_REQUEST_HEADER_BYTES_def MAX_REQUEST_BODY_BYTES_def

lemmas timeout_default_defs =
  DOWNSTREAM_HEADER_TIMEOUT_MS_def DOWNSTREAM_BODY_IDLE_TIMEOUT_MS_def
  UPSTREAM_CONNECT_TIMEOUT_MS_def UPSTREAM_READ_TIMEOUT_MS_def UPSTREAM_WRITE_TIMEOUT_MS_def
  DOWNSTREAM_KEEP_ALIVE_TIMEOUT_SECONDS_def

section \<open>The objects JavaScript passes\<close>

text \<open>\<open>Either<T, Null>\<close>: an explicit \<open>null\<close> is not an absent field.\<close>

datatype 'a nullable = Given 'a | Null

record proxy_limits_options =
  o_max_uri_size :: "u32 nullable option"
  o_max_request_headers :: "u32 nullable option"
  o_max_single_header_size :: "u32 nullable option"
  o_max_request_header_size :: "u32 nullable option"
  o_max_request_body_size :: "u32 nullable option"

record proxy_timeout_options =
  o_downstream_header :: "u32 option"
  o_downstream_body_idle :: "u32 option"
  o_upstream_connect :: "u32 option"
  o_upstream_read :: "u32 option"
  o_upstream_write :: "u32 option"
  o_downstream_keep_alive :: "u32 option"

record sticky_session_options =
  o_enabled :: "bool option"
  o_cookie_name :: "string option"
  o_header_name :: "string option"
  o_ttl_ms :: "u32 option"
  o_max_entries :: "u32 option"

record listener_tls_options =
  o_cert_path :: string
  o_key_path :: string
  o_enable_h2 :: "bool option"

datatype proxy_application_routing =
  RoutePath "string option" | RouteSubdomain "string option" | RouteDefault

record application_options =
  o_name :: string
  o_routing :: proxy_application_routing
  o_sni :: "string option"

record proxy_options =
  o_listen :: string
  o_tls :: "listener_tls_options option"
  o_applications :: "application_options list"
  o_health_check_interval_ms :: "u32 option"
  o_sticky_sessions :: "sticky_session_options option"
  o_limits :: "proxy_limits_options nullable option"
  o_timeouts :: "proxy_timeout_options option"

section \<open>The parsed options\<close>

datatype proxy_limit_check =
  UriBytes usize
| RequestHeaders usize
| SingleHeaderBytes usize
| RequestHeaderBytes usize
| RequestBodyBytes u64

datatype proxy_limits = Disabled | Enabled "proxy_limit_check list"

record proxy_timeouts =
  downstream_header_timeout_ms :: u32
  downstream_body_idle_timeout_ms :: u32
  upstream_connect_timeout_ms :: u32
  upstream_read_timeout_ms :: u32
  upstream_write_timeout_ms :: u32
  downstream_keep_alive_timeout_seconds :: u32

record sticky_sessions_parsed =
  ss_enabled :: bool
  ss_cookie_name :: string
  ss_header_name :: string
  ss_ttl_ms :: u32
  ss_max_entries :: usize

record listener_tls =
  tls_cert_path :: string
  tls_key_path :: string
  tls_enable_h2 :: bool

datatype application_routing = Subdomain string | Path string | Default

record application =
  a_name :: string
  a_routing :: application_routing
  a_sni :: "string option"

record proxy_options_parsed =
  po_listen :: string
  po_tls :: "listener_tls option"
  po_applications :: "application list"
  po_health_check_interval_ms :: u32
  po_sticky_sessions :: sticky_sessions_parsed
  po_limits :: proxy_limits
  po_timeouts :: proxy_timeouts

section \<open>Numeric fields\<close>

definition parse_nullable_positive_u32 ::
    "string \<Rightarrow> u32 nullable option \<Rightarrow> u32 \<Rightarrow> napi_error + u32 option" where
  "parse_nullable_positive_u32 field value dflt =
     (let positive = (\<lambda>v. if v = 0
                          then throw_type_error INVALID_PROXY_OPTIONS (field @ '' must be greater than 0'')
                          else Inr (Some v))
      in case value of
           Some (Given v) \<Rightarrow> positive v
         | Some Null \<Rightarrow> Inr None
         | None \<Rightarrow> positive dflt)"

definition parse_nullable_positive_usize ::
    "string \<Rightarrow> u32 nullable option \<Rightarrow> usize \<Rightarrow> napi_error + usize option" where
  "parse_nullable_positive_usize field value dflt =
     and_then (parse_nullable_positive_u32 field value (ucast dflt))
       (\<lambda>v. Inr (map_option ucast v))"

definition parse_nullable_positive_u64 ::
    "string \<Rightarrow> u32 nullable option \<Rightarrow> u64 \<Rightarrow> napi_error + u64 option" where
  "parse_nullable_positive_u64 field value dflt =
     and_then (parse_nullable_positive_u32 field value (ucast dflt))
       (\<lambda>v. Inr (map_option ucast v))"

definition parse_positive_u32 :: "string \<Rightarrow> u32 option \<Rightarrow> u32 \<Rightarrow> napi_error + u32" where
  "parse_positive_u32 field value dflt =
     (let v = (case value of Some v \<Rightarrow> v | None \<Rightarrow> dflt)
      in if v = 0
         then throw_type_error INVALID_PROXY_OPTIONS (field @ '' must be greater than 0'')
         else Inr v)"

section \<open>Limits and timeouts\<close>

definition default_limit_checks :: proxy_limits where
  "default_limit_checks =
     Enabled [UriBytes MAX_URI_BYTES, RequestHeaders MAX_REQUEST_HEADERS,
              SingleHeaderBytes MAX_SINGLE_HEADER_BYTES, RequestHeaderBytes MAX_REQUEST_HEADER_BYTES,
              RequestBodyBytes MAX_REQUEST_BODY_BYTES]"

definition push_check ::
    "('n \<Rightarrow> proxy_limit_check) \<Rightarrow> 'n option \<Rightarrow> proxy_limit_check list \<Rightarrow> proxy_limit_check list" where
  "push_check mk limit checks = (case limit of Some l \<Rightarrow> checks @ [mk l] | None \<Rightarrow> checks)"

definition parse_limits_options ::
    "proxy_limits_options nullable option \<Rightarrow> napi_error + proxy_limits" where
  "parse_limits_options limits =
     (case limits of
        None \<Rightarrow> Inr default_limit_checks
      | Some Null \<Rightarrow> Inr Disabled
      | Some (Given l) \<Rightarrow>
          and_then (parse_nullable_positive_usize ''limits.maxUriSize'' (o_max_uri_size l) MAX_URI_BYTES)
          (\<lambda>uri. and_then (parse_nullable_positive_usize ''limits.maxRequestHeaders''
                            (o_max_request_headers l) MAX_REQUEST_HEADERS)
          (\<lambda>hdrs. and_then (parse_nullable_positive_usize ''limits.maxSingleHeaderSize''
                             (o_max_single_header_size l) MAX_SINGLE_HEADER_BYTES)
          (\<lambda>one. and_then (parse_nullable_positive_usize ''limits.maxRequestHeaderSize''
                            (o_max_request_header_size l) MAX_REQUEST_HEADER_BYTES)
          (\<lambda>total. and_then (parse_nullable_positive_u64 ''limits.maxRequestBodySize''
                              (o_max_request_body_size l) MAX_REQUEST_BODY_BYTES)
          (\<lambda>body.
            let checks = push_check RequestBodyBytes body
                           (push_check RequestHeaderBytes total
                             (push_check SingleHeaderBytes one
                               (push_check RequestHeaders hdrs
                                 (push_check UriBytes uri []))))
            in Inr (if checks = [] then Disabled else Enabled checks)))))))"

definition parse_timeout_options ::
    "proxy_timeout_options option \<Rightarrow> napi_error + proxy_timeouts" where
  "parse_timeout_options timeouts =
     (case timeouts of
        None \<Rightarrow> Inr \<lparr>downstream_header_timeout_ms = DOWNSTREAM_HEADER_TIMEOUT_MS,
                     downstream_body_idle_timeout_ms = DOWNSTREAM_BODY_IDLE_TIMEOUT_MS,
                     upstream_connect_timeout_ms = UPSTREAM_CONNECT_TIMEOUT_MS,
                     upstream_read_timeout_ms = UPSTREAM_READ_TIMEOUT_MS,
                     upstream_write_timeout_ms = UPSTREAM_WRITE_TIMEOUT_MS,
                     downstream_keep_alive_timeout_seconds = DOWNSTREAM_KEEP_ALIVE_TIMEOUT_SECONDS\<rparr>
      | Some t \<Rightarrow>
          and_then (parse_positive_u32 ''timeouts.downstreamHeader'' (o_downstream_header t)
                      DOWNSTREAM_HEADER_TIMEOUT_MS)
          (\<lambda>dh. and_then (parse_positive_u32 ''timeouts.downstreamBodyIdle'' (o_downstream_body_idle t)
                      DOWNSTREAM_BODY_IDLE_TIMEOUT_MS)
          (\<lambda>db. and_then (parse_positive_u32 ''timeouts.upstreamConnect'' (o_upstream_connect t)
                      UPSTREAM_CONNECT_TIMEOUT_MS)
          (\<lambda>uc. and_then (parse_positive_u32 ''timeouts.upstreamRead'' (o_upstream_read t)
                      UPSTREAM_READ_TIMEOUT_MS)
          (\<lambda>ur. and_then (parse_positive_u32 ''timeouts.upstreamWrite'' (o_upstream_write t)
                      UPSTREAM_WRITE_TIMEOUT_MS)
          (\<lambda>uw. and_then (parse_positive_u32 ''timeouts.downstreamKeepAlive'' (o_downstream_keep_alive t)
                      DOWNSTREAM_KEEP_ALIVE_TIMEOUT_SECONDS)
          (\<lambda>dk. Inr \<lparr>downstream_header_timeout_ms = dh, downstream_body_idle_timeout_ms = db,
                     upstream_connect_timeout_ms = uc, upstream_read_timeout_ms = ur,
                     upstream_write_timeout_ms = uw, downstream_keep_alive_timeout_seconds = dk\<rparr>)))))))"

section \<open>Sticky sessions\<close>

definition parse_sticky_session_options ::
    "sticky_session_options option \<Rightarrow> napi_error + sticky_sessions_parsed" where
  "parse_sticky_session_options sticky =
     (case sticky of
        None \<Rightarrow> Inr \<lparr>ss_enabled = False, ss_cookie_name = ''nmt_affinity'',
                     ss_header_name = ''x-nmt-affinity-key'', ss_ttl_ms = 600000,
                     ss_max_entries = 20000\<rparr>
      | Some s \<Rightarrow>
          let enabled = (case o_enabled s of Some b \<Rightarrow> b | None \<Rightarrow> True);
              cookie_name = (case o_cookie_name s of Some c \<Rightarrow> c | None \<Rightarrow> ''nmt_affinity'');
              header_name = (case o_header_name s of Some h \<Rightarrow> h | None \<Rightarrow> ''x-nmt-affinity-key'');
              ttl_ms = (case o_ttl_ms s of Some t \<Rightarrow> t | None \<Rightarrow> 600000);
              max_entries = (case o_max_entries s of Some m \<Rightarrow> m | None \<Rightarrow> 20000)
          in if trim cookie_name = []
             then throw_type_error INVALID_PROXY_OPTIONS ''stickySessions.cookieName must be non-empty''
             else if trim header_name = []
             then throw_type_error INVALID_PROXY_OPTIONS ''stickySessions.headerName must be non-empty''
             else if ttl_ms = 0
             then throw_type_error INVALID_PROXY_OPTIONS ''stickySessions.ttlMs must be greater than 0''
             else if max_entries = 0
             then throw_type_error INVALID_PROXY_OPTIONS
                    ''stickySessions.maxEntries must be greater than 0''
             else Inr \<lparr>ss_enabled = enabled, ss_cookie_name = cookie_name,
                       ss_header_name = header_name, ss_ttl_ms = ttl_ms,
                       ss_max_entries = ucast max_entries\<rparr>)"

section \<open>Applications\<close>

definition is_label :: "string \<Rightarrow> bool" where
  "is_label l \<longleftrightarrow>
     l \<noteq> [] \<and> length l \<le> 63 \<and> \<not> starts_with l ''-'' \<and> \<not> ends_with l ''-''
     \<and> list_all (\<lambda>c. is_ascii_alphanumeric c \<or> c = CHR ''-'') l"

definition is_hostname_like :: "string \<Rightarrow> bool" where
  "is_hostname_like v =
     (if starts_with v ''.'' \<or> ends_with v ''.'' then False
      else list_all is_label (split_on CHR ''.'' v))"

definition parse_application_sni :: "string option \<Rightarrow> napi_error + string option" where
  "parse_application_sni sni =
     (case sni of
        None \<Rightarrow> Inr None
      | Some s \<Rightarrow>
          let s = trim s
          in if s = []
             then throw_type_error INVALID_APPLICATION_OPTIONS
                    ''ApplicationOptions.sni must be non-empty when provided''
             else if \<not> is_hostname_like s
             then throw_type_error INVALID_APPLICATION_OPTIONS
                    ''ApplicationOptions.sni must be a hostname-like value''
             else Inr (Some s))"

definition require_routing_name :: "string \<Rightarrow> string option \<Rightarrow> napi_error + string" where
  "require_routing_name routing_type name =
     (case name of
        None \<Rightarrow> throw_type_error INVALID_APPLICATION_OPTIONS
                  (''ApplicationOptions.routing.name must be set for '' @ routing_type @ '' routing'')
      | Some n \<Rightarrow> Inr n)"

fun parse_routing :: "proxy_application_routing \<Rightarrow> napi_error + application_routing" where
  "parse_routing RouteDefault = Inr Default"
| "parse_routing (RouteSubdomain name) =
     and_then (require_routing_name ''subdomain'' name) (\<lambda>n. Inr (Subdomain n))"
| "parse_routing (RoutePath name) =
     and_then (require_routing_name ''path'' name) (\<lambda>n. Inr (Path n))"

definition parse_application_options :: "application_options \<Rightarrow> napi_error + application" where
  "parse_application_options app =
     and_then (parse_application_sni (o_sni app))
       (\<lambda>sni. and_then (parse_routing (o_routing app))
         (\<lambda>routing. Inr \<lparr>a_name = o_name app, a_routing = routing, a_sni = sni\<rparr>))"

text \<open>
  The loop of \<open>validate_applications\<close>: the number of default routes so far, the application
  names, the lower-cased subdomain names and the path names seen so far. It returns the number
  of default routes, which the code checks after the loop.
\<close>

fun validate_loop ::
    "nat \<Rightarrow> string set \<Rightarrow> string set \<Rightarrow> string set \<Rightarrow> application list \<Rightarrow> napi_error + nat" where
  "validate_loop default_count app_names subdomain_routes path_routes [] = Inr default_count"
| "validate_loop default_count app_names subdomain_routes path_routes (app # apps) =
     (if a_name app \<in> app_names
      then throw_type_error INVALID_APPLICATION_OPTIONS
             (''Duplicate application name '' @ quoted (a_name app))
      else
        let app_names = insert (a_name app) app_names
        in case a_routing app of
             Default \<Rightarrow>
               validate_loop (default_count + 1) app_names subdomain_routes path_routes apps
           | Subdomain name \<Rightarrow>
               if name = []
               then throw_type_error INVALID_APPLICATION_OPTIONS
                      ''subdomain routing name must be non-empty''
               else let route_key = to_ascii_lowercase name
                    in if route_key \<in> subdomain_routes
                       then throw_type_error INVALID_APPLICATION_OPTIONS
                              (''Duplicate subdomain routing name '' @ quoted name)
                       else validate_loop default_count app_names
                              (insert route_key subdomain_routes) path_routes apps
           | Path name \<Rightarrow>
               if name = []
               then throw_type_error INVALID_APPLICATION_OPTIONS
                      ''path routing name must be non-empty''
               else if CHR ''/'' \<in> set name
               then throw_type_error INVALID_APPLICATION_OPTIONS
                      (''path routing name must not contain '' @ quoted ''/'')
               else if name \<in> path_routes
               then throw_type_error INVALID_APPLICATION_OPTIONS
                      (''Duplicate path routing name '' @ quoted name)
               else validate_loop default_count app_names subdomain_routes
                      (insert name path_routes) apps)"

definition validate_applications :: "application list \<Rightarrow> napi_error + unit" where
  "validate_applications apps =
     and_then (validate_loop 0 {} {} {} apps)
       (\<lambda>default_count.
          if default_count > 1
          then throw_type_error INVALID_APPLICATION_OPTIONS
                 (''At most one application may use routing.type='' @ quoted ''default'')
          else Inr ())"

section \<open>The whole options object\<close>

fun parse_applications :: "application_options list \<Rightarrow> napi_error + application list" where
  "parse_applications [] = Inr []"
| "parse_applications (app # apps) =
     and_then (parse_application_options app)
       (\<lambda>a. and_then (parse_applications apps) (\<lambda>as. Inr (a # as)))"

definition parse_proxy_options :: "proxy_options \<Rightarrow> napi_error + proxy_options_parsed" where
  "parse_proxy_options options =
     (let listener = map_option
            (\<lambda>t. \<lparr>tls_cert_path = o_cert_path t, tls_key_path = o_key_path t,
                  tls_enable_h2 = (case o_enable_h2 t of Some b \<Rightarrow> b | None \<Rightarrow> False)\<rparr>)
            (o_tls options)
      in and_then (parse_applications (o_applications options))
         (\<lambda>apps. and_then (validate_applications apps)
         (\<lambda>_. and_then (parse_sticky_session_options (o_sticky_sessions options))
         (\<lambda>sticky. and_then (parse_limits_options (o_limits options))
         (\<lambda>lim. and_then (parse_timeout_options (o_timeouts options))
         (\<lambda>tim. Inr \<lparr>po_listen = o_listen options, po_tls = listener, po_applications = apps,
                     po_health_check_interval_ms =
                       (case o_health_check_interval_ms options of Some h \<Rightarrow> h | None \<Rightarrow> 5000),
                     po_sticky_sessions = sticky, po_limits = lim, po_timeouts = tim\<rparr>))))))"

end
