(* ===== verification/Routes.thy ===== *)
theory Routes
  imports Text_Lib
begin

text \<open>
  The routing part of \<open>src/router.rs\<close> and \<open>src/lb.rs\<close>: the router configuration with its pools,
  \<open>resolve_route\<close>, the first path segment, the path rewrite and the host without its port. The
  load balancer is Pingora's, a type parameter. A \<open>Cow\<close> keeps which case the code returns, and a
  slice off a character boundary is a panic.
\<close>

section \<open>Transports and pools\<close>

datatype transport_kind = Http1 | Http2 | Ws

text \<open>There are three transports; a claim about all of them can be computed.\<close>

instantiation transport_kind :: enum
begin

definition enum_transport_kind :: "transport_kind list" where
  "enum_transport_kind = [Http1, Http2, Ws]"

definition enum_all_transport_kind :: "(transport_kind \<Rightarrow> bool) \<Rightarrow> bool" where
  "enum_all_transport_kind P \<longleftrightarrow> P Http1 \<and> P Http2 \<and> P Ws"

definition enum_ex_transport_kind :: "(transport_kind \<Rightarrow> bool) \<Rightarrow> bool" where
  "enum_ex_transport_kind P \<longleftrightarrow> P Http1 \<or> P Http2 \<or> P Ws"

instance
proof
  show transports: "(UNIV :: transport_kind set) = set enum_class.enum"
  proof (rule UNIV_eq_I)
    fix t :: transport_kind
    show "t \<in> set enum_class.enum" by (cases t) (simp_all add: enum_transport_kind_def)
  qed
  show "distinct (enum_class.enum :: transport_kind list)" by (simp add: enum_transport_kind_def)
  fix P :: "transport_kind \<Rightarrow> bool"
  show "enum_class.enum_all P \<longleftrightarrow> Ball UNIV P" "enum_class.enum_ex P \<longleftrightarrow> Bex UNIV P"
    by (simp_all add: transports enum_transport_kind_def enum_all_transport_kind_def enum_ex_transport_kind_def)
qed

end

lemma card_transports: "card (UNIV :: transport_kind set) = 3"
  by (simp add: UNIV_enum enum_transport_kind_def)

datatype health_check = TcpHealthCheck | TcpHealthCheckTls string

text \<open>
  What the crate stores of a load balancer: Pingora's own value, built from the addresses, and
  the two settings the crate writes into it.
\<close>

record 'lb load_balancer =
  lb_inner :: 'lb
  lb_health_check :: "health_check option"
  lb_health_check_frequency :: "duration option"

record 'lb pool_config =
  pc_lb :: "'lb load_balancer"
  pc_secure :: bool
  pc_verify_hostname :: string
  pc_backends :: "string set"

record 'lb app_pools =
  ap_http1 :: "'lb pool_config option"
  ap_ws :: "'lb pool_config option"
  ap_http2 :: "'lb pool_config option"

record 'lb router_config =
  subdomain_routes :: "string \<rightharpoonup> string"
  path_routes :: "string \<rightharpoonup> string"
  default_app :: "string option"
  apps :: "string \<rightharpoonup> 'lb app_pools"

definition router_config_default :: "'lb router_config" where
  "router_config_default =
     \<lparr>subdomain_routes = Map.empty, path_routes = Map.empty, default_app = None, apps = Map.empty\<rparr>"

section \<open>Route resolution\<close>

record resolved_route =
  rr_app_name :: string
  rr_path_rewrite_segment :: "string option"

definition resolve_route ::
    "'lb router_config \<Rightarrow> string option \<Rightarrow> string option \<Rightarrow> resolved_route option" where
  "resolve_route config host path_first_segment =
     (case Option.bind host (subdomain_routes config) of
        Some app \<Rightarrow> Some \<lparr>rr_app_name = app, rr_path_rewrite_segment = None\<rparr>
      | None \<Rightarrow>
          (case Option.bind path_first_segment
                  (\<lambda>seg. map_option (\<lambda>app. (seg, app)) (path_routes config seg)) of
             Some (seg, app) \<Rightarrow> Some \<lparr>rr_app_name = app, rr_path_rewrite_segment = Some seg\<rparr>
           | None \<Rightarrow>
               map_option (\<lambda>app. \<lparr>rr_app_name = app, rr_path_rewrite_segment = None\<rparr>)
                 (default_app config)))"

section \<open>Paths\<close>

definition extract_first_path_segment :: "string \<Rightarrow> string option" where
  "extract_first_path_segment path =
     (case filter (\<lambda>p. p \<noteq> []) (split_on CHR ''/'' path) of [] \<Rightarrow> None | p # _ \<Rightarrow> Some p)"

datatype cow = Borrowed string | Owned string

fun cow_str :: "cow \<Rightarrow> string" where
  "cow_str (Borrowed s) = s"
| "cow_str (Owned s) = s"

definition strip_first_path_segment :: "string \<Rightarrow> string \<Rightarrow> cow option rust" where
  "strip_first_path_segment path_and_query segment =
     (let (path, query) = (case split_once CHR ''?'' path_and_query of
                             Some (p, q) \<Rightarrow> (p, Some q)
                           | None \<Rightarrow> (path_and_query, None));
          prefix_len = length segment + 1
      in if \<not> starts_with path ''/'' \<or> length path < prefix_len then Ret None
         else rust_bind (slice_from path 1) (\<lambda>after_slash.
           if \<not> starts_with after_slash segment then Ret None
           else rust_bind (slice_from path prefix_len) (\<lambda>remainder.
             let rewritten_path = (if remainder = [] then Some ''/''
                                   else if starts_with remainder ''/'' then Some remainder
                                   else None)
             in case rewritten_path of
                  None \<Rightarrow> Ret None
                | Some r \<Rightarrow> (case query of
                               None \<Rightarrow> Ret (Some (Borrowed r))
                             | Some q \<Rightarrow> Ret (Some (Owned (r @ ''?'' @ q)))))))"

section \<open>Hosts\<close>

definition strip_port_str :: "string \<Rightarrow> string rust" where
  "strip_port_str host =
     (if starts_with host ''[''
      then (case find_byte CHR '']'' (drop 1 host) of
              Some end_idx \<Rightarrow> slice_to host (end_idx + 2)
            | None \<Rightarrow> Ret host)
      else (case rsplit_once CHR '':'' host of
              Some (h, port) \<Rightarrow> if h \<noteq> [] \<and> list_all is_ascii_digit port then Ret h else Ret host
            | None \<Rightarrow> Ret host))"

definition normalize_host :: "string \<Rightarrow> cow rust" where
  "normalize_host host =
     rust_bind (strip_port_str host) (\<lambda>h.
       if \<exists>c\<in>set h. is_ascii_uppercase c then Ret (Owned (to_ascii_lowercase h))
       else Ret (Borrowed h))"

section \<open>Facts about paths\<close>

lemma starts_with_single: "starts_with s [c] \<longleftrightarrow> (\<exists>t. s = c # t)"
  by (cases s) (auto simp: starts_with_def)

lemma starts_with_iff: "starts_with s p \<longleftrightarrow> (\<exists>t. s = p @ t)"
  by (auto simp: starts_with_def prefix_def)

text \<open>
  The first segment: skip the slashes, take the bytes up to the next one.
\<close>

lemma extract_first_path_segment_slash:
  "extract_first_path_segment (CHR ''/'' # path) = extract_first_path_segment path"
  by (simp add: extract_first_path_segment_def)

lemma extract_first_path_segment_segment:
  assumes "seg \<noteq> []" "CHR ''/'' \<notin> set seg" "rest = [] \<or> hd rest = CHR ''/''"
  shows "extract_first_path_segment (seg @ rest) = Some seg"
proof (cases rest)
  case Nil
  with assms show ?thesis by (simp add: extract_first_path_segment_def split_on_none)
next
  case (Cons c t)
  with assms have "rest = CHR ''/'' # t" by simp
  with assms show ?thesis by (simp add: extract_first_path_segment_def split_on_append)
qed

lemma extract_first_path_segment_Some:
  "extract_first_path_segment path = Some seg \<Longrightarrow>
   \<exists>k rest. path = replicate k (CHR ''/'') @ seg @ rest \<and> seg \<noteq> [] \<and> CHR ''/'' \<notin> set seg
     \<and> (rest = [] \<or> hd rest = CHR ''/'')"
proof (induction path)
  case Nil
  then show ?case by (simp add: extract_first_path_segment_def)
next
  case (Cons c path)
  show ?case
  proof (cases "c = CHR ''/''")
    case True
    with Cons obtain k rest where "path = replicate k (CHR ''/'') @ seg @ rest"
      "seg \<noteq> [] \<and> CHR ''/'' \<notin> set seg \<and> (rest = [] \<or> hd rest = CHR ''/'')"
      by (auto simp: extract_first_path_segment_slash)
    with True have "c # path = replicate (Suc k) (CHR ''/'') @ seg @ rest" by simp
    then show ?thesis using \<open>seg \<noteq> [] \<and> _\<close> by blast
  next
    case False
    then obtain p ps where ps: "split_on CHR ''/'' (c # path) = p # ps" "p \<noteq> []"
      by (cases "split_on CHR ''/'' path") auto
    with Cons.prems have "seg = p" by (simp add: extract_first_path_segment_def)
    moreover have "CHR ''/'' \<notin> set p"
      by (rule split_on_parts [of p "CHR ''/''" "c # path"]) (simp only: ps(1) list.set_intros)
    moreover from split_on_hd [OF ps(1)]
    obtain rest where "c # path = p @ rest" "rest = [] \<or> hd rest = CHR ''/''" by auto
    ultimately have "c # path = replicate 0 (CHR ''/'') @ seg @ rest \<and> seg \<noteq> []
        \<and> CHR ''/'' \<notin> set seg \<and> (rest = [] \<or> hd rest = CHR ''/'')" using ps(2) by simp
    then show ?thesis by blast
  qed
qed

text \<open>The path part of a request target, and its query with the question mark.\<close>

definition target_path :: "string \<Rightarrow> string" where
  "target_path pq = takeWhile (\<lambda>c. c \<noteq> CHR ''?'') pq"

definition target_query :: "string \<Rightarrow> string" where
  "target_query pq = dropWhile (\<lambda>c. c \<noteq> CHR ''?'') pq"

lemma target_split: "target_path pq @ target_query pq = pq"
  by (simp add: target_path_def target_query_def)

lemma split_once_target:
  "split_once CHR ''?'' pq =
     (if target_query pq = [] then None else Some (target_path pq, tl (target_query pq)))"
  by (induction pq) (auto simp: target_path_def target_query_def)

lemma target_query_hd: "target_query pq \<noteq> [] \<Longrightarrow> CHR ''?'' # tl (target_query pq) = target_query pq"
proof -
  assume ne: "target_query pq \<noteq> []"
  then have "hd (target_query pq) = CHR ''?''"
    using hd_dropWhile [of "\<lambda>c. c \<noteq> CHR ''?''" pq] by (simp add: target_query_def)
  with ne show ?thesis by (cases "target_query pq") auto
qed

lemma target_path_no_query: "target_query pq = [] \<Longrightarrow> target_path pq = pq"
  by (metis append_Nil2 target_split)

lemma utf8_target_path: "utf8 pq \<Longrightarrow> utf8 (target_path pq)"
proof (cases "target_query pq = []")
  case False
  assume "utf8 pq"
  then have "utf8 (target_path pq @ CHR ''?'' # tl (target_query pq))"
    using target_query_hd [OF False] target_split [of pq] by simp
  then show ?thesis by (rule utf8_split_ascii [THEN conjunct1]) (simp add: byte_def)
qed (simp add: target_path_no_query)

text \<open>
  The rewrite as a specification: it applies exactly to paths \<open>/seg\<close> and \<open>/seg/...\<close>.
\<close>

definition rewrite_spec :: "string \<Rightarrow> string \<Rightarrow> cow option" where
  "rewrite_spec pq seg =
     (let path = target_path pq; query = target_query pq;
          result = (\<lambda>r. if query = [] then Borrowed r else Owned (r @ query))
      in if \<exists>rest. path = CHR ''/'' # seg @ rest \<and> (rest = [] \<or> hd rest = CHR ''/'')
         then let rest = drop (length seg + 1) path
              in Some (result (if rest = [] then ''/'' else rest))
         else None)"

lemma strip_first_path_segment_spec:
  assumes "utf8 pq" "utf8 seg"
  shows "strip_first_path_segment pq seg = Ret (rewrite_spec pq seg)"
proof -
  let ?path = "target_path pq" and ?query = "target_query pq"
  have pq: "(case split_once CHR ''?'' pq of Some (p, q) \<Rightarrow> (p, Some q) | None \<Rightarrow> (pq, None))
      = (?path, if ?query = [] then None else Some (tl ?query))"
    by (simp add: split_once_target target_path_no_query)
  show ?thesis
  proof (cases "\<exists>t. ?path = CHR ''/'' # seg @ t")
    case False
    have "strip_first_path_segment pq seg = Ret None"
    proof (cases "starts_with ?path ''/'' \<and> \<not> length ?path < length seg + 1")
      case True
      then obtain p where p: "?path = CHR ''/'' # p" by (auto simp: starts_with_single)
      then have "utf8 p"
        using utf8_target_path [OF assms(1)] utf8_split_ascii [of "[]" "CHR ''/''" p]
        by (simp add: byte_def)
      then have "slice_from ?path 1 = Ret p"
        using slice_from_append [of p "''/''"] p by simp
      with True p False show ?thesis
        by (simp add: strip_first_path_segment_def pq starts_with_iff)
    qed (auto simp: strip_first_path_segment_def pq)
    moreover from False have "rewrite_spec pq seg = None" by (auto simp: rewrite_spec_def)
    ultimately show ?thesis by simp
  next
    case True
    then obtain rest where rest: "?path = CHR ''/'' # seg @ rest" by blast
    have u: "utf8 (seg @ rest)"
      using utf8_target_path [OF assms(1)] utf8_split_ascii [of "[]" "CHR ''/''" "seg @ rest"] rest
      by (simp add: byte_def)
    then have ur: "utf8 rest" using assms(2) utf8_append_right by blast
    have s1: "slice_from ?path 1 = Ret (seg @ rest)"
      using slice_from_append [OF u, of "''/''"] rest by simp
    have s2: "slice_from ?path (length seg + 1) = Ret rest"
      using slice_from_append [OF ur, of "CHR ''/'' # seg"] rest by simp
    have q: "?query \<noteq> [] \<Longrightarrow> CHR ''?'' # tl ?query = ?query" by (rule target_query_hd)
    have "starts_with ?path ''/''" "\<not> length ?path < length seg + 1"
      by (auto simp: rest starts_with_single)
    then show ?thesis
      using s1 s2 q rest
      by (cases rest)
         (auto simp: strip_first_path_segment_def rewrite_spec_def pq Let_def starts_with_iff)
  qed
qed

section \<open>Facts about hosts\<close>

lemma strip_port_prefix: "strip_port_str host = Ret h \<Longrightarrow> prefix h host"
  by (auto simp: strip_port_str_def slice_to_def rsplit_once_Some take_is_prefix
      split: if_splits option.splits)

lemma strip_port_returns:
  assumes "utf8 host"
  shows "\<exists>h. strip_port_str host = Ret h"
proof (cases "starts_with host ''['' \<and> find_byte CHR '']'' (drop 1 host) \<noteq> None")
  case True
  then obtain t i where t: "host = CHR ''['' # t" and i: "find_byte CHR '']'' t = Some i"
    by (auto simp: starts_with_single)
  from find_byte_Some [OF i] obtain a b where ab: "t = a @ CHR '']'' # b" "length a = i" by blast
  then have "host = (CHR ''['' # a) @ CHR '']'' # b" by (simp add: t)
  with assms have "utf8 b"
    using utf8_split_ascii [of "CHR ''['' # a" "CHR '']''" b] by (simp add: byte_def)
  then have "slice_to host (i + 2) = Ret (CHR ''['' # a @ '']'')"
    using slice_to_append [of b "CHR ''['' # a @ '']''"] ab by (simp add: t)
  with t i show ?thesis by (simp add: strip_port_str_def starts_with_single)
qed (auto simp: strip_port_str_def split: option.splits)

lemma strip_port_plain:
  assumes "h \<noteq> []" "hd h \<noteq> CHR ''[''" "list_all is_ascii_digit port"
  shows "strip_port_str (h @ CHR '':'' # port) = Ret h"
proof -
  have "CHR '':'' \<notin> set port"
    using assms(3) by (auto simp: list_all_iff is_ascii_digit_def byte_def)
  then have "rsplit_once CHR '':'' (h @ CHR '':'' # port) = Some (h, port)"
    by (simp add: rsplit_once_Some)
  moreover have "\<not> starts_with (h @ CHR '':'' # port) ''[''"
    using assms(1,2) by (cases h) (auto simp: starts_with_single)
  ultimately show ?thesis using assms by (simp add: strip_port_str_def)
qed

lemma strip_port_none:
  assumes "CHR '':'' \<notin> set h" "\<not> starts_with h ''[''"
  shows "strip_port_str h = Ret h"
proof -
  from assms(1) have "rsplit_once CHR '':'' h = None" by (simp add: rsplit_once_None)
  with assms(2) show ?thesis by (simp add: strip_port_str_def)
qed

lemma normalize_host_strip:
  "strip_port_str host = Ret h \<Longrightarrow> map_rust cow_str (normalize_host host) = Ret (to_ascii_lowercase h)"
  by (auto simp: normalize_host_def to_ascii_lowercase_id)

end
