(* ===== verification/Requests.thy ===== *)
theory Requests
  imports Affinity Options Routes
begin

text \<open>
  What \<open>src/router.rs\<close> reads of a request and sets on a connection before it routes: the limit
  checks, the timeouts, the host. The status codes are the numbers of \<open>http::StatusCode\<close>. Of
  Pingora's downstream session the model keeps what the crate writes to it; its peer is the
  record \<open>http_peer\<close> with the options the crate sets.
\<close>

section \<open>Request limits\<close>

definition NOT_FOUND :: u16 where "NOT_FOUND = 404"
definition PAYLOAD_TOO_LARGE :: u16 where "PAYLOAD_TOO_LARGE = 413"
definition URI_TOO_LONG :: u16 where "URI_TOO_LONG = 414"
definition REQUEST_HEADER_FIELDS_TOO_LARGE :: u16 where "REQUEST_HEADER_FIELDS_TOO_LARGE = 431"
definition SERVICE_UNAVAILABLE :: u16 where "SERVICE_UNAVAILABLE = 503"

lemmas status_defs = NOT_FOUND_def PAYLOAD_TOO_LARGE_def URI_TOO_LONG_def
  REQUEST_HEADER_FIELDS_TOO_LARGE_def SERVICE_UNAVAILABLE_def

definition request_header_count :: "session \<Rightarrow> nat" where
  "request_header_count s = length (req_headers s)"

definition request_single_header_size :: "session \<Rightarrow> nat" where
  "request_single_header_size s =
     (case map (\<lambda>(name, value). length name + length value) (req_headers s) of
        [] \<Rightarrow> 0
      | n # ns \<Rightarrow> fold max ns n)"

definition request_header_size :: "session \<Rightarrow> nat" where
  "request_header_size s = length (req_h1_raw s)"

definition request_content_length :: "http_lib \<Rightarrow> session \<Rightarrow> u64 option" where
  "request_content_length L s = Option.bind (header_text L s ''content-length'') parse_u64"

text \<open>One iteration of the loop over the checks: the status it returns, if any.\<close>

fun limit_check_status :: "http_lib \<Rightarrow> session \<Rightarrow> proxy_limit_check \<Rightarrow> u16 option" where
  "limit_check_status L s (UriBytes limit) =
     (if unat limit < length (req_raw_path s) then Some URI_TOO_LONG else None)"
| "limit_check_status L s (RequestHeaders limit) =
     (if unat limit < request_header_count s then Some REQUEST_HEADER_FIELDS_TOO_LARGE else None)"
| "limit_check_status L s (SingleHeaderBytes limit) =
     (if unat limit < request_single_header_size s then Some REQUEST_HEADER_FIELDS_TOO_LARGE else None)"
| "limit_check_status L s (RequestHeaderBytes limit) =
     (if unat limit < request_header_size s then Some REQUEST_HEADER_FIELDS_TOO_LARGE else None)"
| "limit_check_status L s (RequestBodyBytes limit) =
     (case request_content_length L s of
        Some n \<Rightarrow> if limit < n then Some PAYLOAD_TOO_LARGE else None
      | None \<Rightarrow> None)"

fun request_limit_rejection_status :: "http_lib \<Rightarrow> session \<Rightarrow> proxy_limits \<Rightarrow> u16 option" where
  "request_limit_rejection_status L s Disabled = None"
| "request_limit_rejection_status L s (Enabled checks) = find_map (limit_check_status L s) checks"

section \<open>Timeouts\<close>

record downstream =
  ds_read_timeout :: "duration option"
  ds_keepalive :: "u64 option"
  ds_responses :: "u16 list"

record http_peer =
  hp_address :: string
  hp_tls :: bool
  hp_sni :: string
  hp_connection_timeout :: "duration option"
  hp_total_connection_timeout :: "duration option"
  hp_read_timeout :: "duration option"
  hp_write_timeout :: "duration option"
  hp_http_version :: "nat \<times> nat"

definition duration_ms :: "u32 \<Rightarrow> duration" where
  "duration_ms value = from_millis (ucast value)"

definition apply_downstream_timeouts :: "proxy_timeouts \<Rightarrow> downstream \<Rightarrow> downstream" where
  "apply_downstream_timeouts t ds =
     ds\<lparr>ds_read_timeout := Some (duration_ms (downstream_body_idle_timeout_ms t)),
        ds_keepalive := Some (ucast (downstream_keep_alive_timeout_seconds t))\<rparr>"

definition apply_upstream_timeouts :: "proxy_timeouts \<Rightarrow> http_peer \<Rightarrow> http_peer" where
  "apply_upstream_timeouts t peer =
     (let upstream_connect = duration_ms (upstream_connect_timeout_ms t)
      in peer\<lparr>hp_connection_timeout := Some upstream_connect,
              hp_total_connection_timeout := Some upstream_connect,
              hp_read_timeout := Some (duration_ms (upstream_read_timeout_ms t)),
              hp_write_timeout := Some (duration_ms (upstream_write_timeout_ms t))\<rparr>)"

text \<open>
  \<open>reject_request\<close>: no keep-alive, then the error response. \<open>respond\<close> says what writing a
  response with a status to the client gives: \<open>None\<close> when it is written, \<open>Some e\<close> for an error.
\<close>

definition reject_request ::
    "(u16 \<Rightarrow> 'e option) \<Rightarrow> u16 \<Rightarrow> downstream \<Rightarrow> ('e + bool) \<times> downstream" where
  "reject_request respond status ds =
     (let ds = ds\<lparr>ds_keepalive := None\<rparr>
      in case respond status of
           Some e \<Rightarrow> (Inl e, ds)
         | None \<Rightarrow> (Inr True, ds\<lparr>ds_responses := ds_responses ds @ [status]\<rparr>))"

section \<open>The host\<close>

text \<open>
  The value of the \<open>Host\<close> header; when there is none or it is not text, the code goes on to
  build the header name \<open>:authority\<close>, which panics if the \<open>http\<close> crate rejects that name.
\<close>

definition host_text :: "http_lib \<Rightarrow> session \<Rightarrow> string option rust" where
  "host_text L s =
     (case header_text L s ''host'' of
        Some v \<Rightarrow> Ret (Some v)
      | None \<Rightarrow> (case hl_from_static L '':authority'' of
                   None \<Rightarrow> Panic
                 | Some name \<Rightarrow> Ret (header_text L s name)))"

definition extract_host :: "http_lib \<Rightarrow> session \<Rightarrow> cow option rust" where
  "extract_host L s =
     rust_bind (host_text L s) (\<lambda>host.
       case host of
         None \<Rightarrow> Ret None
       | Some h \<Rightarrow> map_rust Some (normalize_host h))"

section \<open>Facts\<close>

lemma fold_max_le_iff: "fold max ns (n :: nat) \<le> m \<longleftrightarrow> n \<le> m \<and> (\<forall>x\<in>set ns. x \<le> m)"
  by (induction ns arbitrary: n) auto

lemma single_header_size_le:
  "request_single_header_size s \<le> m \<longleftrightarrow>
   (\<forall>(name, value) \<in> set (req_headers s). length name + length value \<le> m)"
  by (auto simp: request_single_header_size_def fold_max_le_iff split: list.split)

lemma find_map_None_iff: "find_map f xs = None \<longleftrightarrow> (\<forall>x\<in>set xs. f x = None)"
  by (induction xs) (auto split: option.splits)

lemma find_map_first:
  "find_map f xs = Some y \<longleftrightarrow>
   (\<exists>ys x zs. xs = ys @ x # zs \<and> (\<forall>z\<in>set ys. f z = None) \<and> f x = Some y)"
proof
  show "find_map f xs = Some y \<Longrightarrow>
      \<exists>ys x zs. xs = ys @ x # zs \<and> (\<forall>z\<in>set ys. f z = None) \<and> f x = Some y"
  proof (induction xs)
    case (Cons a xs)
    show ?case
    proof (cases "f a")
      case None
      with Cons obtain ys x zs where "xs = ys @ x # zs" "\<forall>z\<in>set ys. f z = None" "f x = Some y" by auto
      with None have "a # xs = (a # ys) @ x # zs \<and> (\<forall>z\<in>set (a # ys). f z = None) \<and> f x = Some y" by simp
      then show ?thesis by blast
    next
      case (Some b)
      with Cons.prems have "a # xs = [] @ a # xs \<and> (\<forall>z\<in>set []. f z = None) \<and> f a = Some y" by simp
      then show ?thesis by blast
    qed
  qed simp
qed (auto simp: find_map_skip)

text \<open>A request keeps a limit; the checks of a request that is let through all hold.\<close>

fun within_limit :: "http_lib \<Rightarrow> session \<Rightarrow> proxy_limit_check \<Rightarrow> bool" where
  "within_limit L s (UriBytes l) \<longleftrightarrow> length (req_raw_path s) \<le> unat l"
| "within_limit L s (RequestHeaders l) \<longleftrightarrow> length (req_headers s) \<le> unat l"
| "within_limit L s (SingleHeaderBytes l) \<longleftrightarrow>
     (\<forall>(name, value) \<in> set (req_headers s). length name + length value \<le> unat l)"
| "within_limit L s (RequestHeaderBytes l) \<longleftrightarrow> length (req_h1_raw s) \<le> unat l"
| "within_limit L s (RequestBodyBytes l) \<longleftrightarrow>
     (\<forall>n. Option.bind (header_text L s ''content-length'') parse_u64 = Some n \<longrightarrow> n \<le> l)"

fun check_status :: "proxy_limit_check \<Rightarrow> u16" where
  "check_status (UriBytes l) = 414"
| "check_status (RequestBodyBytes l) = 413"
| "check_status _ = 431"

lemma limit_check_status_eq:
  "limit_check_status L s c = (if within_limit L s c then None else Some (check_status c))"
proof (cases c)
  case (SingleHeaderBytes l)
  then show ?thesis
    using single_header_size_le [of s "unat l"] by (simp add: status_defs linorder_not_le [symmetric])
qed (auto simp: status_defs request_header_count_def request_header_size_def
       request_content_length_def dest: leD split: option.splits)

lemma extract_host_text:
  "header_text L s ''host'' = Some v \<Longrightarrow> extract_host L s = map_rust Some (normalize_host v)"
  by (simp add: extract_host_def host_text_def)

end
