(* ===== verification/Hash_Map.thy ===== *)
theory Hash_Map
  imports Prelude
begin

text \<open>
  The standard \<open>HashMap\<close>. Its contents are an association list with distinct keys; the order
  of the list is not the order in which the program iterates. Code that iterates takes the
  iteration order as a parameter, any reordering of the contents (\<open>iteration\<close>). What the
  components use of a map is the interface \<open>hash_map\<close>.
\<close>

type_synonym ('k, 'v) hm = "('k \<times> 'v) list"

definition hm_empty :: "('k, 'v) hm" where
  "hm_empty = []"

definition hm_get :: "('k, 'v) hm \<Rightarrow> 'k \<Rightarrow> 'v option" where
  "hm_get m k = map_of m k"

definition hm_insert :: "'k \<Rightarrow> 'v \<Rightarrow> ('k, 'v) hm \<Rightarrow> ('k, 'v) hm" where
  "hm_insert k v m = AList.update k v m"

definition hm_remove :: "'k \<Rightarrow> ('k, 'v) hm \<Rightarrow> ('k, 'v) hm" where
  "hm_remove k m = filter (\<lambda>p. fst p \<noteq> k) m"

definition hm_retain :: "('k \<Rightarrow> 'v \<Rightarrow> bool) \<Rightarrow> ('k, 'v) hm \<Rightarrow> ('k, 'v) hm" where
  "hm_retain P m = filter (\<lambda>p. P (fst p) (snd p)) m"

definition hm_wf :: "('k, 'v) hm \<Rightarrow> bool" where
  "hm_wf m \<longleftrightarrow> distinct (map fst m)"

text \<open>An iteration order: every map is visited exactly once per entry.\<close>

definition iteration :: "(('k, 'v) hm \<Rightarrow> ('k \<times> 'v) list) \<Rightarrow> bool" where
  "iteration it \<longleftrightarrow> (\<forall>m. mset (it m) = mset m)"

section \<open>The interface\<close>

locale hash_map =
  fixes empty :: "'m"
    and get :: "'m \<Rightarrow> 'k \<Rightarrow> 'v option"
    and insert :: "'k \<Rightarrow> 'v \<Rightarrow> 'm \<Rightarrow> 'm"
    and remove :: "'k \<Rightarrow> 'm \<Rightarrow> 'm"
    and retain :: "('k \<Rightarrow> 'v \<Rightarrow> bool) \<Rightarrow> 'm \<Rightarrow> 'm"
    and wf :: "'m \<Rightarrow> bool"
  assumes get_empty: "get empty k = None"
    and get_insert: "get (insert k v m) = (get m)(k \<mapsto> v)"
    and get_remove: "get (remove k m) = (get m)(k := None)"
    and get_retain: "wf m \<Longrightarrow>
      get (retain P m) k = (case get m k of None \<Rightarrow> None | Some v \<Rightarrow> if P k v then Some v else None)"
    and wf_empty: "wf empty"
    and wf_insert: "wf m \<Longrightarrow> wf (insert k v m)"
    and wf_remove: "wf m \<Longrightarrow> wf (remove k m)"
    and wf_retain: "wf m \<Longrightarrow> wf (retain P m)"
begin

lemma dom_insert: "dom (get (insert k v m)) = Set.insert k (dom (get m))"
  by (simp add: get_insert)

lemma dom_remove: "dom (get (remove k m)) = dom (get m) - {k}"
  by (simp add: get_remove)

lemma insert_then_remove: "get m k = None \<Longrightarrow> get (remove k (insert k v m)) = get m"
  by (rule ext) (simp add: get_remove get_insert)

lemma insert_overwrites: "get (insert k v (insert k w m)) = get (insert k v m)"
  by (simp add: get_insert)

lemma retain_shrinks: "wf m \<Longrightarrow> get (retain P m) \<subseteq>\<^sub>m get m"
  by (auto simp: map_le_def get_retain split: option.splits if_splits)

lemmas get_simps = get_empty get_insert get_remove
lemmas wf_rules = wf_empty wf_insert wf_remove wf_retain

end

section \<open>The association list provides it\<close>

lemma hm_get_Some_iff: "hm_wf m \<Longrightarrow> hm_get m k = Some v \<longleftrightarrow> (k, v) \<in> set m"
  by (simp add: hm_get_def hm_wf_def)

lemma hm_get_filter:
  "hm_wf m \<Longrightarrow>
   hm_get (filter (\<lambda>p. P (fst p) (snd p)) m) k =
     (case hm_get m k of None \<Rightarrow> None | Some v \<Rightarrow> if P k v then Some v else None)"
  by (induction m)
     (auto simp: hm_get_def hm_wf_def map_of_eq_None_iff split: option.splits intro: rev_image_eqI)

lemma hm_wf_filter: "hm_wf m \<Longrightarrow> hm_wf (filter P m)"
  by (simp add: hm_wf_def distinct_map_filter)

interpretation hm: hash_map hm_empty hm_get hm_insert hm_remove hm_retain hm_wf
proof
  fix m :: "('k, 'v) hm" and k :: 'k and v :: 'v and P
  show "hm_get (hm_empty :: ('k, 'v) hm) k = None"
    by (simp add: hm_get_def hm_empty_def)
  show "hm_get (hm_insert k v m) = (hm_get m)(k \<mapsto> v)"
    by (simp add: hm_get_def [abs_def] hm_insert_def update_conv')
  show "hm_get (hm_remove k m) = (hm_get m)(k := None)"
  proof
    fix j
    show "hm_get (hm_remove k m) j = ((hm_get m)(k := None)) j"
      by (induction m) (auto simp: hm_get_def hm_remove_def)
  qed
  show "hm_wf m \<Longrightarrow> hm_get (hm_retain P m) k =
      (case hm_get m k of None \<Rightarrow> None | Some v \<Rightarrow> if P k v then Some v else None)"
    by (simp add: hm_retain_def hm_get_filter)
  show "hm_wf (hm_empty :: ('k, 'v) hm)"
    by (simp add: hm_wf_def hm_empty_def)
  show "hm_wf m \<Longrightarrow> hm_wf (hm_insert k v m)"
    by (simp add: hm_wf_def hm_insert_def distinct_update)
  show "hm_wf m \<Longrightarrow> hm_wf (hm_remove k m)"
    by (simp add: hm_remove_def hm_wf_filter)
  show "hm_wf m \<Longrightarrow> hm_wf (hm_retain P m)"
    by (simp add: hm_retain_def hm_wf_filter)
qed

text \<open>Sizes.\<close>

lemma length_hm_insert:
  "length (hm_insert k v m) = (if hm_get m k = None then Suc (length m) else length m)"
  by (induction m) (auto simp: hm_insert_def hm_get_def)

lemma length_hm_remove:
  "hm_wf m \<Longrightarrow> length (hm_remove k m) = (if hm_get m k = None then length m else length m - 1)"
proof (induction m)
  case Nil
  then show ?case by (simp add: hm_remove_def)
next
  case (Cons p m)
  then have wf: "hm_wf m" and notin: "fst p \<notin> fst ` set m" by (auto simp: hm_wf_def)
  show ?case
  proof (cases "fst p = k")
    case True
    with notin have "\<forall>q\<in>set m. fst q \<noteq> k" by (metis image_eqI)
    with True have "hm_remove k (p # m) = m" by (simp add: hm_remove_def filter_id_conv)
    with True show ?thesis by (simp add: hm_get_def)
  next
    case False
    then have "hm_remove k (p # m) = p # hm_remove k m" by (simp add: hm_remove_def)
    moreover have "hm_get (p # m) k = hm_get m k" using False by (cases p) (simp add: hm_get_def)
    moreover have "hm_get m k \<noteq> None \<Longrightarrow> 0 < length m" by (cases m) (auto simp: hm_get_def)
    ultimately show ?thesis using Cons.IH [OF wf] by auto
  qed
qed

lemma set_hm_insert: "hm_wf m \<Longrightarrow> set (hm_insert k v m) = {p \<in> set m. fst p \<noteq> k} \<union> {(k, v)}"
proof -
  assume wf: "hm_wf m"
  then have wf': "hm_wf (hm_insert k v m)" by (rule hm.wf_insert)
  have "(j, w) \<in> set (hm_insert k v m) \<longleftrightarrow> (j, w) \<in> {p \<in> set m. fst p \<noteq> k} \<union> {(k, v)}" for j w
    using hm_get_Some_iff [OF wf'] hm_get_Some_iff [OF wf] by (auto simp: hm.get_insert simp flip: hm_get_Some_iff [OF wf'] hm_get_Some_iff [OF wf])
  then show ?thesis by auto
qed

lemma set_hm_remove: "set (hm_remove k m) = {p \<in> set m. fst p \<noteq> k}"
  by (auto simp: hm_remove_def)

lemma set_iteration: "iteration it \<Longrightarrow> set (it m) = set m"
  by (metis iteration_def set_mset_mset)

lemma length_iteration: "iteration it \<Longrightarrow> length (it m) = length m"
  by (metis iteration_def size_mset)

lemma iteration_id: "iteration (\<lambda>m. m)"
  by (simp add: iteration_def)

lemma iteration_rev: "iteration rev"
  by (simp add: iteration_def)

end
