(* ===== verification/Eviction.thy ===== *)
theory Eviction
  imports Hash_Map Routes "HOL-Library.Product_Lexorder"
begin

text \<open>
  The eviction loop of \<open>StickySessionState::cleanup_global\<close> in \<open>src/router.rs\<close>, over the shard
  maps it has locked. The \<open>BinaryHeap<Reverse<EvictionItem>>\<close> is a min-queue on
  (\<open>expires_at\<close>, \<open>sequence\<close>), used through the interface \<open>min_queue\<close>. The iteration order of the
  hash maps is a parameter \<open>it\<close>.
\<close>

section \<open>Keys, entries, eviction items\<close>

record affinity_map_key =
  amk_app_name :: string
  amk_transport :: transport_kind
  amk_affinity_key :: string

record affinity_entry =
  ae_backend :: string
  ae_expires_at :: instant

record eviction_item =
  ei_expires_at :: instant
  ei_sequence :: nat
  ei_shard_index :: nat
  ei_key :: affinity_map_key

type_synonym shard_map = "(affinity_map_key, affinity_entry) hm"
type_synonym iter_order = "shard_map \<Rightarrow> (affinity_map_key \<times> affinity_entry) list"

text \<open>\<open>Ord for EvictionItem\<close>: the expiry first, then the sequence number.\<close>

definition eviction_rank :: "eviction_item \<Rightarrow> instant \<times> nat" where
  "eviction_rank x = (ei_expires_at x, ei_sequence x)"

section \<open>The priority queue\<close>

inductive pops :: "('q \<Rightarrow> ('a \<times> 'q) option) \<Rightarrow> 'q \<Rightarrow> 'a list \<Rightarrow> 'q \<Rightarrow> bool" for pop where
  pops_Nil: "pops pop q [] q"
| pops_Cons: "pop q = Some (x, q') \<Longrightarrow> pops pop q' xs q'' \<Longrightarrow> pops pop q (x # xs) q''"

locale min_queue =
  fixes empty :: "'q"
    and push :: "'a \<Rightarrow> 'q \<Rightarrow> 'q"
    and pop :: "'q \<Rightarrow> ('a \<times> 'q) option"
    and items :: "'q \<Rightarrow> 'a multiset"
    and inv :: "'q \<Rightarrow> bool"
    and rank :: "'a \<Rightarrow> 'r :: linorder"
  assumes inv_empty: "inv empty"
    and inv_push: "inv q \<Longrightarrow> inv (push x q)"
    and items_empty: "items empty = {#}"
    and items_push: "items (push x q) = add_mset x (items q)"
    and pop_None: "pop q = None \<longleftrightarrow> items q = {#}"
    and pop_items: "pop q = Some (x, q') \<Longrightarrow> items q = add_mset x (items q')"
    and pop_inv: "inv q \<Longrightarrow> pop q = Some (x, q') \<Longrightarrow> inv q'"
    and pop_min: "inv q \<Longrightarrow> pop q = Some (x, q') \<Longrightarrow> y \<in># items q' \<Longrightarrow> rank x \<le> rank y"
begin

lemma pop_progress: "items q \<noteq> {#} \<Longrightarrow> \<exists>x q'. pop q = Some (x, q')"
  using pop_None [of q] by (cases "pop q") auto

lemma pop_smaller: "pop q = Some (x, q') \<Longrightarrow> size (items q') < size (items q)"
  by (simp add: pop_items)

lemma pops_items: "pops pop q xs q' \<Longrightarrow> items q = mset xs + items q'"
  by (induction rule: pops.induct) (auto simp: pop_items)

lemma pops_inv: "pops pop q xs q' \<Longrightarrow> inv q \<Longrightarrow> inv q'"
  by (induction rule: pops.induct) (auto intro: pop_inv)

text \<open>What has been popped ranks no higher than what is left.\<close>

lemma pops_min:
  "pops pop q xs q' \<Longrightarrow> inv q \<Longrightarrow> x \<in> set xs \<Longrightarrow> y \<in># items q' \<Longrightarrow> rank x \<le> rank y"
proof (induction rule: pops.induct)
  case (pops_Cons q z q' xs q'')
  from pops_Cons.prems(1) pops_Cons.hyps(1) have inv': "inv q'" by (rule pop_inv)
  show ?case
  proof (cases "x = z")
    case True
    from pops_items [OF pops_Cons.hyps(2)] pops_Cons.prems(3) have "y \<in># items q'" by simp
    with pop_min [OF pops_Cons.prems(1) pops_Cons.hyps(1)] True show ?thesis by simp
  next
    case False
    with pops_Cons.prems have "x \<in> set xs" by simp
    with pops_Cons.IH inv' pops_Cons.prems(3) show ?thesis by blast
  qed
qed simp

end

text \<open>The heap of the code: a list kept in rank order.\<close>

type_synonym heap = "eviction_item list"

definition heap_new :: heap where
  "heap_new = []"

definition heap_push :: "eviction_item \<Rightarrow> heap \<Rightarrow> heap" where
  "heap_push x h = insort_key eviction_rank x h"

definition heap_pop :: "heap \<Rightarrow> (eviction_item \<times> heap) option" where
  "heap_pop h = (case h of [] \<Rightarrow> None | x # h' \<Rightarrow> Some (x, h'))"

definition heap_sorted :: "heap \<Rightarrow> bool" where
  "heap_sorted h \<longleftrightarrow> sorted (map eviction_rank h)"

interpretation heap: min_queue heap_new heap_push heap_pop mset heap_sorted eviction_rank
proof
  fix q q' x y
  show "heap_sorted heap_new" by (simp add: heap_sorted_def heap_new_def)
  show "heap_sorted q \<Longrightarrow> heap_sorted (heap_push x q)"
    by (simp add: heap_sorted_def heap_push_def sorted_insort_key)
  show "mset heap_new = {#}" by (simp add: heap_new_def)
  show "mset (heap_push x q) = add_mset x (mset q)" by (simp add: heap_push_def)
  show "heap_pop q = None \<longleftrightarrow> mset q = {#}" by (simp add: heap_pop_def split: list.splits)
  show "heap_pop q = Some (x, q') \<Longrightarrow> mset q = add_mset x (mset q')"
    by (auto simp: heap_pop_def split: list.splits)
  show "heap_sorted q \<Longrightarrow> heap_pop q = Some (x, q') \<Longrightarrow> heap_sorted q'"
    by (auto simp: heap_pop_def heap_sorted_def split: list.splits)
  show "heap_sorted q \<Longrightarrow> heap_pop q = Some (x, q') \<Longrightarrow> y \<in># mset q'
      \<Longrightarrow> eviction_rank x \<le> eviction_rank y"
    by (auto simp: heap_pop_def heap_sorted_def split: list.splits)
qed

section \<open>The loops\<close>

text \<open>The candidates: every entry of every locked shard, numbered in the order of the visit.\<close>

fun push_entries ::
    "nat \<Rightarrow> (affinity_map_key \<times> affinity_entry) list \<Rightarrow> heap \<times> nat \<Rightarrow> heap \<times> nat" where
  "push_entries shard_index [] (candidates, sequence) = (candidates, sequence)"
| "push_entries shard_index ((key, entry) # rest) (candidates, sequence) =
     push_entries shard_index rest
       (heap_push \<lparr>ei_expires_at = ae_expires_at entry, ei_sequence = sequence,
                   ei_shard_index = shard_index, ei_key = key\<rparr> candidates,
        sequence + 1)"

fun push_shards :: "iter_order \<Rightarrow> nat \<Rightarrow> shard_map list \<Rightarrow> heap \<times> nat \<Rightarrow> heap \<times> nat" where
  "push_shards it shard_index [] acc = acc"
| "push_shards it shard_index (entries # guards) acc =
     push_shards it (Suc shard_index) guards (push_entries shard_index (it entries) acc)"

definition eviction_candidates :: "iter_order \<Rightarrow> shard_map list \<Rightarrow> heap" where
  "eviction_candidates it guards = fst (push_shards it 0 guards (heap_new, 0))"

text \<open>\<open>while removed < overflow\<close>: pop a candidate, remove its entry if it is still current.\<close>

function evict_loop ::
    "nat \<Rightarrow> nat \<Rightarrow> heap \<Rightarrow> shard_map list \<Rightarrow> shard_map list \<times> nat" where
  "evict_loop overflow removed candidates guards =
     (if removed < overflow
      then case heap_pop candidates of
             None \<Rightarrow> (guards, removed)
           | Some (candidate, candidates') \<Rightarrow>
               if ei_shard_index candidate < length guards
               then let entries = guards ! ei_shard_index candidate;
                        is_current = (case hm_get entries (ei_key candidate) of
                                        Some entry \<Rightarrow> ae_expires_at entry = ei_expires_at candidate
                                      | None \<Rightarrow> False)
                    in if \<not> is_current then evict_loop overflow removed candidates' guards
                       else evict_loop overflow
                              (if hm_get entries (ei_key candidate) \<noteq> None then removed + 1 else removed)
                              candidates'
                              (guards[ei_shard_index candidate := hm_remove (ei_key candidate) entries])
               else evict_loop overflow removed candidates' guards
      else (guards, removed))"
  by pat_completeness auto
termination
  by (relation "measure (\<lambda>(_, _, h, _). length h)")
     (auto simp: heap_pop_def split: list.splits)

declare evict_loop.simps [simp del]

text \<open>The last resort after the loop: arbitrary keys, shard by shard.\<close>

fun drain_shard :: "iter_order \<Rightarrow> nat \<Rightarrow> shard_map \<Rightarrow> nat \<times> shard_map" where
  "drain_shard it 0 entries = (0, entries)"
| "drain_shard it (Suc remaining) entries =
     (case it entries of
        [] \<Rightarrow> (Suc remaining, entries)
      | (key, _) # _ \<Rightarrow> drain_shard it remaining (hm_remove key entries))"

fun drain :: "iter_order \<Rightarrow> nat \<Rightarrow> shard_map list \<Rightarrow> shard_map list" where
  "drain it remaining [] = []"
| "drain it remaining (entries # guards) =
     (let (remaining', entries') = drain_shard it remaining entries
      in if remaining' = 0 then entries' # guards
         else entries' # drain it remaining' guards)"

text \<open>The body of \<open>cleanup_global\<close> over the locked shard maps.\<close>

definition cleanup_guards ::
    "iter_order \<Rightarrow> nat \<Rightarrow> instant \<Rightarrow> shard_map list \<Rightarrow> shard_map list" where
  "cleanup_guards it max_entries now guards =
     (let guards = map (hm_retain (\<lambda>_ entry. now < ae_expires_at entry)) guards;
          current_entries = sum_list (map length guards)
      in if current_entries \<le> max_entries then guards
         else let overflow = current_entries - max_entries;
                  candidates = eviction_candidates it guards;
                  (guards, removed) = evict_loop overflow 0 candidates guards
              in if overflow \<le> removed then guards
                 else drain it (overflow - removed) guards)"

end
