(* ===== verification/Sticky.thy ===== *)
theory Sticky
  imports Eviction Affinity
begin

text \<open>
  \<open>StickySessionState\<close> in \<open>src/router.rs\<close>: 64 shards, each a hash map from (application,
  transport, affinity key) to a backend with an expiry, behind a mutex that may be poisoned, and
  an operation counter; plus the counter of generated keys. The hash of a key is the parameter
  \<open>h\<close> (\<open>DefaultHasher\<close>), the iteration order of the maps the parameter \<open>it\<close>, and the clock the
  argument \<open>now\<close>. Here an operation runs in one piece; \<open>Sticky_Threads\<close> cuts it at its locks.
\<close>

record sticky_shard =
  entries :: shard_map
  op_counter :: u64
  poisoned :: bool

record sticky_session_state =
  st_config :: sticky_session_config
  shards :: "sticky_shard list"
  key_counter :: u64

type_synonym key_hash = "affinity_map_key \<Rightarrow> u64"

definition STICKY_SHARD_COUNT :: nat where "STICKY_SHARD_COUNT = 64"

definition sticky_shard_new :: sticky_shard where
  "sticky_shard_new = \<lparr>entries = hm_empty, op_counter = 0, poisoned = False\<rparr>"

text \<open>The state \<open>Router::new\<close> builds when sticky sessions are enabled.\<close>

definition sticky_state_new :: "sticky_session_config \<Rightarrow> sticky_session_state" where
  "sticky_state_new cfg =
     \<lparr>st_config = cfg, shards = replicate STICKY_SHARD_COUNT sticky_shard_new, key_counter = 1\<rparr>"

definition affinity_map_key_of :: "string \<Rightarrow> transport_kind \<Rightarrow> string \<Rightarrow> affinity_map_key" where
  "affinity_map_key_of app transport key =
     \<lparr>amk_app_name = app, amk_transport = transport, amk_affinity_key = key\<rparr>"

definition shard_index_for_key :: "key_hash \<Rightarrow> sticky_session_state \<Rightarrow> affinity_map_key \<Rightarrow> nat" where
  "shard_index_for_key h st key = unat (h key) mod length (shards st)"

text \<open>\<open>fetch_add\<close> returns the old value; the addition wraps.\<close>

definition should_cleanup :: "sticky_shard \<Rightarrow> bool \<times> sticky_shard" where
  "should_cleanup shard =
     (unat (op_counter shard) mod 128 = 0, shard\<lparr>op_counter := op_counter shard + 1\<rparr>)"

section \<open>Global cleanup\<close>

text \<open>The maps of the shards whose lock is not poisoned, and the same shards with new maps.\<close>

definition lock_guards :: "sticky_shard list \<Rightarrow> shard_map list" where
  "lock_guards ss = map entries (filter (\<lambda>s. \<not> poisoned s) ss)"

fun write_back :: "sticky_shard list \<Rightarrow> shard_map list \<Rightarrow> sticky_shard list" where
  "write_back [] gs = []"
| "write_back (s # ss) gs =
     (if poisoned s then s # write_back ss gs
      else case gs of [] \<Rightarrow> s # ss | g # gs' \<Rightarrow> s\<lparr>entries := g\<rparr> # write_back ss gs')"

definition cleanup_global ::
    "iter_order \<Rightarrow> instant \<Rightarrow> sticky_session_state \<Rightarrow> sticky_session_state" where
  "cleanup_global it now st =
     st\<lparr>shards := write_back (shards st)
                  (cleanup_guards it (sc_max_entries (st_config st)) now (lock_guards (shards st)))\<rparr>"

section \<open>Operations\<close>

definition set_shard :: "nat \<Rightarrow> sticky_shard \<Rightarrow> sticky_session_state \<Rightarrow> sticky_session_state" where
  "set_shard i s st = st\<lparr>shards := (shards st)[i := s]\<rparr>"

definition sticky_lookup ::
    "key_hash \<Rightarrow> iter_order \<Rightarrow> instant \<Rightarrow> string \<Rightarrow> transport_kind \<Rightarrow> string \<Rightarrow> string set
       \<Rightarrow> sticky_session_state \<Rightarrow> string option \<times> sticky_session_state" where
  "sticky_lookup h it now app transport affinity_key allowed_backends st =
     (let key = affinity_map_key_of app transport affinity_key;
          i = shard_index_for_key h st key;
          (cleanup, shard) = should_cleanup (shards st ! i);
          st = set_shard i shard st;
          st = (if cleanup then cleanup_global it now st else st);
          shard = shards st ! i
      in if poisoned shard then (None, st)
         else case hm_get (entries shard) key of
                Some entry \<Rightarrow>
                  if now < ae_expires_at entry \<and> ae_backend entry \<in> allowed_backends
                  then (Some (ae_backend entry),
                        set_shard i
                          (shard\<lparr>entries := hm_insert key
                                   (entry\<lparr>ae_expires_at := now + sc_ttl (st_config st)\<rparr>)
                                   (entries shard)\<rparr>) st)
                  else (None, set_shard i (shard\<lparr>entries := hm_remove key (entries shard)\<rparr>) st)
              | None \<Rightarrow> (None, st))"

definition sticky_bind ::
    "key_hash \<Rightarrow> iter_order \<Rightarrow> instant \<Rightarrow> string \<Rightarrow> transport_kind \<Rightarrow> string \<Rightarrow> string
       \<Rightarrow> sticky_session_state \<Rightarrow> sticky_session_state" where
  "sticky_bind h it now app transport affinity_key backend st =
     (let key = affinity_map_key_of app transport affinity_key;
          i = shard_index_for_key h st key;
          shard = shards st ! i;
          expires_at = now + sc_ttl (st_config st)
      in if poisoned shard then st
         else let shard = shard\<lparr>entries := hm_insert key
                                  \<lparr>ae_backend = backend, ae_expires_at = expires_at\<rparr> (entries shard)\<rparr>;
                  (cleanup, shard) = should_cleanup shard;
                  st = set_shard i shard st
              in if \<not> cleanup then st else cleanup_global it now st)"

definition sticky_remove ::
    "key_hash \<Rightarrow> string \<Rightarrow> transport_kind \<Rightarrow> string \<Rightarrow> sticky_session_state \<Rightarrow> sticky_session_state" where
  "sticky_remove h app transport affinity_key st =
     (let key = affinity_map_key_of app transport affinity_key;
          i = shard_index_for_key h st key;
          shard = shards st ! i
      in if poisoned shard then st
         else set_shard i (shard\<lparr>entries := hm_remove key (entries shard)\<rparr>) st)"

definition generate_affinity_key ::
    "nat option \<Rightarrow> sticky_session_state \<Rightarrow> string \<times> sticky_session_state" where
  "generate_affinity_key clock st =
     (affinity_key_text clock (key_counter st), st\<lparr>key_counter := key_counter st + 1\<rparr>)"

section \<open>Invariant and views\<close>

text \<open>
  The 64 shards are in place, their maps are maps, and every key lies in the shard its hash
  selects.
\<close>

definition wf_sticky_state :: "key_hash \<Rightarrow> sticky_session_state \<Rightarrow> bool" where
  "wf_sticky_state h st \<longleftrightarrow>
     length (shards st) = STICKY_SHARD_COUNT
     \<and> (\<forall>i<STICKY_SHARD_COUNT. hm_wf (entries (shards st ! i))
          \<and> (\<forall>p\<in>set (entries (shards st ! i)). unat (h (fst p)) mod STICKY_SHARD_COUNT = i))"

text \<open>The entry of a key, if its shard is healthy and holds one.\<close>

definition binding :: "key_hash \<Rightarrow> sticky_session_state \<Rightarrow> affinity_map_key \<Rightarrow> affinity_entry option" where
  "binding h st key =
     (let shard = shards st ! shard_index_for_key h st key
      in if poisoned shard then None else hm_get (entries shard) key)"

text \<open>The number of entries in healthy shards, and of those that have not expired.\<close>

definition entry_count :: "sticky_session_state \<Rightarrow> nat" where
  "entry_count st = sum_list (map length (lock_guards (shards st)))"

definition live_count :: "instant \<Rightarrow> sticky_session_state \<Rightarrow> nat" where
  "live_count now st =
     sum_list (map (\<lambda>g. length (filter (\<lambda>p. now < ae_expires_at (snd p)) g)) (lock_guards (shards st)))"

end
