(* ===== verification/Affinity_Store.thy ===== *)
theory Affinity_Store
  imports Routes
begin

text \<open>
  The contract between the request handlers and the sticky session store, and what the handlers
  get from any store that keeps it. \<open>view s app transport key\<close> is the backend the key is bound
  to, with its expiry.
\<close>

locale affinity_store =
  fixes lookup :: "instant \<Rightarrow> string \<Rightarrow> transport_kind \<Rightarrow> string \<Rightarrow> string set \<Rightarrow> 's \<Rightarrow> string option \<times> 's"
    and bind :: "instant \<Rightarrow> string \<Rightarrow> transport_kind \<Rightarrow> string \<Rightarrow> string \<Rightarrow> 's \<Rightarrow> 's"
    and remove :: "string \<Rightarrow> transport_kind \<Rightarrow> string \<Rightarrow> 's \<Rightarrow> 's"
    and view :: "'s \<Rightarrow> string \<Rightarrow> transport_kind \<Rightarrow> string \<Rightarrow> (string \<times> instant) option"
    and ok :: "'s \<Rightarrow> bool"
    and ttl :: "'s \<Rightarrow> duration"
  assumes lookup_ok: "ok s \<Longrightarrow> ok (snd (lookup now a t k B s))"
    and bind_ok: "ok s \<Longrightarrow> ok (bind now a t k b s)"
    and remove_ok: "ok s \<Longrightarrow> ok (remove a t k s)"
    and lookup_ttl: "ttl (snd (lookup now a t k B s)) = ttl s"
    and lookup_hit: "ok s \<Longrightarrow> lookup now a t k B s = (Some b, s') \<Longrightarrow>
      b \<in> B \<and> (\<exists>x. view s a t k = Some (b, x) \<and> now < x) \<and> view s' a t k = Some (b, now + ttl s)"
    and lookup_miss: "ok s \<Longrightarrow> lookup now a t k B s = (None, s') \<Longrightarrow> view s' a t k = None"
    and bind_view: "ok s \<Longrightarrow> view (bind now a t k b s) a t k = Some v \<Longrightarrow> v = (b, now + ttl s)"
    and remove_view: "ok s \<Longrightarrow> view (remove a t k s) a t k = None"
    and lookup_other: "ok s \<Longrightarrow> (a', t', k') \<noteq> (a, t, k) \<Longrightarrow>
      view (snd (lookup now a t k B s)) a' t' k' = Some v \<Longrightarrow> view s a' t' k' = Some v"
    and bind_other: "ok s \<Longrightarrow> (a', t', k') \<noteq> (a, t, k) \<Longrightarrow>
      view (bind now a t k b s) a' t' k' = Some v \<Longrightarrow> view s a' t' k' = Some v"
    and remove_other: "ok s \<Longrightarrow> (a', t', k') \<noteq> (a, t, k) \<Longrightarrow>
      view (remove a t k s) a' t' k' = Some v \<Longrightarrow> view s a' t' k' = Some v"

text \<open>
  How \<open>upstream_peer\<close> chooses an address for a request with an affinity key: the mapped backend,
  else one the load balancer selects, which it binds. \<open>selected\<close> is the load balancer's answer.
\<close>

definition sticky_choose ::
    "(string set \<Rightarrow> 's \<Rightarrow> string option \<times> 's) \<Rightarrow> (string \<Rightarrow> 's \<Rightarrow> 's)
       \<Rightarrow> string option \<Rightarrow> string set \<Rightarrow> 's \<Rightarrow> string option \<times> 's" where
  "sticky_choose lookup bind selected backends s =
     (case lookup backends s of
        (Some mapped, s') \<Rightarrow> (Some mapped, s')
      | (None, s') \<Rightarrow>
          (case selected of
             None \<Rightarrow> (None, s')
           | Some addr \<Rightarrow> (Some addr, bind addr s')))"

context affinity_store
begin

lemma choose_ok:
  "ok s \<Longrightarrow> ok (snd (sticky_choose (lookup now a t k) (bind now' a t k) sel B s))"
  using lookup_ok [of s now a t k B]
  by (auto simp: sticky_choose_def bind_ok split: prod.splits option.splits)

text \<open>The address is a mapped backend that is still allowed, or the load balancer's choice.\<close>

lemma choose_source:
  assumes "ok s" "sticky_choose (lookup now a t k) (bind now' a t k) sel B s = (Some addr, s')"
  shows "(addr \<in> B \<and> (\<exists>x. view s a t k = Some (addr, x) \<and> now < x)) \<or> sel = Some addr"
  using assms lookup_hit [OF assms(1), of now a t k B]
  by (auto simp: sticky_choose_def split: prod.splits option.splits)

text \<open>Afterwards the key is bound to the chosen address, with a fresh expiry, or not bound at all.\<close>

lemma choose_binds:
  assumes "ok s" "sticky_choose (lookup now a t k) (bind now' a t k) sel B s = (Some addr, s')"
    and "view s' a t k = Some v"
  shows "fst v = addr \<and> (snd v = now + ttl s \<or> snd v = now' + ttl s)"
proof (cases "lookup now a t k B s")
  case (Pair r s1)
  show ?thesis
  proof (cases r)
    case None
    have "ok s1" using lookup_ok [OF assms(1), of now a t k B] Pair by simp
    moreover have "ttl s1 = ttl s" using lookup_ttl [of now a t k B s] Pair by simp
    ultimately show ?thesis
      using assms(2,3) Pair None bind_view [of s1 now' a t k addr v]
      by (auto simp: sticky_choose_def split: option.splits)
  next
    case (Some b)
    with assms Pair lookup_hit [OF assms(1), of now a t k B b s1] show ?thesis
      by (auto simp: sticky_choose_def)
  qed
qed

text \<open>Without a mapping and without a healthy backend there is no address.\<close>

lemma choose_none:
  assumes "ok s" "sticky_choose (lookup now a t k) (bind now' a t k) sel B s = (None, s')"
  shows "sel = None \<and> view s' a t k = None"
  using assms lookup_miss [OF assms(1), of now a t k B]
  by (auto simp: sticky_choose_def split: prod.splits option.splits)

text \<open>A key that has just been removed is not answered from the store.\<close>

lemma choose_after_remove:
  assumes "ok s"
    and "sticky_choose (lookup now a t k) (bind now' a t k) sel B (remove a t k s) = (r, s')"
  shows "r = sel"
proof -
  have ok': "ok (remove a t k s)" using assms(1) by (rule remove_ok)
  have "fst (lookup now a t k B (remove a t k s)) = None"
  proof (cases "lookup now a t k B (remove a t k s)")
    case (Pair q s1)
    with lookup_hit [OF ok', of now a t k B] remove_view [OF assms(1), of a t k] show ?thesis
      by (cases q) auto
  qed
  with assms(2) show ?thesis
    by (auto simp: sticky_choose_def split: prod.splits option.splits)
qed

text \<open>One client's request never changes what another client is bound to, except to forget it.\<close>

lemma choose_other:
  assumes "ok s" "(a', t', k') \<noteq> (a, t, k)"
    and "view (snd (sticky_choose (lookup now a t k) (bind now' a t k) sel B s)) a' t' k' = Some v"
  shows "view s a' t' k' = Some v"
proof (cases "lookup now a t k B s")
  case (Pair r s1)
  have ok1: "ok s1" using lookup_ok [OF assms(1), of now a t k B] Pair by simp
  have "view s1 a' t' k' = Some v"
    using assms(3) Pair bind_other [OF ok1 assms(2)]
    by (auto simp: sticky_choose_def split: option.splits)
  then show ?thesis using lookup_other [OF assms(1,2), of now B] Pair by simp
qed

end

end
