(* ===== verification/Router.thy ===== *)
theory Router
  imports Requests Sticky Affinity_Store
begin

text \<open>
  \<open>Router\<close> and the \<open>ProxyHttp\<close> callbacks of \<open>SharedRouter\<close> in \<open>src/router.rs\<close>, in the order in
  which Pingora calls them for one request. Each handler takes and returns the router (its sticky
  store changes), the downstream session and the request context. What Pingora and the \<open>http\<close>
  crate decide is an argument: whether a response can be written, the backend the load balancer
  selects, a new peer, a built URI, an appended header.
\<close>

section \<open>Errors of Pingora\<close>

datatype error_type = HTTPStatus u16 | InternalError | OtherErrorType string

record proxy_error =
  pe_etype :: error_type
  pe_context :: string
  pe_cause :: "string option"
  pe_retry :: bool

definition explain :: "error_type \<Rightarrow> string \<Rightarrow> proxy_error" where
  "explain etype context =
     \<lparr>pe_etype = etype, pe_context = context, pe_cause = None, pe_retry = False\<rparr>"

definition because :: "error_type \<Rightarrow> string \<Rightarrow> string \<Rightarrow> proxy_error" where
  "because etype context cause =
     \<lparr>pe_etype = etype, pe_context = context, pe_cause = Some cause, pe_retry = False\<rparr>"

section \<open>The router and the context of a request\<close>

record 'lb router =
  ro_config :: "'lb router_config"
  ro_sticky :: "sticky_session_state option"
  ro_limits :: proxy_limits
  ro_timeouts :: proxy_timeouts

definition router_new ::
    "'lb router_config \<Rightarrow> sticky_session_config \<Rightarrow> proxy_limits \<Rightarrow> proxy_timeouts \<Rightarrow> 'lb router" where
  "router_new config sticky_config limits timeouts =
     \<lparr>ro_config = config,
      ro_sticky = (if sc_enabled sticky_config then Some (sticky_state_new sticky_config) else None),
      ro_limits = limits, ro_timeouts = timeouts\<rparr>"

definition router_update :: "'lb router_config \<Rightarrow> 'lb router \<Rightarrow> 'lb router" where
  "router_update config R = R\<lparr>ro_config := config\<rparr>"

record 'lb resolved_pool =
  rp_lb :: "'lb load_balancer"
  rp_secure :: bool
  rp_verify_hostname :: string
  rp_is_http2 :: bool
  rp_transport :: transport_kind
  rp_backends :: "string set"

datatype failure_hint = MissingApplication | MissingWsPool | MissingUpstreamPool | UnhealthyUpstream

record 'lb router_ctx =
  cx_app_name :: "string option"
  cx_path_rewrite_segment :: "string option"
  cx_is_upgrade :: bool
  cx_resolved_pool :: "'lb resolved_pool option"
  cx_selected_transport :: "transport_kind option"
  cx_affinity_key :: "string option"
  cx_should_set_cookie :: bool
  cx_sticky_retry_attempted :: bool
  cx_failure_hint :: "failure_hint option"

definition new_ctx :: "'lb router_ctx" where
  "new_ctx =
     \<lparr>cx_app_name = None, cx_path_rewrite_segment = None, cx_is_upgrade = False,
      cx_resolved_pool = None, cx_selected_transport = None, cx_affinity_key = None,
      cx_should_set_cookie = False, cx_sticky_retry_attempted = False, cx_failure_hint = None\<rparr>"

section \<open>request_filter\<close>

text \<open>The pool of an application a request goes to, and whether it speaks HTTP/2.\<close>

definition choose_pool :: "'lb app_pools \<Rightarrow> bool \<Rightarrow> 'lb pool_config option \<times> bool" where
  "choose_pool pools is_upgrade =
     (if is_upgrade then (ap_ws pools, False)
      else case ap_http2 pools of
             Some p \<Rightarrow> (Some p, True)
           | None \<Rightarrow> (ap_http1 pools, False))"

definition resolve_pool :: "'lb app_pools \<Rightarrow> bool \<Rightarrow> 'lb resolved_pool option" where
  "resolve_pool pools is_upgrade =
     (let (pool, is_http2) = choose_pool pools is_upgrade
      in case pool of
           None \<Rightarrow> None
         | Some p \<Rightarrow>
             Some \<lparr>rp_lb = pc_lb p, rp_secure = pc_secure p, rp_verify_hostname = pc_verify_hostname p,
                   rp_is_http2 = is_http2,
                   rp_transport = (if is_upgrade then Ws else if is_http2 then Http2 else Http1),
                   rp_backends = pc_backends p\<rparr>)"

text \<open>The affinity key of a request: its cookie, else its header, else a new key.\<close>

definition request_affinity_key ::
    "http_lib \<Rightarrow> nat option \<Rightarrow> session \<Rightarrow> sticky_session_state \<Rightarrow> string \<times> sticky_session_state" where
  "request_affinity_key L clock s st =
     (case extract_cookie_value L s (sc_cookie_name (st_config st)) of
        Some key \<Rightarrow> (key, st)
      | None \<Rightarrow> (case extract_header_value L s (sc_header_name (st_config st)) of
                   Some key \<Rightarrow> (key, st)
                 | None \<Rightarrow> generate_affinity_key clock st))"

definition assign_affinity ::
    "http_lib \<Rightarrow> nat option \<Rightarrow> session \<Rightarrow> 'lb router \<Rightarrow> 'lb router_ctx \<Rightarrow> 'lb router \<times> 'lb router_ctx" where
  "assign_affinity L clock s R ctx =
     (case (ro_sticky R, cx_app_name ctx, cx_resolved_pool ctx) of
        (Some st, Some _, Some _) \<Rightarrow>
          let (key, st) = request_affinity_key L clock s st
          in (R\<lparr>ro_sticky := Some st\<rparr>,
              ctx\<lparr>cx_affinity_key := Some key, cx_should_set_cookie := True\<rparr>)
      | _ \<Rightarrow> (R, ctx))"

text \<open>The checks after the pool is resolved, and the result of the filter.\<close>

definition check_pools ::
    "'lb router_config \<Rightarrow> 'lb router_ctx \<Rightarrow> (proxy_error + bool) \<times> 'lb router_ctx" where
  "check_pools config ctx =
     (if cx_is_upgrade ctx
         \<and> (case Option.bind (cx_app_name ctx) (apps config) of
              Some pools \<Rightarrow> ap_ws pools = None
            | None \<Rightarrow> False)
      then (Inl (explain (HTTPStatus SERVICE_UNAVAILABLE) ''no ws pool available for upgrade request''),
            ctx\<lparr>cx_failure_hint := Some MissingWsPool\<rparr>)
      else case cx_resolved_pool ctx of
             None \<Rightarrow> (Inl (explain (HTTPStatus SERVICE_UNAVAILABLE) ''no upstream pool resolved''),
                      ctx\<lparr>cx_failure_hint := Some MissingUpstreamPool\<rparr>)
           | Some resolved \<Rightarrow>
               (Inr False, ctx\<lparr>cx_selected_transport := Some (rp_transport resolved)\<rparr>))"

definition route_ctx ::
    "'lb router_config \<Rightarrow> bool \<Rightarrow> resolved_route \<Rightarrow> 'lb router_ctx \<Rightarrow> 'lb router_ctx" where
  "route_ctx config is_upgrade route ctx =
     (let ctx = ctx\<lparr>cx_app_name := Some (rr_app_name route),
                    cx_path_rewrite_segment := rr_path_rewrite_segment route,
                    cx_is_upgrade := is_upgrade\<rparr>
      in case apps config (rr_app_name route) of
           None \<Rightarrow> ctx
         | Some pools \<Rightarrow> (case resolve_pool pools is_upgrade of
                            None \<Rightarrow> ctx
                          | Some pool \<Rightarrow> ctx\<lparr>cx_resolved_pool := Some pool\<rparr>))"

definition request_filter ::
    "http_lib \<Rightarrow> (u16 \<Rightarrow> proxy_error option) \<Rightarrow> nat option
       \<Rightarrow> 'lb router \<Rightarrow> session \<Rightarrow> downstream \<Rightarrow> 'lb router_ctx
       \<Rightarrow> ((proxy_error + bool) \<times> 'lb router \<times> downstream \<times> 'lb router_ctx) rust" where
  "request_filter L respond clock R s ds ctx =
     (case request_limit_rejection_status L s (ro_limits R) of
        Some status \<Rightarrow>
          let (result, ds) = reject_request respond status ds in Ret (result, R, ds, ctx)
      | None \<Rightarrow>
          let ds = apply_downstream_timeouts (ro_timeouts R) ds
          in rust_bind (extract_host L s) (\<lambda>host.
            case resolve_route (ro_config R) (map_option cow_str host)
                   (extract_first_path_segment (req_path s)) of
              None \<Rightarrow>
                Ret (Inl (explain (HTTPStatus NOT_FOUND) ''no application matched''), R, ds,
                     ctx\<lparr>cx_failure_hint := Some MissingApplication\<rparr>)
            | Some route \<Rightarrow>
                let ctx = route_ctx (ro_config R) (req_is_upgrade s) route ctx;
                    (R', ctx) = assign_affinity L clock s R ctx;
                    (result, ctx) = check_pools (ro_config R) ctx
                in Ret (result, R', ds, ctx)))"

section \<open>upstream_peer\<close>

text \<open>
  \<open>select lb key\<close> is the answer of \<open>LoadBalancer::select(key, 8)\<close> as text, \<open>new_peer\<close> Pingora's
  \<open>HttpPeer::new\<close>; \<open>now\<close> and \<open>now'\<close> are the clock at the lookup and at the bind.
\<close>

definition select_address ::
    "key_hash \<Rightarrow> iter_order \<Rightarrow> instant \<Rightarrow> instant \<Rightarrow> ('lb load_balancer \<Rightarrow> string \<Rightarrow> string option)
       \<Rightarrow> 'lb router \<Rightarrow> 'lb router_ctx \<Rightarrow> 'lb resolved_pool \<Rightarrow> string option \<times> 'lb router" where
  "select_address h it now now' select R ctx resolved =
     (case (ro_sticky R, cx_app_name ctx, cx_affinity_key ctx) of
        (Some st, Some app, Some key) \<Rightarrow>
          let (addr, st) = sticky_choose
                (sticky_lookup h it now app (rp_transport resolved) key)
                (sticky_bind h it now' app (rp_transport resolved) key)
                (select (rp_lb resolved) key) (rp_backends resolved) st
          in (addr, R\<lparr>ro_sticky := Some st\<rparr>)
      | _ \<Rightarrow> (select (rp_lb resolved) '''', R))"

definition upstream_peer ::
    "key_hash \<Rightarrow> iter_order \<Rightarrow> instant \<Rightarrow> instant \<Rightarrow> ('lb load_balancer \<Rightarrow> string \<Rightarrow> string option)
       \<Rightarrow> (string \<Rightarrow> bool \<Rightarrow> string \<Rightarrow> http_peer) \<Rightarrow> 'lb router \<Rightarrow> 'lb router_ctx
       \<Rightarrow> (proxy_error + http_peer) \<times> 'lb router \<times> 'lb router_ctx" where
  "upstream_peer h it now now' select new_peer R ctx =
     (case cx_resolved_pool ctx of
        None \<Rightarrow>
          (Inl (explain (HTTPStatus SERVICE_UNAVAILABLE) ''no upstream pool resolved''), R,
           ctx\<lparr>cx_failure_hint := Some MissingUpstreamPool\<rparr>)
      | Some resolved \<Rightarrow>
          (case select_address h it now now' select R ctx resolved of
             (None, R') \<Rightarrow>
               (Inl (explain (HTTPStatus SERVICE_UNAVAILABLE) ''no healthy upstreams available''), R',
                ctx\<lparr>cx_failure_hint := Some UnhealthyUpstream\<rparr>)
           | (Some addr, R') \<Rightarrow>
               let peer = new_peer addr (rp_secure resolved) (rp_verify_hostname resolved);
                   peer = apply_upstream_timeouts (ro_timeouts R) peer;
                   peer = peer\<lparr>hp_http_version := (if rp_is_http2 resolved then (2, 2) else (1, 1))\<rparr>
               in (Inr peer, R', ctx)))"

section \<open>response_filter and upstream_request_filter\<close>

text \<open>\<open>append_header headers name value\<close> is \<open>ResponseHeader::append_header\<close>, which may refuse a value.\<close>

definition response_filter ::
    "(header_map \<Rightarrow> string \<Rightarrow> string \<Rightarrow> string + header_map) \<Rightarrow> 'lb router \<Rightarrow> header_map
       \<Rightarrow> 'lb router_ctx \<Rightarrow> proxy_error + header_map" where
  "response_filter append_header R headers ctx =
     (case (ro_sticky R, cx_affinity_key ctx) of
        (Some st, Some key) \<Rightarrow>
          if \<not> cx_should_set_cookie ctx then Inr headers
          else (case append_header headers ''set-cookie'' (cookie_header_value (st_config st) key) of
                  Inl e \<Rightarrow> Inl (because InternalError ''failed to append sticky session cookie'' e)
                | Inr headers \<Rightarrow> Inr headers)
      | _ \<Rightarrow> Inr headers)"

text \<open>
  The URI type is the \<open>http\<close> crate's: \<open>path_and_query\<close> reads its path with the query, \<open>build\<close> is
  \<open>Uri::builder().path_and_query(..).build()\<close>.
\<close>

definition upstream_request_filter ::
    "('uri \<Rightarrow> string option) \<Rightarrow> (string \<Rightarrow> string + 'uri) \<Rightarrow> 'uri \<Rightarrow> 'lb router_ctx
       \<Rightarrow> (proxy_error + 'uri) rust" where
  "upstream_request_filter path_and_query build uri ctx =
     (case cx_path_rewrite_segment ctx of
        None \<Rightarrow> Ret (Inr uri)
      | Some seg \<Rightarrow>
          (case path_and_query uri of
             None \<Rightarrow> Ret (Inr uri)
           | Some pq \<Rightarrow>
               rust_bind (strip_first_path_segment pq seg) (\<lambda>new_pq.
                 case new_pq of
                   None \<Rightarrow> Ret (Inr uri)
                 | Some new_pq \<Rightarrow>
                     (case build (cow_str new_pq) of
                        Inl e \<Rightarrow> Ret (Inl (because InternalError ''failed to rewrite upstream uri'' e))
                      | Inr uri \<Rightarrow> Ret (Inr uri)))))"

section \<open>Failures\<close>

record fail_to_proxy_result =
  fp_error_code :: u16
  fp_can_reuse_downstream :: bool

fun hint_status :: "failure_hint option \<Rightarrow> error_type \<Rightarrow> u16" where
  "hint_status (Some MissingApplication) e = 404"
| "hint_status (Some MissingWsPool) e = 503"
| "hint_status (Some MissingUpstreamPool) e = 503"
| "hint_status (Some UnhealthyUpstream) e = 503"
| "hint_status None (HTTPStatus status) = status"
| "hint_status None e = 500"

definition fail_to_proxy ::
    "(u16 \<Rightarrow> proxy_error option) \<Rightarrow> proxy_error \<Rightarrow> downstream \<Rightarrow> 'lb router_ctx
       \<Rightarrow> fail_to_proxy_result \<times> downstream" where
  "fail_to_proxy respond e ds ctx =
     (let code = hint_status (cx_failure_hint ctx) (pe_etype e);
          ds = (if 0 < code \<and> respond code = None
                then ds\<lparr>ds_responses := ds_responses ds @ [code]\<rparr> else ds)
      in (\<lparr>fp_error_code = code, fp_can_reuse_downstream = False\<rparr>, ds))"

definition fail_to_connect ::
    "key_hash \<Rightarrow> 'lb router \<Rightarrow> 'lb router_ctx \<Rightarrow> proxy_error
       \<Rightarrow> proxy_error \<times> 'lb router \<times> 'lb router_ctx" where
  "fail_to_connect h R ctx e =
     (case (ro_sticky R, cx_app_name ctx, cx_selected_transport ctx, cx_affinity_key ctx) of
        (Some st, Some app, Some transport, Some key) \<Rightarrow>
          let R = R\<lparr>ro_sticky := Some (sticky_remove h app transport key st)\<rparr>
          in if cx_sticky_retry_attempted ctx then (e, R, ctx)
             else (e\<lparr>pe_retry := True\<rparr>, R, ctx\<lparr>cx_sticky_retry_attempted := True\<rparr>)
      | _ \<Rightarrow> (e, R, ctx))"

section \<open>Benchmark entry points\<close>

definition bench_sticky_new :: "nat \<Rightarrow> sticky_session_state \<times> string set" where
  "bench_sticky_new max_entries =
     (sticky_state_new
        \<lparr>sc_enabled = True, sc_cookie_name = ''nmt_affinity'', sc_header_name = ''x-nmt-affinity-key'',
         sc_ttl = 600 * 1000000000, sc_max_entries = max_entries, sc_cookie_secure = False\<rparr>,
      {''127.0.0.1:3000''})"

definition bench_bind ::
    "key_hash \<Rightarrow> iter_order \<Rightarrow> instant \<Rightarrow> string \<Rightarrow> sticky_session_state \<Rightarrow> sticky_session_state" where
  "bench_bind h it now key st = sticky_bind h it now ''app'' Http1 key ''127.0.0.1:3000'' st"

definition bench_lookup ::
    "key_hash \<Rightarrow> iter_order \<Rightarrow> instant \<Rightarrow> string \<Rightarrow> sticky_session_state \<times> string set
       \<Rightarrow> string option \<times> sticky_session_state" where
  "bench_lookup h it now key b = sticky_lookup h it now ''app'' Http1 key (snd b) (fst b)"

definition bench_generate_affinity_key ::
    "nat option \<Rightarrow> sticky_session_state \<times> string set \<Rightarrow> string \<times> sticky_session_state" where
  "bench_generate_affinity_key clock b = generate_affinity_key clock (fst b)"

definition resolve_route_for_bench ::
    "'lb router_config \<Rightarrow> string option \<Rightarrow> string option \<Rightarrow> (string \<times> string option) option" where
  "resolve_route_for_bench config host segment =
     map_option (\<lambda>route. (rr_app_name route, rr_path_rewrite_segment route))
       (resolve_route config host segment)"

definition strip_first_path_segment_for_bench :: "string \<Rightarrow> string \<Rightarrow> string option rust" where
  "strip_first_path_segment_for_bench pq seg = map_rust (map_option cow_str) (strip_first_path_segment pq seg)"

end
