(* ===== verification/Server.thy ===== *)
theory Server
  imports Hash_Map
begin

text \<open>
  \<open>src/server.rs\<close>: the registry of background services by name. A service handle is a shutdown
  channel with a task; the registry only ever sends the shutdown and awaits the task, so a handle
  is an identity here, and what happens to it is recorded in a log, in order. A handle that
  \<open>add_service\<close> refuses is dropped: its task keeps running without a way to stop it.
\<close>

datatype 'h service_event = ShutdownSent 'h | TaskAwaited 'h | HandleDropped 'h

datatype add_service_error = AlreadyExists

record 'h server =
  sv_services :: "(string, 'h) hm"
  sv_log :: "'h service_event list"

definition server_new :: "'h server" where
  "server_new = \<lparr>sv_services = hm_empty, sv_log = []\<rparr>"

definition log_events :: "'h service_event list \<Rightarrow> 'h server \<Rightarrow> 'h server" where
  "log_events es sv = sv\<lparr>sv_log := sv_log sv @ es\<rparr>"

text \<open>\<open>old.shutdown.send(true)\<close>, then \<open>old.task.await\<close>.\<close>

definition stop_events :: "'h \<Rightarrow> 'h service_event list" where
  "stop_events handle = [ShutdownSent handle, TaskAwaited handle]"

definition add_service :: "string \<Rightarrow> 'h \<Rightarrow> 'h server \<Rightarrow> (add_service_error + unit) \<times> 'h server" where
  "add_service name service sv =
     (if hm_get (sv_services sv) name \<noteq> None
      then (Inl AlreadyExists, log_events [HandleDropped service] sv)
      else (Inr (), sv\<lparr>sv_services := hm_insert name service (sv_services sv)\<rparr>))"

definition upsert_service :: "string \<Rightarrow> 'h \<Rightarrow> 'h server \<Rightarrow> 'h server" where
  "upsert_service name service sv =
     (let old = hm_get (sv_services sv) name;
          sv = sv\<lparr>sv_services := hm_insert name service (sv_services sv)\<rparr>
      in case old of None \<Rightarrow> sv | Some old \<Rightarrow> log_events (stop_events old) sv)"

definition remove_service :: "string \<Rightarrow> 'h server \<Rightarrow> 'h server" where
  "remove_service name sv =
     (let old = hm_get (sv_services sv) name;
          sv = sv\<lparr>sv_services := hm_remove name (sv_services sv)\<rparr>
      in case old of None \<Rightarrow> sv | Some old \<Rightarrow> log_events (stop_events old) sv)"

text \<open>\<open>mem::take\<close> empties the registry; the handles are stopped one by one in the map's order.\<close>

definition stop_all ::
    "((string, 'h) hm \<Rightarrow> (string \<times> 'h) list) \<Rightarrow> 'h server \<Rightarrow> 'h server" where
  "stop_all it sv =
     log_events (concat (map (\<lambda>(_, handle). stop_events handle) (it (sv_services sv))))
       (sv\<lparr>sv_services := hm_empty\<rparr>)"

text \<open>
  The same operations cut where the code releases the registry's lock: what the locked part
  returns is shut down and awaited one handle after the other, outside the lock.
\<close>

definition end_service :: "'h \<Rightarrow> 'h server \<Rightarrow> 'h server" where
  "end_service handle = log_events (stop_events handle)"

definition insert_handle :: "string \<Rightarrow> 'h \<Rightarrow> 'h server \<Rightarrow> 'h list \<times> 'h server" where
  "insert_handle name service sv =
     (case hm_get (sv_services sv) name of None \<Rightarrow> [] | Some old \<Rightarrow> [old],
      sv\<lparr>sv_services := hm_insert name service (sv_services sv)\<rparr>)"

definition take_handle :: "string \<Rightarrow> 'h server \<Rightarrow> 'h list \<times> 'h server" where
  "take_handle name sv =
     (case hm_get (sv_services sv) name of None \<Rightarrow> [] | Some old \<Rightarrow> [old],
      sv\<lparr>sv_services := hm_remove name (sv_services sv)\<rparr>)"

definition take_all ::
    "((string, 'h) hm \<Rightarrow> (string \<times> 'h) list) \<Rightarrow> 'h server \<Rightarrow> 'h list \<times> 'h server" where
  "take_all it sv = (map snd (it (sv_services sv)), sv\<lparr>sv_services := hm_empty\<rparr>)"

lemma end_services: "fold end_service hs sv = log_events (concat (map stop_events hs)) sv"
  by (induction hs arbitrary: sv) (simp_all add: end_service_def log_events_def)

text \<open>Without anybody in between, the parts make up the whole operations.\<close>

lemma server_cuts:
  "upsert_service n h sv = (case insert_handle n h sv of (olds, sv) \<Rightarrow> fold end_service olds sv)"
  "remove_service n sv = (case take_handle n sv of (olds, sv) \<Rightarrow> fold end_service olds sv)"
  "stop_all it sv = (case take_all it sv of (olds, sv) \<Rightarrow> fold end_service olds sv)"
  by (simp_all add: upsert_service_def remove_service_def stop_all_def insert_handle_def take_handle_def
      take_all_def end_services Let_def case_prod_unfold comp_def log_events_def split: option.split)

section \<open>The contract\<close>

text \<open>
  What the proxy relies on: \<open>view\<close> is the service under each name, \<open>running\<close> the handles
  registered, \<open>ended\<close> those that were shut down and awaited, \<open>lost\<close> those dropped while running.
\<close>

locale service_registry =
  fixes upsert :: "string \<Rightarrow> 'h \<Rightarrow> 's \<Rightarrow> 's"
    and remove :: "string \<Rightarrow> 's \<Rightarrow> 's"
    and stop_all :: "'s \<Rightarrow> 's"
    and view :: "'s \<Rightarrow> string \<Rightarrow> 'h option"
    and running :: "'s \<Rightarrow> 'h multiset"
    and ended :: "'s \<Rightarrow> 'h multiset"
    and lost :: "'s \<Rightarrow> 'h multiset"
    and ok :: "'s \<Rightarrow> bool"
  assumes upsert_ok: "ok s \<Longrightarrow> ok (upsert n h s)"
    and remove_ok: "ok s \<Longrightarrow> ok (remove n s)"
    and stop_all_ok: "ok s \<Longrightarrow> ok (stop_all s)"
    and upsert_view: "view (upsert n h s) = (view s)(n \<mapsto> h)"
    and remove_view: "view (remove n s) = (view s)(n := None)"
    and stop_all_view: "view (stop_all s) = Map.empty"
    and upsert_balance: "ok s \<Longrightarrow>
      running (upsert n h s) + ended (upsert n h s) = add_mset h (running s + ended s)"
    and remove_balance: "ok s \<Longrightarrow> running (remove n s) + ended (remove n s) = running s + ended s"
    and stop_all_balance: "ok s \<Longrightarrow> running (stop_all s) + ended (stop_all s) = running s + ended s"
    and running_empty: "ok s \<Longrightarrow> view s = Map.empty \<Longrightarrow> running s = {#}"
    and upsert_lost: "lost (upsert n h s) = lost s"
    and remove_lost: "lost (remove n s) = lost s"
    and stop_all_lost: "lost (stop_all s) = lost s"
begin

text \<open>Registering services one after the other.\<close>

definition upsert_list :: "(string \<times> 'h) list \<Rightarrow> 's \<Rightarrow> 's" where
  "upsert_list services s = fold (\<lambda>(n, h). upsert n h) services s"

lemma upsert_list_ok: "ok s \<Longrightarrow> ok (upsert_list xs s)"
  by (induction xs arbitrary: s) (auto simp: upsert_list_def upsert_ok)

lemma upsert_list_view: "view (upsert_list xs s) = (view s)(map fst xs [\<mapsto>] map snd xs)"
  by (induction xs arbitrary: s) (auto simp: upsert_list_def upsert_view)

lemma upsert_list_balance:
  "ok s \<Longrightarrow> running (upsert_list xs s) + ended (upsert_list xs s)
     = mset (map snd xs) + (running s + ended s)"
  by (induction xs arbitrary: s) (auto simp: upsert_list_def upsert_ok upsert_balance)

lemma upsert_list_lost: "lost (upsert_list xs s) = lost s"
  by (induction xs arbitrary: s) (auto simp: upsert_list_def upsert_lost)

text \<open>After \<open>stop_all\<close> everything that was ever handed over has ended.\<close>

lemma stop_all_ends:
  assumes "ok s"
  shows "ended (stop_all s) = running s + ended s" and "running (stop_all s) = {#}"
proof -
  show "running (stop_all s) = {#}"
    using running_empty [OF stop_all_ok [OF assms]] by (simp add: stop_all_view)
  with stop_all_balance [OF assms] show "ended (stop_all s) = running s + ended s" by simp
qed

lemma upserts_then_stop_all:
  assumes "ok s"
  shows "ended (stop_all (upsert_list xs s)) = mset (map snd xs) + (running s + ended s)"
    and "view (stop_all (upsert_list xs s)) = Map.empty"
  using stop_all_ends [OF upsert_list_ok [OF assms]] upsert_list_balance [OF assms]
  by (simp_all add: stop_all_view)

end

section \<open>The registry provides it\<close>

definition sv_view :: "'h server \<Rightarrow> string \<Rightarrow> 'h option" where
  "sv_view sv = hm_get (sv_services sv)"

definition sv_running :: "'h server \<Rightarrow> 'h multiset" where
  "sv_running sv = mset (map snd (sv_services sv))"

fun awaited :: "'h service_event \<Rightarrow> 'h option" where
  "awaited (TaskAwaited h) = Some h"
| "awaited e = None"

fun dropped :: "'h service_event \<Rightarrow> 'h option" where
  "dropped (HandleDropped h) = Some h"
| "dropped e = None"

definition sv_ended :: "'h server \<Rightarrow> 'h multiset" where
  "sv_ended sv = mset (List.map_filter awaited (sv_log sv))"

definition sv_lost :: "'h server \<Rightarrow> 'h multiset" where
  "sv_lost sv = mset (List.map_filter dropped (sv_log sv))"

text \<open>The registry is a map, and no task is awaited before its shutdown is sent.\<close>

fun shut_before_await :: "'h service_event list \<Rightarrow> bool" where
  "shut_before_await [] = True"
| "shut_before_await (ShutdownSent h # TaskAwaited h' # es) = (h = h' \<and> shut_before_await es)"
| "shut_before_await (HandleDropped h # es) = shut_before_await es"
| "shut_before_await _ = False"

definition sv_ok :: "'h server \<Rightarrow> bool" where
  "sv_ok sv \<longleftrightarrow> hm_wf (sv_services sv) \<and> shut_before_await (sv_log sv)"

lemma map_filter_append [simp]: "List.map_filter f (xs @ ys) = List.map_filter f xs @ List.map_filter f ys"
  by (simp add: List.map_filter_def)

lemma shut_append: "shut_before_await xs \<Longrightarrow> shut_before_await ys \<Longrightarrow> shut_before_await (xs @ ys)"
  by (induction xs rule: shut_before_await.induct) auto

lemma stop_events_facts [simp]:
  "List.map_filter awaited (stop_events h) = [h]" "List.map_filter dropped (stop_events h) = []"
  "shut_before_await (stop_events h)"
  by (simp_all add: stop_events_def)

lemma concat_stop_events:
  "List.map_filter awaited (concat (map (\<lambda>(_, h). stop_events h) xs)) = map snd xs"
  "List.map_filter dropped (concat (map (\<lambda>(_, h). stop_events h) xs)) = []"
  "shut_before_await (concat (map (\<lambda>(_, h). stop_events h) xs))"
  by (induction xs) (auto intro: shut_append)

lemma log_events_simps [simp]:
  "sv_services (log_events es sv) = sv_services sv" "sv_log (log_events es sv) = sv_log sv @ es"
  by (simp_all add: log_events_def)

lemma handles_insert:
  "hm_wf m \<Longrightarrow> mset (map snd (hm_insert k v m)) + (case hm_get m k of None \<Rightarrow> {#} | Some w \<Rightarrow> {#w#})
     = add_mset v (mset (map snd m))"
proof (induction m)
  case (Cons p m)
  then have "fst p = k \<Longrightarrow> hm_get m k = None"
    by (auto simp: hm_wf_def hm_get_def map_of_eq_None_iff)
  with Cons show ?case
    by (cases p) (auto simp: hm_insert_def hm_get_def hm_wf_def split: option.splits)
qed (simp add: hm_insert_def hm_get_def)

lemma handles_remove:
  "hm_wf m \<Longrightarrow> mset (map snd (hm_remove k m)) + (case hm_get m k of None \<Rightarrow> {#} | Some w \<Rightarrow> {#w#})
     = mset (map snd m)"
proof (induction m)
  case (Cons p m)
  have "fst p = k \<Longrightarrow> hm_get m k = None"
    using Cons.prems by (auto simp: hm_wf_def hm_get_def map_of_eq_None_iff)
  moreover have "fst p = k \<Longrightarrow> hm_remove k m = m"
    using Cons.prems by (auto simp: hm_wf_def hm_remove_def filter_id_conv) (metis fst_conv image_eqI)
  ultimately show ?case
    using Cons by (cases p) (auto simp: hm_remove_def hm_get_def hm_wf_def split: option.splits)
qed (simp add: hm_remove_def hm_get_def)

definition order_ok :: "((string, 'h) hm \<Rightarrow> (string \<times> 'h) list) \<Rightarrow> 'h server \<Rightarrow> bool" where
  "order_ok it sv \<longleftrightarrow> iteration it \<and> sv_ok sv"

interpretation registry: service_registry upsert_service remove_service "stop_all it" sv_view
    sv_running sv_ended sv_lost "order_ok it"
  for it :: "(string, 'h) hm \<Rightarrow> (string \<times> 'h) list"
proof
  fix s :: "'h server" and n h
  show "order_ok it s \<Longrightarrow> order_ok it (upsert_service n h s)"
    "order_ok it s \<Longrightarrow> order_ok it (remove_service n s)"
    by (auto simp: order_ok_def sv_ok_def upsert_service_def remove_service_def Let_def hm.wf_rules shut_append
        split: option.split)
  show "order_ok it s \<Longrightarrow> order_ok it (stop_all it s)"
    by (simp add: order_ok_def sv_ok_def stop_all_def hm.wf_empty shut_append concat_stop_events)
  show "sv_view (upsert_service n h s) = (sv_view s)(n \<mapsto> h)"
    by (simp add: sv_view_def upsert_service_def Let_def hm.get_insert split: option.split)
  show "sv_view (remove_service n s) = (sv_view s)(n := None)"
    by (simp add: sv_view_def remove_service_def Let_def hm.get_remove split: option.split)
  show "sv_view (stop_all it s) = Map.empty"
    by (rule ext) (simp add: sv_view_def stop_all_def hm.get_empty)
  show "order_ok it s \<Longrightarrow> sv_running (upsert_service n h s) + sv_ended (upsert_service n h s)
      = add_mset h (sv_running s + sv_ended s)"
    using handles_insert [of "sv_services s" n h]
    by (auto simp: order_ok_def sv_ok_def sv_running_def sv_ended_def upsert_service_def Let_def split: option.splits)
  show "order_ok it s \<Longrightarrow> sv_running (remove_service n s) + sv_ended (remove_service n s)
      = sv_running s + sv_ended s"
    using handles_remove [of "sv_services s" n]
    by (auto simp: order_ok_def sv_ok_def sv_running_def sv_ended_def remove_service_def Let_def split: option.splits)
  show "order_ok it s \<Longrightarrow> sv_running (stop_all it s) + sv_ended (stop_all it s)
      = sv_running s + sv_ended s"
    by (simp add: order_ok_def iteration_def sv_running_def sv_ended_def stop_all_def hm_empty_def
        concat_stop_events add.commute flip: mset_map)
       (simp add: mset_map)
  show "order_ok it s \<Longrightarrow> sv_view s = Map.empty \<Longrightarrow> sv_running s = {#}"
    by (cases "sv_services s") (auto simp: sv_view_def sv_running_def hm_get_def fun_eq_iff split: if_splits)
  show "sv_lost (upsert_service n h s) = sv_lost s" "sv_lost (remove_service n s) = sv_lost s"
    "sv_lost (stop_all it s) = sv_lost s"
    by (simp_all add: sv_lost_def upsert_service_def remove_service_def stop_all_def Let_def concat_stop_events
        split: option.split)
qed

end
