(* ===== verification/Pools.thy ===== *)
theory Pools
  imports Hash_Map Options Routes
begin

text \<open>
  Upstreams and pools in \<open>src/proxy.rs\<close> and \<open>src/lb.rs\<close>: parsing an upstream, building the load
  balancer pools of an application from its upstreams, and building the router configuration from
  the pools of all applications. Name resolution and Pingora's load balancer are the record
  \<open>net_lib\<close>, a parameter; so are the orders in which the hash maps and sets are visited.
\<close>

section \<open>Deferred errors\<close>

record deferred_error =
  de_code :: string
  de_message :: string

definition deferred_generic :: "string \<Rightarrow> string \<Rightarrow> deferred_error" where
  "deferred_generic code message = \<lparr>de_code = code, de_message = message\<rparr>"

definition deferred_type_error :: "string \<Rightarrow> string \<Rightarrow> deferred_error" where
  "deferred_type_error code message = \<lparr>de_code = code, de_message = message\<rparr>"

text \<open>How \<open>spawn_deferred_result\<close> settles the promise.\<close>

definition settle_deferred :: "deferred_error + unit \<Rightarrow> napi_error + unit" where
  "settle_deferred result =
     (case result of
        Inr _ \<Rightarrow> Inr ()
      | Inl err \<Rightarrow> Inl \<lparr>err_class = JsError, err_code = Some (de_code err),
                       err_status = CodeStatus (de_code err), err_reason = de_message err\<rparr>)"

section \<open>Upstreams\<close>

record port_upstream =
  pu_transport :: transport_kind
  pu_secure :: bool
  pu_hostname :: string
  pu_port :: u16

record port_upstream_options =
  o_type :: string
  o_transport :: string
  o_secure :: bool
  o_hostname :: string
  o_port :: u32

record unix_socket_upstream_options =
  u_type :: string
  u_transport :: string
  u_secure :: bool
  u_path :: string

datatype upstream_options =
  PortUpstream port_upstream_options | UnixSocketUpstream unix_socket_upstream_options

definition parse_transport :: "string \<Rightarrow> napi_error + transport_kind" where
  "parse_transport t =
     (if t = ''http'' then Inr Http1
      else if t = ''http2'' then Inr Http2
      else if t = ''ws'' then Inr Ws
      else throw_type_error INVALID_PROXY_OPTIONS (''Unknown upstream transport '' @ quoted t))"

fun parse_port_upstream :: "upstream_options \<Rightarrow> napi_error + port_upstream" where
  "parse_port_upstream (PortUpstream p) =
     (if o_type p \<noteq> ''port''
      then Inl (generic_error UNSUPPORTED_UPSTREAM_TYPE (''Unsupported upstream type '' @ quoted (o_type p)))
      else and_then (parse_transport (o_transport p)) (\<lambda>transport.
        if o_port p = 0 \<or> 65535 < o_port p
        then throw_type_error INVALID_PROXY_OPTIONS ''PortUpstreamOptions.port must be in range 1..=65535''
        else if o_hostname p = []
        then throw_type_error INVALID_PROXY_OPTIONS ''PortUpstreamOptions.hostname must be non-empty''
        else Inr \<lparr>pu_transport = transport, pu_secure = o_secure p, pu_hostname = o_hostname p,
                  pu_port = ucast (o_port p)\<rparr>))"
| "parse_port_upstream (UnixSocketUpstream u) =
     (if u_type u \<noteq> ''unix'' \<and> u_type u \<noteq> ''unix_socket''
      then Inl (generic_error UNSUPPORTED_UPSTREAM_TYPE (''Unsupported upstream type '' @ quoted (u_type u)))
      else Inl (generic_error UNSUPPORTED_UPSTREAM_TYPE ''unix_socket upstreams are not supported''))"

text \<open>A \<open>HashSet<PortUpstream>\<close>: a hash map to unit.\<close>

type_synonym upstream_set = "(port_upstream, unit) hm"

definition hs_contains :: "('k, unit) hm \<Rightarrow> 'k \<Rightarrow> bool" where
  "hs_contains s x \<longleftrightarrow> hm_get s x \<noteq> None"

definition hs_insert :: "'k \<Rightarrow> ('k, unit) hm \<Rightarrow> ('k, unit) hm" where
  "hs_insert x s = (if hs_contains s x then s else hm_insert x () s)"

section \<open>Load balancers\<close>

text \<open>
  \<open>to_socket_addrs\<close> on a host name and a port, an address as text, and
  \<open>LoadBalancer::try_from_iter\<close>, which the code calls with the addresses of one pool.
\<close>

record ('addr, 'lb) net_lib =
  nl_resolve :: "string \<Rightarrow> u16 \<Rightarrow> string + 'addr list"
  nl_addr_text :: "'addr \<Rightarrow> string"
  nl_try_from_iter :: "'addr list \<Rightarrow> string + 'lb"

definition build_round_robin_lb ::
    "('addr, 'lb) net_lib \<Rightarrow> 'addr list \<Rightarrow> duration option \<Rightarrow> string + 'lb load_balancer" where
  "build_round_robin_lb N addrs frequency =
     and_then (nl_try_from_iter N addrs) (\<lambda>lb.
       Inr \<lparr>lb_inner = lb, lb_health_check = None, lb_health_check_frequency = frequency\<rparr>)"

definition verify_hostname_for_secure_upstream :: "application \<Rightarrow> deferred_error + string" where
  "verify_hostname_for_secure_upstream app =
     (case a_routing app of
        Subdomain name \<Rightarrow> Inr name
      | _ \<Rightarrow> (case a_sni app of
                None \<Rightarrow> Inl (deferred_type_error INVALID_APPLICATION_OPTIONS
                  ''ApplicationOptions.sni is required when using secure upstreams for path/default routing'')
              | Some sni \<Rightarrow> Inr sni))"

section \<open>Pools of an application\<close>

definition push_upstream ::
    "port_upstream \<Rightarrow> (transport_kind, port_upstream list) hm \<Rightarrow> (transport_kind, port_upstream list) hm" where
  "push_upstream u m =
     hm_insert (pu_transport u)
       ((case hm_get m (pu_transport u) of Some l \<Rightarrow> l | None \<Rightarrow> []) @ [u]) m"

definition by_transport :: "port_upstream list \<Rightarrow> (transport_kind, port_upstream list) hm" where
  "by_transport upstreams = fold push_upstream upstreams hm_empty"

definition host_port :: "port_upstream \<Rightarrow> string" where
  "host_port u = pu_hostname u @ '':'' @ to_dec (unat (pu_port u))"

fun resolve_upstreams ::
    "('addr, 'lb) net_lib \<Rightarrow> port_upstream list \<Rightarrow> 'addr list \<Rightarrow> deferred_error + 'addr list" where
  "resolve_upstreams N [] addrs = Inr addrs"
| "resolve_upstreams N (u # us) addrs =
     (case nl_resolve N (pu_hostname u) (pu_port u) of
        Inl e \<Rightarrow> Inl (deferred_type_error INVALID_PROXY_OPTIONS
                       (''Failed to resolve upstream '' @ quoted (host_port u) @ '': '' @ e))
      | Inr found \<Rightarrow> resolve_upstreams N us (addrs @ found))"

text \<open>The body of the loop over the transports, for a list that is not empty.\<close>

definition build_pool ::
    "('addr, 'lb) net_lib \<Rightarrow> application \<Rightarrow> u32 \<Rightarrow> port_upstream list \<Rightarrow> deferred_error + 'lb pool_config" where
  "build_pool N app interval_ms us =
     (let secure = pu_secure (hd us)
      in if \<exists>u\<in>set us. pu_secure u \<noteq> secure
         then Inl (deferred_type_error INVALID_PROXY_OPTIONS
           ''Mixing secure and insecure upstreams within the same (app, transport) pool is not supported'')
         else and_then (if secure then verify_hostname_for_secure_upstream app else Inr [])
         (\<lambda>verify_hostname. and_then (resolve_upstreams N us [])
         (\<lambda>addrs.
           if addrs = []
           then Inl (deferred_type_error INVALID_PROXY_OPTIONS
             (''Failed to resolve upstream '' @ quoted (host_port (hd us)) @ '': no addresses were returned''))
           else let backends = set (map (nl_addr_text N) addrs)
                in case nl_try_from_iter N addrs of
                     Inl e \<Rightarrow> Inl (deferred_type_error INVALID_PROXY_OPTIONS
                                    (''Failed to build load balancer: '' @ e))
                   | Inr lb \<Rightarrow>
                       let lb = \<lparr>lb_inner = lb,
                                 lb_health_check = Some (if secure then TcpHealthCheckTls verify_hostname
                                                         else TcpHealthCheck),
                                 lb_health_check_frequency = Some (from_millis (ucast interval_ms))\<rparr>
                       in Inr \<lparr>pc_lb = lb, pc_secure = secure, pc_verify_hostname = verify_hostname,
                               pc_backends = backends\<rparr>)))"

fun build_pools ::
    "('addr, 'lb) net_lib \<Rightarrow> application \<Rightarrow> u32 \<Rightarrow> (transport_kind \<times> port_upstream list) list
       \<Rightarrow> (transport_kind, 'lb pool_config) hm \<Rightarrow> deferred_error + (transport_kind, 'lb pool_config) hm" where
  "build_pools N app interval_ms [] new_pools = Inr new_pools"
| "build_pools N app interval_ms ((transport, us) # rest) new_pools =
     (if us = [] then build_pools N app interval_ms rest new_pools
      else and_then (build_pool N app interval_ms us) (\<lambda>pool.
        build_pools N app interval_ms rest (hm_insert transport pool new_pools)))"

record pool_orders =
  set_order :: "upstream_set \<Rightarrow> (port_upstream \<times> unit) list"
  transport_order :: "(transport_kind, port_upstream list) hm \<Rightarrow> (transport_kind \<times> port_upstream list) list"

definition rebuild_app_pools ::
    "('addr, 'lb) net_lib \<Rightarrow> pool_orders \<Rightarrow> application \<Rightarrow> upstream_set \<Rightarrow> u32
       \<Rightarrow> deferred_error + (transport_kind, 'lb pool_config) hm \<times> transport_kind list" where
  "rebuild_app_pools N orders app upstreams interval_ms =
     (let groups = by_transport (map fst (set_order orders upstreams))
      in and_then (build_pools N app interval_ms (transport_order orders groups) hm_empty) (\<lambda>new_pools.
        let removed = filter (\<lambda>t. hm_get new_pools t = None) [Http1, Http2, Ws]
        in Inr (new_pools, removed)))"

section \<open>The router configuration\<close>

type_synonym 'lb pool_map = "(string \<times> transport_kind, 'lb pool_config) hm"

definition add_route :: "application \<Rightarrow> 'lb router_config \<Rightarrow> 'lb router_config" where
  "add_route app cfg =
     (case a_routing app of
        Subdomain name \<Rightarrow>
          cfg\<lparr>subdomain_routes := (subdomain_routes cfg)(to_ascii_lowercase name \<mapsto> a_name app)\<rparr>
      | Path name \<Rightarrow> cfg\<lparr>path_routes := (path_routes cfg)(name \<mapsto> a_name app)\<rparr>
      | Default \<Rightarrow> cfg\<lparr>default_app := Some (a_name app)\<rparr>)"

definition add_app_config :: "'lb pool_map \<Rightarrow> application \<Rightarrow> 'lb router_config \<Rightarrow> 'lb router_config" where
  "add_app_config pools app cfg =
     (let cfg = add_route app cfg
      in cfg\<lparr>apps := (apps cfg)(a_name app \<mapsto>
               \<lparr>ap_http1 = hm_get pools (a_name app, Http1), ap_ws = hm_get pools (a_name app, Ws),
                ap_http2 = hm_get pools (a_name app, Http2)\<rparr>)\<rparr>)"

definition build_router_config :: "proxy_options_parsed \<Rightarrow> 'lb pool_map \<Rightarrow> 'lb router_config" where
  "build_router_config options pools =
     fold (add_app_config pools) (po_applications options) router_config_default"

text \<open>The name of the health check service of a pool.\<close>

fun lb_service_name :: "string \<Rightarrow> transport_kind \<Rightarrow> string" where
  "lb_service_name app Http1 = ''lb:'' @ app @ '':http''"
| "lb_service_name app Http2 = ''lb:'' @ app @ '':http2''"
| "lb_service_name app Ws = ''lb:'' @ app @ '':ws''"

end
