(* ===== verification/Proxy.thy ===== *)
theory Proxy
  imports Router Server Pools
begin

text \<open>
  \<open>Proxy\<close> in \<open>src/proxy.rs\<close>: the state behind its mutex, and its operations cut where the code
  releases the lock or awaits. A watch channel is an entry of a list, its latest value and whether
  its sender is gone; a notifier is the index of its channel. The composed operations run their
  sections one after the other, as when nobody else calls meanwhile; the interleaved runs are in
  \<open>Lifecycle\<close>. The mutex is never poisoned here: no locked section panics.
\<close>

section \<open>State\<close>

datatype proxy_state = Stopped | Starting | Running | Stopping

datatype start_status = StartPending | StartReady "string + unit"

datatype stop_status = StopPending | StopReady

record 'v watch_channel =
  ch_value :: 'v
  ch_closed :: bool

record bound_listen_address =
  bl_hostname :: string
  bl_port :: u16

record proxy_address =
  pa_hostname :: string
  pa_port :: u32

definition address_of_bound :: "bound_listen_address \<Rightarrow> proxy_address" where
  "address_of_bound a = \<lparr>pa_hostname = bl_hostname a, pa_port = ucast (bl_port a)\<rparr>"

text \<open>The background tasks the proxy spawns: health checks of a load balancer, the HTTP service.\<close>

datatype 'lb service = LbHealth "'lb load_balancer" | MainHttp bound_listen_address

record 'lb proxy_inner =
  pi_options :: proxy_options_parsed
  pi_state :: proxy_state
  pi_listen_address :: "bound_listen_address option"
  pi_start_notifier :: "nat option"
  pi_stop_notifier :: "nat option"
  pi_server :: "'lb service server"
  pi_router :: "'lb router"
  pi_upstreams_by_app :: "(string, upstream_set) hm"
  pi_pools :: "'lb pool_map"

text \<open>The proxy with all watch channels it has created.\<close>

record 'lb world =
  w_inner :: "'lb proxy_inner"
  w_start_channels :: "start_status watch_channel list"
  w_stop_channels :: "stop_status watch_channel list"

definition on_inner :: "('lb proxy_inner \<Rightarrow> 'lb proxy_inner) \<Rightarrow> 'lb world \<Rightarrow> 'lb world" where
  "on_inner f w = w\<lparr>w_inner := f (w_inner w)\<rparr>"

definition on_server :: "('lb service server \<Rightarrow> 'lb service server) \<Rightarrow> 'lb world \<Rightarrow> 'lb world" where
  "on_server f = on_inner (\<lambda>p. p\<lparr>pi_server := f (pi_server p)\<rparr>)"

section \<open>Construction\<close>

definition sticky_config_of :: "proxy_options_parsed \<Rightarrow> sticky_session_config" where
  "sticky_config_of p =
     \<lparr>sc_enabled = ss_enabled (po_sticky_sessions p),
      sc_cookie_name = ss_cookie_name (po_sticky_sessions p),
      sc_header_name = ss_header_name (po_sticky_sessions p),
      sc_ttl = from_millis (ucast (ss_ttl_ms (po_sticky_sessions p))),
      sc_max_entries = unat (ss_max_entries (po_sticky_sessions p)),
      sc_cookie_secure = (po_tls p \<noteq> None)\<rparr>"

definition initial_upstreams :: "application list \<Rightarrow> (string, upstream_set) hm" where
  "initial_upstreams as = fold (\<lambda>app m. hm_insert (a_name app) hm_empty m) as hm_empty"

definition proxy_new :: "proxy_options \<Rightarrow> napi_error + 'lb world" where
  "proxy_new options =
     and_then (parse_proxy_options options) (\<lambda>parsed.
       let router = router_new router_config_default (sticky_config_of parsed) (po_limits parsed) (po_timeouts parsed);
           initial_config = build_router_config parsed hm_empty;
           inner = \<lparr>pi_options = parsed, pi_state = Stopped, pi_listen_address = None,
                    pi_start_notifier = None, pi_stop_notifier = None, pi_server = server_new,
                    pi_router = router_update initial_config router,
                    pi_upstreams_by_app = initial_upstreams (po_applications parsed),
                    pi_pools = hm_empty\<rparr>
       in Inr \<lparr>w_inner = inner, w_start_channels = [], w_stop_channels = []\<rparr>)"

section \<open>Watch channels\<close>

text \<open>\<open>notifier.send(v)\<close> on a notifier taken out of the state: its sender is dropped after it.\<close>

definition send_and_drop :: "nat option \<Rightarrow> 'v \<Rightarrow> 'v watch_channel list \<Rightarrow> 'v watch_channel list" where
  "send_and_drop notifier v chans =
     (case notifier of None \<Rightarrow> chans | Some c \<Rightarrow> chans[c := \<lparr>ch_value = v, ch_closed = True\<rparr>])"

definition drop_sender :: "nat option \<Rightarrow> 'v watch_channel list \<Rightarrow> 'v watch_channel list" where
  "drop_sender notifier chans =
     (case notifier of None \<Rightarrow> chans | Some c \<Rightarrow> chans[c := (chans ! c)\<lparr>ch_closed := True\<rparr>])"

text \<open>
  The waiting loops, looked at once: \<open>None\<close> when the call goes on waiting for a change. A closed
  channel without a ready value is an error.
\<close>

definition wait_for_start_ready :: "nat \<Rightarrow> 'lb world \<Rightarrow> (napi_error + unit) option" where
  "wait_for_start_ready c w =
     (let ch = w_start_channels w ! c
      in case ch_value ch of
           StartReady (Inr _) \<Rightarrow> Some (Inr ())
         | StartReady (Inl msg) \<Rightarrow> Some (Inl (from_reason msg))
         | StartPending \<Rightarrow>
             if ch_closed ch then Some (Inl (from_reason ''Proxy start channel closed unexpectedly'')) else None)"

definition wait_for_stop_ready :: "nat \<Rightarrow> 'lb world \<Rightarrow> (napi_error + unit) option" where
  "wait_for_stop_ready c w =
     (let ch = w_stop_channels w ! c
      in case ch_value ch of
           StopReady \<Rightarrow> Some (Inr ())
         | StopPending \<Rightarrow>
             if ch_closed ch then Some (Inl (from_reason ''Proxy stop channel closed unexpectedly'')) else None)"

section \<open>Listener setup\<close>

text \<open>The operating system's sockets and Pingora's TLS settings.\<close>

record ('fd, 'tls) os_lib =
  os_bind :: "string \<Rightarrow> string + 'fd"
  os_local_addr :: "'fd \<Rightarrow> string + bound_listen_address"
  os_set_nonblocking :: "'fd \<Rightarrow> string + unit"
  os_tls_intermediate :: "string \<Rightarrow> string \<Rightarrow> string + 'tls"
  os_enable_h2 :: "'tls \<Rightarrow> 'tls"

definition map_err :: "('e \<Rightarrow> 'f) \<Rightarrow> 'e + 'a \<Rightarrow> 'f + 'a" where
  "map_err f r = (case r of Inl e \<Rightarrow> Inl (f e) | Inr x \<Rightarrow> Inr x)"

definition build_start_resources ::
    "('fd, 'tls) os_lib \<Rightarrow> string \<Rightarrow> listener_tls option
       \<Rightarrow> deferred_error + 'fd \<times> 'tls option \<times> bound_listen_address" where
  "build_start_resources S listen tls =
     and_then (map_err (\<lambda>e. deferred_generic LISTEN_BIND_FAILED
                 (''Failed to bind listener on '' @ quoted listen @ '': '' @ e)) (os_bind S listen))
     (\<lambda>std_listener. and_then (map_err (\<lambda>e. deferred_generic LISTEN_BIND_FAILED
                 (''Failed to read bound listener address for '' @ quoted listen @ '': '' @ e))
                 (os_local_addr S std_listener))
     (\<lambda>listen_address. and_then (map_err (\<lambda>e. deferred_generic LISTEN_BIND_FAILED
                 (''Failed to set listener nonblocking: '' @ e)) (os_set_nonblocking S std_listener))
     (\<lambda>_. and_then
        (case tls of
           None \<Rightarrow> Inr None
         | Some t \<Rightarrow>
             and_then (map_err (\<lambda>e. deferred_type_error INVALID_PROXY_OPTIONS
                 (''Failed to configure TLS using cert '' @ quoted (tls_cert_path t) @ '' and key ''
                    @ quoted (tls_key_path t) @ '': '' @ e))
                 (os_tls_intermediate S (tls_cert_path t) (tls_key_path t)))
             (\<lambda>settings. Inr (Some (if tls_enable_h2 t then os_enable_h2 S settings else settings))))
     (\<lambda>tls_settings. Inr (std_listener, tls_settings, listen_address)))))"

section \<open>start\<close>

text \<open>
  The first locked section. \<open>StartJoin c\<close>: another start is under way, wait for its channel.
  \<open>StartProceed job\<close>: set up and start. The load balancers are visited in the order \<open>po\<close>.
\<close>

record 'lb start_job =
  sj_listen :: string
  sj_tls :: "listener_tls option"
  sj_lb_tasks :: "(string \<times> 'lb load_balancer) list"
  sj_channel :: nat

datatype 'lb start_entry = StartFail napi_error | StartJoin nat | StartProceed "'lb start_job"

type_synonym 'lb pool_iter = "'lb pool_map \<Rightarrow> ((string \<times> transport_kind) \<times> 'lb pool_config) list"

definition lb_tasks :: "'lb pool_iter \<Rightarrow> 'lb pool_map \<Rightarrow> (string \<times> 'lb load_balancer) list" where
  "lb_tasks po pools = map (\<lambda>((app, transport), pool). (lb_service_name app transport, pc_lb pool)) (po pools)"

definition start_enter :: "'lb pool_iter \<Rightarrow> 'lb world \<Rightarrow> 'lb start_entry \<times> 'lb world" where
  "start_enter po w =
     (let p = w_inner w
      in case pi_state p of
           Starting \<Rightarrow>
             (case pi_start_notifier p of
                None \<Rightarrow> (StartFail (from_reason ''Proxy internal error: missing start notifier''), w)
              | Some c \<Rightarrow> (StartJoin c, w))
         | Running \<Rightarrow> (StartFail (generic_error ALREADY_STARTED ''Proxy is already started''), w)
         | Stopping \<Rightarrow> (StartFail (generic_error ALREADY_STARTED ''Proxy is stopping''), w)
         | Stopped \<Rightarrow>
             let c = length (w_start_channels w);
                 channels = drop_sender (pi_start_notifier p) (w_start_channels w)
                              @ [\<lparr>ch_value = StartPending, ch_closed = False\<rparr>];
                 p = p\<lparr>pi_state := Starting, pi_listen_address := None, pi_start_notifier := Some c\<rparr>
             in (StartProceed \<lparr>sj_listen = po_listen (pi_options p), sj_tls = po_tls (pi_options p),
                               sj_lb_tasks = lb_tasks po (pi_pools p), sj_channel = c\<rparr>,
                 w\<lparr>w_inner := p, w_start_channels := channels\<rparr>))"

text \<open>The locked section after a failed setup.\<close>

definition start_setup_failed :: "deferred_error \<Rightarrow> 'lb world \<Rightarrow> 'lb world" where
  "start_setup_failed err w =
     (let p = w_inner w
      in w\<lparr>w_inner := p\<lparr>pi_state := Stopped, pi_listen_address := None, pi_start_notifier := None\<rparr>,
           w_start_channels :=
             send_and_drop (pi_start_notifier p) (StartReady (Inl (de_message err))) (w_start_channels w)\<rparr>)"

text \<open>Registering the background services, between the locked sections.\<close>

definition start_lb_task :: "string \<times> 'lb load_balancer \<Rightarrow> 'lb world \<Rightarrow> 'lb world" where
  "start_lb_task task = on_server (upsert_service (fst task) (LbHealth (snd task)))"

definition start_main_http :: "bound_listen_address \<Rightarrow> 'lb world \<Rightarrow> 'lb world" where
  "start_main_http listen_address = on_server (upsert_service ''main_http'' (MainHttp listen_address))"

text \<open>The locked section that completes the start, or finds it cancelled.\<close>

definition start_finish :: "bound_listen_address \<Rightarrow> 'lb world \<Rightarrow> (string + unit) \<times> 'lb world" where
  "start_finish listen_address w =
     (let p = w_inner w;
          (result, p) =
            (if pi_state p = Starting \<or> pi_state p = Running
             then (Inr (), p\<lparr>pi_state := Running, pi_listen_address := Some listen_address\<rparr>)
             else (Inl ''Proxy start was cancelled while stopping'', p))
      in (result,
          w\<lparr>w_inner := p\<lparr>pi_start_notifier := None\<rparr>,
            w_start_channels := send_and_drop (pi_start_notifier p) (StartReady result) (w_start_channels w)\<rparr>))"

text \<open>The locked section of a cancelled start, after it has stopped all services.\<close>

definition start_cancelled :: "'lb world \<Rightarrow> 'lb world" where
  "start_cancelled = on_inner (\<lambda>p. p\<lparr>pi_state := Stopped, pi_listen_address := None\<rparr>)"

section \<open>stop and address\<close>

datatype stop_entry = StopFail napi_error | StopDone | StopJoin nat | StopProceed "nat option"

definition stop_enter :: "'lb world \<Rightarrow> stop_entry \<times> 'lb world" where
  "stop_enter w =
     (let p = w_inner w
      in case pi_state p of
           Stopped \<Rightarrow> (StopDone, w\<lparr>w_inner := p\<lparr>pi_listen_address := None\<rparr>\<rparr>)
         | Stopping \<Rightarrow>
             (case pi_stop_notifier p of
                None \<Rightarrow> (StopFail (from_reason ''Proxy internal error: missing stop notifier''), w)
              | Some c \<Rightarrow> (StopJoin c, w))
         | _ \<Rightarrow>
             let p = p\<lparr>pi_state := Stopping\<rparr>
             in case pi_stop_notifier p of
                  Some _ \<Rightarrow> (StopProceed (pi_start_notifier p), w\<lparr>w_inner := p\<rparr>)
                | None \<Rightarrow>
                    (StopProceed (pi_start_notifier p),
                     w\<lparr>w_inner := p\<lparr>pi_stop_notifier := Some (length (w_stop_channels w))\<rparr>,
                       w_stop_channels := w_stop_channels w @ [\<lparr>ch_value = StopPending, ch_closed = False\<rparr>]\<rparr>))"

definition stop_finish :: "'lb world \<Rightarrow> 'lb world" where
  "stop_finish w =
     (let p = w_inner w
      in w\<lparr>w_inner := p\<lparr>pi_state := Stopped, pi_listen_address := None, pi_start_notifier := None,
                         pi_stop_notifier := None\<rparr>,
           w_start_channels := drop_sender (pi_start_notifier p) (w_start_channels w),
           w_stop_channels := send_and_drop (pi_stop_notifier p) StopReady (w_stop_channels w)\<rparr>)"

definition address :: "'lb world \<Rightarrow> proxy_address option" where
  "address w =
     (let p = w_inner w
      in if pi_state p \<noteq> Running then None else map_option address_of_bound (pi_listen_address p))"

section \<open>Changing the upstreams of an application\<close>

text \<open>
  The first locked section of \<open>add_upstream\<close> and of \<open>remove_upstream\<close>: the application, the health
  check interval and its current upstreams, or the error the promise is rejected with.
\<close>

definition unknown_application :: "string \<Rightarrow> deferred_error" where
  "unknown_application app_name =
     deferred_generic UNKNOWN_APPLICATION (''Unknown application '' @ quoted app_name)"

definition find_upstreams ::
    "string \<Rightarrow> 'lb proxy_inner \<Rightarrow> deferred_error + application \<times> upstream_set" where
  "find_upstreams app_name p =
     (case find (\<lambda>a. a_name a = app_name) (po_applications (pi_options p)) of
        None \<Rightarrow> Inl (unknown_application app_name)
      | Some app_def \<Rightarrow>
          (case hm_get (pi_upstreams_by_app p) app_name of
             None \<Rightarrow> Inl (unknown_application app_name)
           | Some current_upstreams \<Rightarrow> Inr (app_def, current_upstreams)))"

definition add_upstream_check ::
    "string \<Rightarrow> port_upstream \<Rightarrow> 'lb proxy_inner \<Rightarrow> deferred_error + application \<times> u32 \<times> upstream_set" where
  "add_upstream_check app_name upstream p =
     and_then (find_upstreams app_name p) (\<lambda>(app_def, current_upstreams).
       if hs_contains current_upstreams upstream
       then Inl (deferred_generic UPSTREAM_ALREADY_EXISTS ''Upstream already exists'')
       else Inr (app_def, po_health_check_interval_ms (pi_options p), current_upstreams))"

definition remove_upstream_check ::
    "string \<Rightarrow> port_upstream \<Rightarrow> 'lb proxy_inner \<Rightarrow> deferred_error + application \<times> u32 \<times> upstream_set" where
  "remove_upstream_check app_name upstream p =
     and_then (find_upstreams app_name p) (\<lambda>(app_def, current_upstreams).
       if \<not> hs_contains current_upstreams upstream
       then Inl (deferred_generic UPSTREAM_NOT_FOUND ''Upstream not found'')
       else Inr (app_def, po_health_check_interval_ms (pi_options p), current_upstreams))"

text \<open>Between the locks: the next set of upstreams, and the pools rebuilt for it.\<close>

record ('addr, 'lb) update_env =
  ue_net :: "('addr, 'lb) net_lib"
  ue_orders :: pool_orders
  ue_pool_order :: "(transport_kind, 'lb pool_config) hm \<Rightarrow> (transport_kind \<times> 'lb pool_config) list"

type_synonym 'lb pool_change =
  "upstream_set \<times> (transport_kind \<times> 'lb pool_config) list \<times> transport_kind list"

definition rebuild_change ::
    "('addr, 'lb) update_env \<Rightarrow> application \<Rightarrow> upstream_set \<Rightarrow> u32 \<Rightarrow> deferred_error + 'lb pool_change" where
  "rebuild_change E app_def next_upstreams interval_ms =
     and_then (rebuild_app_pools (ue_net E) (ue_orders E) app_def next_upstreams interval_ms)
       (\<lambda>(new_pools, removed_transports).
          Inr (next_upstreams, ue_pool_order E new_pools, removed_transports))"

definition add_upstream_plan ::
    "('addr, 'lb) update_env \<Rightarrow> port_upstream \<Rightarrow> application \<times> u32 \<times> upstream_set
       \<Rightarrow> deferred_error + 'lb pool_change" where
  "add_upstream_plan E upstream snapshot =
     (case snapshot of (app_def, interval_ms, current) \<Rightarrow>
        let next_upstreams = hs_insert upstream current
        in case (if pu_secure upstream then verify_hostname_for_secure_upstream app_def else Inr []) of
             Inl err \<Rightarrow> Inl err
           | Inr _ \<Rightarrow> rebuild_change E app_def next_upstreams interval_ms)"

definition remove_upstream_plan ::
    "('addr, 'lb) update_env \<Rightarrow> port_upstream \<Rightarrow> application \<times> u32 \<times> upstream_set
       \<Rightarrow> deferred_error + 'lb pool_change" where
  "remove_upstream_plan E upstream snapshot =
     (case snapshot of (app_def, interval_ms, current) \<Rightarrow>
        rebuild_change E app_def (hm_remove upstream current) interval_ms)"

text \<open>
  The second locked section: the new pools replace the old ones, pools of transports without
  upstreams go, the router gets its new configuration. The result says whether the proxy is
  running, which health checks to start and which to stop.
\<close>

definition insert_pool ::
    "string \<Rightarrow> transport_kind \<times> 'lb pool_config
       \<Rightarrow> (string \<times> 'lb load_balancer) list \<times> 'lb pool_map \<Rightarrow> (string \<times> 'lb load_balancer) list \<times> 'lb pool_map" where
  "insert_pool app_name tp acc =
     (case (tp, acc) of ((transport, pool), (to_upsert, pools)) \<Rightarrow>
        (to_upsert @ [(lb_service_name app_name transport, pc_lb pool)],
         hm_insert (app_name, transport) pool pools))"

definition remove_pool ::
    "string \<Rightarrow> transport_kind \<Rightarrow> string list \<times> 'lb pool_map \<Rightarrow> string list \<times> 'lb pool_map" where
  "remove_pool app_name transport acc =
     (case acc of (to_remove, pools) \<Rightarrow>
        (if hm_get pools (app_name, transport) \<noteq> None
         then to_remove @ [lb_service_name app_name transport] else to_remove,
         hm_remove (app_name, transport) pools))"

record 'lb service_change =
  sc_running :: bool
  sc_upsert :: "(string \<times> 'lb load_balancer) list"
  sc_remove :: "string list"

definition commit_upstreams ::
    "string \<Rightarrow> 'lb pool_change \<Rightarrow> 'lb proxy_inner \<Rightarrow> (deferred_error + 'lb service_change) \<times> 'lb proxy_inner" where
  "commit_upstreams app_name change p =
     (case change of (next_upstreams, new_pools, removed_transports) \<Rightarrow>
        if hm_get (pi_upstreams_by_app p) app_name = None
        then (Inl (unknown_application app_name), p)
        else
          let (to_upsert, pools) = fold (insert_pool app_name) new_pools ([], pi_pools p);
              (to_remove, pools) = fold (remove_pool app_name) removed_transports ([], pools);
              cfg = build_router_config (pi_options p) pools
          in (Inr \<lparr>sc_running = (pi_state p = Running), sc_upsert = to_upsert, sc_remove = to_remove\<rparr>,
              p\<lparr>pi_upstreams_by_app := hm_insert app_name next_upstreams (pi_upstreams_by_app p),
                pi_pools := pools, pi_router := router_update cfg (pi_router p)\<rparr>))"

text \<open>After the lock: the health checks, when the proxy was running.\<close>

definition apply_services :: "'lb service_change \<Rightarrow> 'lb service server \<Rightarrow> 'lb service server" where
  "apply_services change sv =
     (if sc_running change
      then fold remove_service (sc_remove change)
             (fold (\<lambda>(name, lb). upsert_service name (LbHealth lb)) (sc_upsert change) sv)
      else sv)"

section \<open>The composed operations\<close>

text \<open>What is left of an update once its change is planned.\<close>

definition finish_update ::
    "string \<Rightarrow> deferred_error + 'lb pool_change \<Rightarrow> 'lb world \<Rightarrow> (napi_error + unit) \<times> 'lb world" where
  "finish_update app_name planned w =
     (case planned of
        Inl err \<Rightarrow> (settle_deferred (Inl err), w)
      | Inr change \<Rightarrow>
          (case commit_upstreams app_name change (w_inner w) of
             (Inl err, p) \<Rightarrow> (settle_deferred (Inl err), w\<lparr>w_inner := p\<rparr>)
           | (Inr services, p) \<Rightarrow>
               (settle_deferred (Inr ()), on_server (apply_services services) (w\<lparr>w_inner := p\<rparr>))))"

definition add_upstream ::
    "('addr, 'lb) update_env \<Rightarrow> string \<Rightarrow> upstream_options \<Rightarrow> 'lb world \<Rightarrow> (napi_error + unit) \<times> 'lb world" where
  "add_upstream E app_name upstream w =
     (case parse_port_upstream upstream of
        Inl e \<Rightarrow> (Inl e, w)
      | Inr u \<Rightarrow>
          finish_update app_name
            (and_then (add_upstream_check app_name u (w_inner w)) (add_upstream_plan E u)) w)"

definition remove_upstream ::
    "('addr, 'lb) update_env \<Rightarrow> string \<Rightarrow> upstream_options \<Rightarrow> 'lb world \<Rightarrow> (napi_error + unit) \<times> 'lb world" where
  "remove_upstream E app_name upstream w =
     (case parse_port_upstream upstream of
        Inl e \<Rightarrow> (Inl e, w)
      | Inr u \<Rightarrow>
          finish_update app_name
            (and_then (remove_upstream_check app_name u (w_inner w)) (remove_upstream_plan E u)) w)"

type_synonym 'lb service_iter = "(string, 'lb service) hm \<Rightarrow> (string \<times> 'lb service) list"

text \<open>\<open>None\<close> is a promise that stays pending.\<close>

definition start ::
    "('fd, 'tls) os_lib \<Rightarrow> 'lb pool_iter \<Rightarrow> 'lb service_iter \<Rightarrow> 'lb world
       \<Rightarrow> (napi_error + unit) option \<times> 'lb world" where
  "start S po it w =
     (case start_enter po w of
        (StartFail e, w) \<Rightarrow> (Some (Inl e), w)
      | (StartJoin c, w) \<Rightarrow> (wait_for_start_ready c w, w)
      | (StartProceed job, w) \<Rightarrow>
          (case build_start_resources S (sj_listen job) (sj_tls job) of
             Inl err \<Rightarrow> (Some (settle_deferred (Inl err)), start_setup_failed err w)
           | Inr (_, _, listen_address) \<Rightarrow>
               let w = start_main_http listen_address (fold start_lb_task (sj_lb_tasks job) w)
               in case start_finish listen_address w of
                    (Inl msg, w) \<Rightarrow>
                      (Some (Inl (from_reason msg)), start_cancelled (on_server (stop_all it) w))
                  | (Inr _, w) \<Rightarrow> (wait_for_start_ready (sj_channel job) w, w)))"

definition stop :: "'lb service_iter \<Rightarrow> 'lb world \<Rightarrow> (napi_error + unit) option \<times> 'lb world" where
  "stop it w =
     (case stop_enter w of
        (StopFail e, w) \<Rightarrow> (Some (Inl e), w)
      | (StopDone, w) \<Rightarrow> (Some (Inr ()), w)
      | (StopJoin c, w) \<Rightarrow> (wait_for_stop_ready c w, w)
      | (StopProceed rx, w) \<Rightarrow>
          if (case rx of None \<Rightarrow> False | Some c \<Rightarrow> wait_for_start_ready c w = None)
          then (None, w)
          else (Some (Inr ()), stop_finish (on_server (stop_all it) w)))"

end
