(* ===== verification/Options_Props.thy ===== *)
theory Options_Props
  imports Options
begin

text \<open>
  What \<open>parse_proxy_options\<close> guarantees: the limits it enables are exactly the ones the caller
  left on, at their values or defaults; validation accepts exactly the application lists whose
  routes cannot collide; every rejection is a \<open>TypeError\<close> with one of the two stable codes; and
  an accepted options object is well formed.
\<close>

section \<open>Numeric fields\<close>

text \<open>What a limit field asks for: its default when absent, nothing when \<open>null\<close>.\<close>

definition field_limit :: "u32 nullable option \<Rightarrow> u32 \<Rightarrow> u32 option" where
  "field_limit value dflt =
     (case value of None \<Rightarrow> Some dflt | Some Null \<Rightarrow> None | Some (Given v) \<Rightarrow> Some v)"

lemma parse_nullable_positive_u32_eq:
  "parse_nullable_positive_u32 field value dflt =
     (if field_limit value dflt = Some 0
      then Inl (type_error INVALID_PROXY_OPTIONS (field @ '' must be greater than 0''))
      else Inr (field_limit value dflt))"
  by (auto simp: parse_nullable_positive_u32_def field_limit_def Let_def throw_type_error_def
      split: option.splits nullable.splits)

lemma parse_nullable_positive_usize_eq:
  "parse_nullable_positive_usize field value dflt =
     (if field_limit value (ucast dflt) = Some 0
      then Inl (type_error INVALID_PROXY_OPTIONS (field @ '' must be greater than 0''))
      else Inr (map_option ucast (field_limit value (ucast dflt))))"
  by (simp add: parse_nullable_positive_usize_def parse_nullable_positive_u32_eq)

lemma parse_nullable_positive_u64_eq:
  "parse_nullable_positive_u64 field value dflt =
     (if field_limit value (ucast dflt) = Some 0
      then Inl (type_error INVALID_PROXY_OPTIONS (field @ '' must be greater than 0''))
      else Inr (map_option ucast (field_limit value (ucast dflt))))"
  by (simp add: parse_nullable_positive_u64_def parse_nullable_positive_u32_eq)

lemma parse_positive_u32_Inr:
  "parse_positive_u32 field value dflt = Inr v \<longleftrightarrow>
     v \<noteq> 0 \<and> v = (case value of Some v \<Rightarrow> v | None \<Rightarrow> dflt)"
  by (auto simp: parse_positive_u32_def Let_def)

lemma parse_positive_u32_Inl:
  "parse_positive_u32 field value dflt = Inl e \<Longrightarrow>
     e = type_error INVALID_PROXY_OPTIONS (field @ '' must be greater than 0'')"
  by (auto simp: parse_positive_u32_def Let_def split: if_splits)

section \<open>Limits\<close>

text \<open>The fields in the order the code checks them, with their defaults.\<close>

definition limit_fields ::
    "proxy_limits_options \<Rightarrow> (string \<times> (u32 \<Rightarrow> proxy_limit_check) \<times> u32 option) list" where
  "limit_fields l =
     [(''limits.maxUriSize'', UriBytes \<circ> ucast, field_limit (o_max_uri_size l) 8192),
      (''limits.maxRequestHeaders'', RequestHeaders \<circ> ucast, field_limit (o_max_request_headers l) 100),
      (''limits.maxSingleHeaderSize'', SingleHeaderBytes \<circ> ucast,
         field_limit (o_max_single_header_size l) 8192),
      (''limits.maxRequestHeaderSize'', RequestHeaderBytes \<circ> ucast,
         field_limit (o_max_request_header_size l) 65536),
      (''limits.maxRequestBodySize'', RequestBodyBytes \<circ> ucast,
         field_limit (o_max_request_body_size l) 16777216)]"

definition limits_spec :: "proxy_limits_options \<Rightarrow> napi_error + proxy_limits" where
  "limits_spec l =
     (case find (\<lambda>(_, _, v). v = Some 0) (limit_fields l) of
        Some (field, _, _) \<Rightarrow>
          Inl (type_error INVALID_PROXY_OPTIONS (field @ '' must be greater than 0''))
      | None \<Rightarrow>
          let checks = List.map_filter (\<lambda>(_, mk, v). map_option mk v) (limit_fields l)
          in Inr (if checks = [] then Disabled else Enabled checks))"

lemma ucast_limit_defaults [simp]:
  "ucast MAX_URI_BYTES = (8192 :: u32)" "ucast MAX_REQUEST_HEADERS = (100 :: u32)"
  "ucast MAX_SINGLE_HEADER_BYTES = (8192 :: u32)" "ucast MAX_REQUEST_HEADER_BYTES = (65536 :: u32)"
  "ucast MAX_REQUEST_BODY_BYTES = (16777216 :: u32)"
  by (simp_all add: limit_default_defs)

lemma push_check_append:
  "push_check mk v cs = cs @ (case v of None \<Rightarrow> [] | Some l \<Rightarrow> [mk l])"
  by (simp add: push_check_def split: option.splits)

lemma parse_limits_given: "parse_limits_options (Some (Given l)) = limits_spec l"
  by (cases "field_limit (o_max_uri_size l) 8192";
      cases "field_limit (o_max_request_headers l) 100";
      cases "field_limit (o_max_single_header_size l) 8192";
      cases "field_limit (o_max_request_header_size l) 65536";
      cases "field_limit (o_max_request_body_size l) 16777216")
     (simp_all add: parse_limits_options_def limits_spec_def limit_fields_def push_check_append
        parse_nullable_positive_usize_eq parse_nullable_positive_u64_eq List.map_filter_simps Let_def)

text \<open>The number a check compares against, and its place in the fixed order.\<close>

fun limit_value :: "proxy_limit_check \<Rightarrow> nat" where
  "limit_value (UriBytes l) = unat l"
| "limit_value (RequestHeaders l) = unat l"
| "limit_value (SingleHeaderBytes l) = unat l"
| "limit_value (RequestHeaderBytes l) = unat l"
| "limit_value (RequestBodyBytes l) = unat l"

definition wf_limits :: "proxy_limits \<Rightarrow> bool" where
  "wf_limits lim \<longleftrightarrow>
     (case lim of Disabled \<Rightarrow> True
      | Enabled checks \<Rightarrow> checks \<noteq> [] \<and> (\<forall>c\<in>set checks. 0 < limit_value c \<and> limit_value c < 2 ^ 32))"

lemma unat_ucast_u32 [simp]: "unat (ucast (v :: u32) :: u64) = unat v"
  by (simp add: unsigned_ucast_eq take_bit_nat_eq_self_iff order_less_trans [OF unsigned_less])

lemma unat_u32_less: "unat (v :: u32) < 2 ^ 32"
  using unsigned_less [of v] by simp

lemma unat_u32_pos: "(v :: u32) \<noteq> 0 \<Longrightarrow> 0 < unat v"
  by (simp add: unat_gt_0)

lemma wf_default_limits: "wf_limits default_limit_checks"
  by (simp add: wf_limits_def default_limit_checks_def limit_default_defs)

lemma limit_fields_value:
  "(field, mk, v) \<in> set (limit_fields l) \<Longrightarrow> limit_value (mk w) = unat w"
  by (auto simp: limit_fields_def)

lemma limits_spec_wf:
  assumes "limits_spec l = Inr lim"
  shows "wf_limits lim"
proof -
  let ?cs = "List.map_filter (\<lambda>(_, mk, v). map_option mk v) (limit_fields l)"
  from assms have nz: "find (\<lambda>(_, _, v). v = Some 0) (limit_fields l) = None"
    and lim: "lim = (if ?cs = [] then Disabled else Enabled ?cs)"
    by (auto simp: limits_spec_def Let_def split: option.splits)
  have "0 < limit_value c \<and> limit_value c < 2 ^ 32" if "c \<in> set ?cs" for c
  proof -
    from that obtain field mk v where f: "(field, mk, Some v) \<in> set (limit_fields l)" "c = mk v"
      by (auto simp: List.map_filter_def)
    with nz have "v \<noteq> 0" by (force simp: find_None_iff)
    with f limit_fields_value [OF f(1), of v] unat_u32_less [of v] show ?thesis
      by (simp add: unat_gt_0)
  qed
  with lim show ?thesis by (auto simp: wf_limits_def)
qed

lemma parse_limits_options_cases:
  "parse_limits_options limits =
     (case limits of None \<Rightarrow> Inr default_limit_checks | Some Null \<Rightarrow> Inr Disabled
      | Some (Given l) \<Rightarrow> limits_spec l)"
  by (auto simp: parse_limits_options_def [of None] parse_limits_options_def [of "Some Null"]
        parse_limits_given split: option.splits nullable.splits)

lemma wf_limits_Disabled [simp]: "wf_limits Disabled"
  by (simp add: wf_limits_def)

lemma parse_limits_wf: "parse_limits_options limits = Inr lim \<Longrightarrow> wf_limits lim"
  by (auto simp: parse_limits_options_cases wf_default_limits dest: limits_spec_wf
      split: option.splits nullable.splits)

section \<open>Timeouts and sticky sessions\<close>

definition wf_timeouts :: "proxy_timeouts \<Rightarrow> bool" where
  "wf_timeouts t \<longleftrightarrow>
     downstream_header_timeout_ms t \<noteq> 0 \<and> downstream_body_idle_timeout_ms t \<noteq> 0
     \<and> upstream_connect_timeout_ms t \<noteq> 0 \<and> upstream_read_timeout_ms t \<noteq> 0
     \<and> upstream_write_timeout_ms t \<noteq> 0 \<and> downstream_keep_alive_timeout_seconds t \<noteq> 0"

lemma parse_timeout_wf: "parse_timeout_options o' = Inr t \<Longrightarrow> wf_timeouts t"
  by (cases o')
     (auto simp: parse_timeout_options_def wf_timeouts_def timeout_default_defs
        result_inv parse_positive_u32_Inr)

definition wf_sticky :: "sticky_sessions_parsed \<Rightarrow> bool" where
  "wf_sticky s \<longleftrightarrow>
     trim (ss_cookie_name s) \<noteq> [] \<and> trim (ss_header_name s) \<noteq> [] \<and> ss_ttl_ms s \<noteq> 0
     \<and> ss_max_entries s \<noteq> 0"

lemma trim_word:
  "s \<noteq> [] \<Longrightarrow> graphic (hd s) \<Longrightarrow> graphic (last s) \<Longrightarrow> trim s \<noteq> []"
  by (simp add: trim_graphic)

lemma trim_default_names:
  "trim ''nmt_affinity'' \<noteq> []" "trim ''x-nmt-affinity-key'' \<noteq> []"
  by (rule trim_word; simp add: graphic_def is_space_def byte_def)+

lemma ucast_eq_0 [simp]: "(ucast (m :: u32) :: u64) = 0 \<longleftrightarrow> m = 0"
  by (metis unat_ucast_u32 unat_eq_zero)

lemma parse_sticky_wf: "parse_sticky_session_options o' = Inr s \<Longrightarrow> wf_sticky s"
  by (auto simp: parse_sticky_session_options_def wf_sticky_def Let_def trim_default_names
      split: option.splits if_splits)

section \<open>Hostnames\<close>

lemma hostname_labels: "is_hostname_like v \<Longrightarrow> l \<in> set (split_on CHR ''.'' v) \<Longrightarrow> is_label l"
  by (simp add: is_hostname_like_def list_all_iff split: if_splits)

lemma set_split_on: "set s \<subseteq> insert c (\<Union>p\<in>set (split_on c s). set p)"
proof (induction s)
  case (Cons x s)
  show ?case
  proof (cases "x = c")
    case True
    with Cons.IH show ?thesis by auto
  next
    case False
    obtain p ps where "split_on c s = p # ps" by (cases "split_on c s") auto
    with False Cons.IH show ?thesis by auto
  qed
qed simp

lemma hostname_bytes:
  assumes "is_hostname_like v" "c \<in> set v"
  shows "is_ascii_alphanumeric c \<or> c = CHR ''-'' \<or> c = CHR ''.''"
proof (cases "c = CHR ''.''")
  case False
  with assms(2) set_split_on [of v "CHR ''.''"]
  obtain l where "l \<in> set (split_on CHR ''.'' v)" "c \<in> set l" by blast
  with hostname_labels [OF assms(1)] show ?thesis by (auto simp: is_label_def list_all_iff)
qed simp

lemma hostname_not_Nil: "is_hostname_like v \<Longrightarrow> v \<noteq> []"
  by (auto simp: is_hostname_like_def is_label_def split: if_splits)

lemma hostname_graphic: "is_hostname_like v \<Longrightarrow> c \<in> set v \<Longrightarrow> graphic c"
  by (drule (1) hostname_bytes)
     (auto simp: alphanumeric_graphic, simp_all add: graphic_def is_space_def byte_def)

lemma trim_hostname: "is_hostname_like v \<Longrightarrow> trim v = v"
  by (rule trim_graphic) (simp add: hostname_graphic)

lemma parse_application_sni_Some:
  "parse_application_sni o' = Inr (Some s) \<longleftrightarrow> (\<exists>r. o' = Some r \<and> s = trim r \<and> is_hostname_like s)"
  by (auto simp: parse_application_sni_def Let_def hostname_not_Nil dest: hostname_not_Nil
      split: option.splits)

section \<open>Application lists\<close>

definition subdomain_keys :: "application list \<Rightarrow> string list" where
  "subdomain_keys apps =
     List.map_filter
       (\<lambda>a. case a_routing a of Subdomain n \<Rightarrow> Some (to_ascii_lowercase n) | _ \<Rightarrow> None) apps"

definition path_names :: "application list \<Rightarrow> string list" where
  "path_names apps = List.map_filter (\<lambda>a. case a_routing a of Path n \<Rightarrow> Some n | _ \<Rightarrow> None) apps"

definition default_apps :: "application list \<Rightarrow> application list" where
  "default_apps apps = filter (\<lambda>a. a_routing a = Default) apps"

text \<open>No two applications can claim the same name or the same requests.\<close>

definition valid_applications :: "application list \<Rightarrow> bool" where
  "valid_applications apps \<longleftrightarrow>
     distinct (map a_name apps)
     \<and> distinct (subdomain_keys apps) \<and> [] \<notin> set (subdomain_keys apps)
     \<and> distinct (path_names apps) \<and> (\<forall>p\<in>set (path_names apps). p \<noteq> [] \<and> CHR ''/'' \<notin> set p)
     \<and> length (default_apps apps) \<le> 1"

lemmas app_list_simps =
  subdomain_keys_def path_names_def default_apps_def List.map_filter_simps

lemma validate_loop_Inr:
  "validate_loop d N S P apps = Inr d' \<longleftrightarrow>
     distinct (map a_name apps) \<and> set (map a_name apps) \<inter> N = {}
     \<and> distinct (subdomain_keys apps) \<and> set (subdomain_keys apps) \<inter> S = {} \<and> [] \<notin> set (subdomain_keys apps)
     \<and> distinct (path_names apps) \<and> set (path_names apps) \<inter> P = {}
     \<and> (\<forall>p\<in>set (path_names apps). p \<noteq> [] \<and> CHR ''/'' \<notin> set p)
     \<and> d' = d + length (default_apps apps)"
proof (induction apps arbitrary: d N S P)
  case Nil
  then show ?case by (auto simp: app_list_simps)
next
  case (Cons a apps)
  show ?case
    by (cases "a_routing a"; cases "a_name a \<in> N")
       (auto simp: Cons.IH app_list_simps Let_def)
qed

lemma validate_applications_Inr:
  "validate_applications apps = Inr () \<longleftrightarrow> valid_applications apps"
  by (auto simp: validate_applications_def result_inv validate_loop_Inr valid_applications_def)

section \<open>Rejections\<close>

text \<open>Every rejection is a \<open>TypeError\<close> with one of the two option codes.\<close>

definition option_error :: "napi_error \<Rightarrow> bool" where
  "option_error e \<longleftrightarrow>
     err_class e = JsTypeError
     \<and> err_code e \<in> {Some INVALID_PROXY_OPTIONS, Some INVALID_APPLICATION_OPTIONS}"

lemma option_error_type_error [simp]:
  "option_error (type_error INVALID_PROXY_OPTIONS m)"
  "option_error (type_error INVALID_APPLICATION_OPTIONS m)"
  by (simp_all add: option_error_def)

lemma parse_application_options_error:
  "parse_application_options app = Inl e \<Longrightarrow> option_error e"
  by (cases "o_routing app")
     (auto simp: parse_application_options_def result_inv parse_application_sni_def Let_def
        require_routing_name_def split: option.splits if_splits)

lemma parse_applications_error: "parse_applications apps = Inl e \<Longrightarrow> option_error e"
  by (induction apps) (auto simp: result_inv dest: parse_application_options_error)

lemma validate_loop_error: "validate_loop d N S P apps = Inl e \<Longrightarrow> option_error e"
  by (induction d N S P apps rule: validate_loop.induct)
     (auto simp: Let_def split: if_splits application_routing.splits)

lemma parse_limits_error: "parse_limits_options l = Inl e \<Longrightarrow> option_error e"
  by (auto simp: parse_limits_options_cases limits_spec_def Let_def
        split: option.splits nullable.splits)

lemma parse_timeout_error: "parse_timeout_options t = Inl e \<Longrightarrow> option_error e"
  by (cases t) (auto simp: parse_timeout_options_def result_inv dest!: parse_positive_u32_Inl)

lemma parse_sticky_error: "parse_sticky_session_options s = Inl e \<Longrightarrow> option_error e"
  by (auto simp: parse_sticky_session_options_def Let_def split: option.splits if_splits)

lemma validate_applications_error: "validate_applications apps = Inl e \<Longrightarrow> option_error e"
  by (auto simp: validate_applications_def result_inv dest: validate_loop_error split: if_splits)

section \<open>Well-formed options\<close>

definition wf_options :: "proxy_options_parsed \<Rightarrow> bool" where
  "wf_options p \<longleftrightarrow>
     valid_applications (po_applications p)
     \<and> (\<forall>a\<in>set (po_applications p). \<forall>s. a_sni a = Some s \<longrightarrow> is_hostname_like s)
     \<and> wf_sticky (po_sticky_sessions p) \<and> wf_limits (po_limits p) \<and> wf_timeouts (po_timeouts p)"

lemma parse_applications_sni:
  "parse_applications apps = Inr as \<Longrightarrow> a \<in> set as \<Longrightarrow> a_sni a = Some s \<Longrightarrow> is_hostname_like s"
  by (induction apps arbitrary: as)
     (auto simp: result_inv parse_application_options_def parse_application_sni_Some)

lemma parse_applications_names:
  "parse_applications apps = Inr as \<Longrightarrow> map a_name as = map o_name apps"
  by (induction apps arbitrary: as) (auto simp: result_inv parse_application_options_def)

section \<open>Properties of the parser\<close>

lemma parse_proxy_options_wf: "parse_proxy_options options = Inr p \<Longrightarrow> wf_options p"
  by (auto simp: parse_proxy_options_def Let_def result_inv wf_options_def validate_applications_Inr
      parse_sticky_wf parse_limits_wf parse_timeout_wf dest: parse_applications_sni)

text \<open>C31. Options that are accepted are well formed: the applications have distinct names and
  distinct, non-empty routes with at most one default, every SNI is a host name, every limit,
  timeout, lifetime and entry count is positive; and the applications are the given ones in order.\<close>

theorem accepted_options_well_formed:
  assumes "parse_proxy_options options = Inr p"
  shows "valid_applications (po_applications p)
    \<and> map a_name (po_applications p) = map o_name (o_applications options)
    \<and> (\<forall>a\<in>set (po_applications p). \<forall>s. a_sni a = Some s \<longrightarrow> is_hostname_like s \<and> trim s = s)
    \<and> wf_sticky (po_sticky_sessions p) \<and> wf_limits (po_limits p) \<and> wf_timeouts (po_timeouts p)"
proof -
  have "parse_applications (o_applications options) = Inr (po_applications p)"
    using assms by (auto simp: parse_proxy_options_def Let_def result_inv)
  then show ?thesis
    using parse_proxy_options_wf [OF assms] parse_applications_names trim_hostname
    by (auto simp: wf_options_def)
qed

definition demo_options :: proxy_options where
  "demo_options =
     \<lparr>o_listen = ''127.0.0.1:0'', o_tls = None,
      o_applications = [\<lparr>o_name = ''app'', o_routing = RouteSubdomain (Some ''Api.example.com''), o_sni = None\<rparr>],
      o_health_check_interval_ms = None, o_sticky_sessions = None, o_limits = Some Null, o_timeouts = None\<rparr>"

lemma demo_options_parse: "\<exists>p. parse_proxy_options demo_options = Inr p"
  by (simp add: parse_proxy_options_def demo_options_def parse_application_options_def
      parse_application_sni_def parse_sticky_session_options_def parse_limits_options_def
      parse_timeout_options_def timeout_default_defs validate_applications_def require_routing_name_def
      Let_def)

theorem accepted_options_well_formed_witness:
  "\<exists>p. parse_proxy_options demo_options = Inr p \<and> map a_name (po_applications p) = [''app'']"
  using demo_options_parse accepted_options_well_formed by (fastforce simp: demo_options_def)

text \<open>C32. The validation of the applications accepts exactly the lists that meet all of these: no two
  applications have the same name, no two the same subdomain in any letter case, no two the same path,
  at most one is the default; no subdomain and no path is empty, and no path contains a slash.\<close>

theorem validate_applications_exact:
  "validate_applications as = Inr () \<longleftrightarrow>
     distinct (map a_name as)
     \<and> distinct (subdomain_keys as) \<and> [] \<notin> set (subdomain_keys as)
     \<and> distinct (path_names as) \<and> list_all (\<lambda>p. p \<noteq> [] \<and> CHR ''/'' \<notin> set p) (path_names as)
     \<and> length (default_apps as) \<le> 1"
  by (simp add: validate_applications_Inr valid_applications_def list_all_iff)

text \<open>The limits the proxy enforces are the ones asked for: an absent limit counts with its
  default, \<open>null\<close> switches one off, 0 is refused with the first offending field in the message, and
  switching all of them off disables the checks.\<close>

theorem parsed_limits_exact:
  "parse_limits_options limits =
     (case limits of
        None \<Rightarrow> Inr (Enabled [UriBytes 8192, RequestHeaders 100, SingleHeaderBytes 8192,
                               RequestHeaderBytes 65536, RequestBodyBytes 16777216])
      | Some Null \<Rightarrow> Inr Disabled
      | Some (Given l) \<Rightarrow>
          (case find (\<lambda>(_, _, v). v = Some 0) (limit_fields l) of
             Some (field, _, _) \<Rightarrow> Inl (type_error INVALID_PROXY_OPTIONS (field @ '' must be greater than 0''))
           | None \<Rightarrow>
               let checks = List.map_filter (\<lambda>(_, mk, v). map_option mk v) (limit_fields l)
               in Inr (if checks = [] then Disabled else Enabled checks)))"
  by (simp add: parse_limits_options_cases limits_spec_def default_limit_checks_def limit_default_defs
      split: option.split nullable.split)

text \<open>Whatever is refused is refused with a \<open>TypeError\<close> that carries one of the two stable option
  codes.\<close>

theorem refused_options_code:
  assumes "parse_proxy_options options = Inl e"
  shows "err_class e = JsTypeError
    \<and> err_code e \<in> {Some INVALID_PROXY_OPTIONS, Some INVALID_APPLICATION_OPTIONS}"
proof -
  have "option_error e"
    using assms
    by (auto simp: parse_proxy_options_def Let_def result_inv
        dest: parse_applications_error validate_applications_error parse_sticky_error parse_limits_error
          parse_timeout_error)
  then show ?thesis by (simp add: option_error_def)
qed

theorem refused_options_code_witness:
  "\<exists>e. parse_proxy_options (demo_options\<lparr>o_applications := o_applications demo_options @ o_applications demo_options\<rparr>)
      = Inl e \<and> err_class e = JsTypeError"
proof -
  obtain e where e: "parse_proxy_options
      (demo_options\<lparr>o_applications := o_applications demo_options @ o_applications demo_options\<rparr>) = Inl e"
    by (simp add: parse_proxy_options_def demo_options_def parse_application_options_def
        parse_application_sni_def validate_applications_def throw_type_error_def require_routing_name_def Let_def)
  from refused_options_code [OF e] e show ?thesis by blast
qed

end
