(* ===== verification/Pools_Props.thy ===== *)
theory Pools_Props
  imports Pools Options_Props
begin

text \<open>
  Facts about upstreams and pools: which upstreams parse, what the pools of an application are in
  terms of the set of its upstreams alone, whatever the iteration orders, and what the router
  configuration says of the applications.
\<close>

section \<open>Grouping by transport\<close>

lemma by_transport_fold:
  "hm_wf m \<Longrightarrow> hm_wf (fold push_upstream us m)
   \<and> hm_get (fold push_upstream us m) t =
       (let l = filter (\<lambda>u. pu_transport u = t) us
        in case hm_get m t of Some l' \<Rightarrow> Some (l' @ l) | None \<Rightarrow> if l = [] then None else Some l)"
proof (induction us arbitrary: m)
  case (Cons u us)
  have wf: "hm_wf (push_upstream u m)" using Cons.prems by (simp add: push_upstream_def hm.wf_insert)
  show ?case
    using Cons.IH [OF wf]
    by (cases "pu_transport u = t") (auto simp: push_upstream_def hm.get_insert Let_def split: option.splits)
qed (auto split: option.splits)

lemma by_transport_get:
  "hm_wf (by_transport us)"
  "hm_get (by_transport us) t =
     (if filter (\<lambda>u. pu_transport u = t) us = [] then None else Some (filter (\<lambda>u. pu_transport u = t) us))"
  using by_transport_fold [of hm_empty us t] by (simp_all add: by_transport_def hm.wf_empty hm.get_empty)

section \<open>Building pools\<close>

lemma build_pools_Inr:
  assumes "build_pools N app i gs acc = Inr m" "distinct (map fst gs)"
  shows "(\<forall>(t, us)\<in>set gs. us \<noteq> [] \<longrightarrow> (\<exists>p. build_pool N app i us = Inr p \<and> hm_get m t = Some p))
    \<and> (\<forall>t. (\<forall>us. (t, us) \<in> set gs \<longrightarrow> us = []) \<longrightarrow> hm_get m t = hm_get acc t)"
  using assms
proof (induction gs arbitrary: acc)
  case (Cons g gs)
  obtain t us where g: "g = (t, us)" by fastforce
  have fresh: "(t, us') \<notin> set gs" for us' using Cons.prems(2) g by (auto simp: image_iff)
  show ?case
  proof (cases "us = []")
    case True
    with Cons g show ?thesis by auto
  next
    case False
    with Cons.prems(1) g obtain p where p: "build_pool N app i us = Inr p"
      "build_pools N app i gs (hm_insert t p acc) = Inr m" by (auto simp: result_inv)
    from Cons.IH [OF p(2)] Cons.prems(2)
    have IH: "\<forall>(t, us)\<in>set gs. us \<noteq> [] \<longrightarrow> (\<exists>p. build_pool N app i us = Inr p \<and> hm_get m t = Some p)"
      "\<And>t'. (\<forall>us. (t', us) \<in> set gs \<longrightarrow> us = []) \<Longrightarrow> hm_get m t' = hm_get (hm_insert t p acc) t'"
      by auto
    from IH(2) [of t] fresh have "hm_get m t = Some p" by (simp add: hm.get_insert)
    moreover have "hm_get m t' = hm_get acc t'" if "\<forall>us. (t', us) \<in> set (g # gs) \<longrightarrow> us = []" for t'
      using IH(2) [of t'] that g False by (auto simp: hm.get_insert)
    ultimately show ?thesis using IH(1) p(1) g by auto
  qed
qed simp

lemma build_pools_ok:
  assumes "\<forall>(t, us)\<in>set gs. us \<noteq> [] \<longrightarrow> (\<exists>p. build_pool N app i us = Inr p)"
  shows "\<exists>m. build_pools N app i gs acc = Inr m"
  using assms by (induction gs arbitrary: acc) (auto split: prod.splits)

lemma build_pools_wf: "build_pools N app i gs acc = Inr m \<Longrightarrow> hm_wf acc \<Longrightarrow> hm_wf m"
  by (induction gs arbitrary: acc) (auto simp: result_inv hm.wf_insert split: if_splits)

lemma build_pools_Inl:
  "build_pools N app i gs acc = Inl e \<Longrightarrow> \<exists>(t, us)\<in>set gs. us \<noteq> [] \<and> build_pool N app i us = Inl e"
proof (induction gs arbitrary: acc)
  case (Cons g gs)
  obtain t us where g: "g = (t, us)" by fastforce
  with Cons.prems Cons.IH show ?case by (cases "us = []") (fastforce simp: result_inv)+
qed simp

lemma resolve_upstreams_Inr:
  "resolve_upstreams N us acc = Inr addrs \<longleftrightarrow>
   (\<exists>founds. list_all2 (\<lambda>u found. nl_resolve N (pu_hostname u) (pu_port u) = Inr found) us founds
      \<and> addrs = acc @ concat founds)"
  by (induction us arbitrary: acc) (auto simp: list_all2_Cons1 split: sum.splits)

text \<open>The addresses the upstreams of a pool resolve to.\<close>

definition resolved_addrs :: "('addr, 'lb) net_lib \<Rightarrow> port_upstream set \<Rightarrow> 'addr set" where
  "resolved_addrs N U =
     {a. \<exists>u\<in>U. \<exists>found. nl_resolve N (pu_hostname u) (pu_port u) = Inr found \<and> a \<in> set found}"

lemma founds_set:
  "list_all2 (\<lambda>u found. nl_resolve N (pu_hostname u) (pu_port u) = Inr found) us founds \<Longrightarrow>
   set (concat founds) = resolved_addrs N (set us)"
  by (induction rule: list_all2_induct) (auto simp: resolved_addrs_def)

lemma resolve_upstreams_set:
  "resolve_upstreams N us [] = Inr addrs \<Longrightarrow> set addrs = resolved_addrs N (set us)"
  by (auto simp: resolve_upstreams_Inr dest!: founds_set)

text \<open>What a pool of an application is, given the set of its upstreams.\<close>

definition pool_spec ::
    "('addr, 'lb) net_lib \<Rightarrow> application \<Rightarrow> u32 \<Rightarrow> port_upstream set \<Rightarrow> 'lb pool_config \<Rightarrow> bool" where
  "pool_spec N app interval_ms U p \<longleftrightarrow>
     (\<forall>u\<in>U. pu_secure u = pc_secure p)
     \<and> (if pc_secure p then verify_hostname_for_secure_upstream app = Inr (pc_verify_hostname p)
        else pc_verify_hostname p = [])
     \<and> (\<forall>u\<in>U. \<exists>found. nl_resolve N (pu_hostname u) (pu_port u) = Inr found)
     \<and> pc_backends p = nl_addr_text N ` resolved_addrs N U \<and> pc_backends p \<noteq> {}
     \<and> (\<exists>addrs. set addrs = resolved_addrs N U \<and> nl_try_from_iter N addrs = Inr (lb_inner (pc_lb p)))
     \<and> lb_health_check (pc_lb p)
         = Some (if pc_secure p then TcpHealthCheckTls (pc_verify_hostname p) else TcpHealthCheck)
     \<and> lb_health_check_frequency (pc_lb p) = Some (unat interval_ms * 1000000)"

lemma list_all2_ex: "list_all2 P xs ys \<Longrightarrow> x \<in> set xs \<Longrightarrow> \<exists>y. P x y"
  by (auto simp: list_all2_conv_all_nth in_set_conv_nth)

lemma build_pool_spec:
  assumes "build_pool N app i us = Inr p" "us \<noteq> []"
  shows "pool_spec N app i (set us) p"
proof -
  let ?s = "pu_secure (hd us)"
  from assms(1) obtain v addrs lb where
    s: "\<forall>u\<in>set us. pu_secure u = ?s" and
    v: "(if ?s then verify_hostname_for_secure_upstream app else Inr []) = Inr v" and
    a: "resolve_upstreams N us [] = Inr addrs" "addrs \<noteq> []" and
    lb: "nl_try_from_iter N addrs = Inr lb" and
    p: "p = \<lparr>pc_lb = \<lparr>lb_inner = lb, lb_health_check = Some (if ?s then TcpHealthCheckTls v else TcpHealthCheck),
              lb_health_check_frequency = Some (from_millis (ucast i))\<rparr>, pc_secure = ?s,
              pc_verify_hostname = v, pc_backends = set (map (nl_addr_text N) addrs)\<rparr>"
    by (auto simp: build_pool_def Let_def result_inv split: if_splits sum.splits)
  have "\<exists>found. nl_resolve N (pu_hostname u) (pu_port u) = Inr found" if "u \<in> set us" for u
    using a(1) that by (auto simp: resolve_upstreams_Inr dest: list_all2_ex)
  then show ?thesis
    using s v a lb resolve_upstreams_set [OF a(1)]
    by (auto simp: pool_spec_def p from_millis_def unat_ucast_u32)
qed

section \<open>Rebuilding the pools of an application\<close>

definition orders_ok :: "pool_orders \<Rightarrow> bool" where
  "orders_ok orders \<longleftrightarrow> iteration (set_order orders) \<and> iteration (transport_order orders)"

definition upstreams_of :: "upstream_set \<Rightarrow> transport_kind \<Rightarrow> port_upstream set" where
  "upstreams_of s t = {u. hs_contains s u \<and> pu_transport u = t}"

lemma hs_contains_iff: "hm_wf s \<Longrightarrow> hs_contains s u \<longleftrightarrow> u \<in> fst ` set s"
  by (auto simp: hs_contains_def hm_get_def map_of_eq_None_iff)

lemma rebuild_groups:
  assumes "orders_ok orders" "hm_wf upstreams"
  defines "us \<equiv> map fst (set_order orders upstreams)"
  defines "gs \<equiv> transport_order orders (by_transport us)"
  shows "distinct (map fst gs)"
    and "(t, l) \<in> set gs \<longleftrightarrow> l = filter (\<lambda>u. pu_transport u = t) us \<and> l \<noteq> []"
    and "set (filter (\<lambda>u. pu_transport u = t) us) = upstreams_of upstreams t"
proof -
  have it: "iteration (set_order orders)" "iteration (transport_order orders)"
    using assms(1) by (simp_all add: orders_ok_def)
  have "mset (map fst gs) = mset (map fst (by_transport us))"
    using it(2) by (simp add: gs_def iteration_def mset_map)
  then show "distinct (map fst gs)"
    using by_transport_get(1) [of us] mset_eq_imp_distinct_iff unfolding hm_wf_def by blast
  have "(t, l) \<in> set gs \<longleftrightarrow> hm_get (by_transport us) t = Some l"
    unfolding gs_def set_iteration [OF it(2)] by (rule hm_get_Some_iff [OF by_transport_get(1), symmetric])
  then show "(t, l) \<in> set gs \<longleftrightarrow> l = filter (\<lambda>u. pu_transport u = t) us \<and> l \<noteq> []"
    by (auto simp: by_transport_get(2))
  show "set (filter (\<lambda>u. pu_transport u = t) us) = upstreams_of upstreams t"
    by (auto simp: us_def upstreams_of_def hs_contains_iff [OF assms(2)] set_iteration [OF it(1)])
qed

lemma rebuild_app_pools_Inr:
  assumes "orders_ok orders" "hm_wf upstreams"
    and "rebuild_app_pools N orders app upstreams i = Inr (new_pools, removed)"
  shows "(hm_get new_pools t = None \<longleftrightarrow> upstreams_of upstreams t = {})
    \<and> (t \<in> set removed \<longleftrightarrow> upstreams_of upstreams t = {})
    \<and> (\<forall>p. hm_get new_pools t = Some p \<longrightarrow> pool_spec N app i (upstreams_of upstreams t) p)"
proof -
  let ?us = "map fst (set_order orders upstreams)"
  let ?gs = "transport_order orders (by_transport ?us)" and ?l = "filter (\<lambda>u. pu_transport u = t) ?us"
  note g = rebuild_groups [OF assms(1,2)]
  from assms(3) have b: "build_pools N app i ?gs hm_empty = Inr new_pools"
    and removed: "removed = filter (\<lambda>t. hm_get new_pools t = None) [Http1, Http2, Ws]"
    by (auto simp: rebuild_app_pools_def Let_def result_inv)
  have rem: "t \<in> set removed \<longleftrightarrow> hm_get new_pools t = None"
    by (cases t) (auto simp: removed)
  note res = build_pools_Inr [OF b g(1)]
  show ?thesis
  proof (cases "?l = []")
    case True
    then have none: "\<forall>us. (t, us) \<in> set ?gs \<longrightarrow> us = []"
      using g(2) [of t] by (simp del: filter_empty_conv)
    have "hm_get new_pools t = hm_get hm_empty t"
      by (rule mp [OF spec [OF conjunct2 [OF res], of t] none])
    then have "hm_get new_pools t = None" by (simp only: hm.get_empty)
    moreover have "upstreams_of upstreams t = {}" using True g(3) [of t] by (metis empty_set)
    ultimately show ?thesis using rem by (metis option.distinct(1))
  next
    case False
    then have "(t, ?l) \<in> set ?gs" using g(2) [of t ?l] by simp
    with bspec [OF conjunct1 [OF res] this] False
    obtain p where p: "build_pool N app i ?l = Inr p" "hm_get new_pools t = Some p" by auto
    have "upstreams_of upstreams t \<noteq> {}" using False g(3) [of t] by (metis set_empty)
    with build_pool_spec [OF p(1) False] p(2) rem g(3) [of t] show ?thesis by auto
  qed
qed

lemma rebuild_app_pools_wf:
  "rebuild_app_pools N orders app upstreams i = Inr (new_pools, removed) \<Longrightarrow> hm_wf new_pools"
  by (auto simp: rebuild_app_pools_def Let_def result_inv hm.wf_empty dest: build_pools_wf)

section \<open>The router configuration\<close>

definition subdomain_pairs :: "application list \<Rightarrow> (string \<times> string) list" where
  "subdomain_pairs as = List.map_filter (\<lambda>a. case a_routing a of
     Subdomain n \<Rightarrow> Some (to_ascii_lowercase n, a_name a) | _ \<Rightarrow> None) as"

definition path_pairs :: "application list \<Rightarrow> (string \<times> string) list" where
  "path_pairs as = List.map_filter (\<lambda>a. case a_routing a of Path n \<Rightarrow> Some (n, a_name a) | _ \<Rightarrow> None) as"

definition app_pools_of :: "'lb pool_map \<Rightarrow> application \<Rightarrow> 'lb app_pools" where
  "app_pools_of pools a =
     \<lparr>ap_http1 = hm_get pools (a_name a, Http1), ap_ws = hm_get pools (a_name a, Ws),
      ap_http2 = hm_get pools (a_name a, Http2)\<rparr>"

lemma fst_pairs:
  "map fst (subdomain_pairs as) = subdomain_keys as" "map fst (path_pairs as) = path_names as"
  by (induction as)
     (auto simp: subdomain_pairs_def path_pairs_def subdomain_keys_def path_names_def List.map_filter_simps
       split: application_routing.splits)

lemma fold_router_config:
  fixes pools :: "'lb pool_map"
  shows "subdomain_routes (fold (add_app_config pools) as cfg) = subdomain_routes cfg ++ map_of (rev (subdomain_pairs as))"
    and "path_routes (fold (add_app_config pools) as cfg) = path_routes cfg ++ map_of (rev (path_pairs as))"
    and "apps (fold (add_app_config pools) as cfg)
           = apps cfg ++ map_of (rev (map (\<lambda>a. (a_name a, app_pools_of pools a)) as))"
    and "default_app (fold (add_app_config pools) as cfg)
           = (if default_apps as = [] then default_app cfg else Some (a_name (last (default_apps as))))"
  by (induction as arbitrary: cfg)
     (auto simp: add_app_config_def add_route_def app_pools_of_def subdomain_pairs_def path_pairs_def
       default_apps_def List.map_filter_simps Let_def map_add_def fun_eq_iff
       split: application_routing.splits option.splits)

lemma map_of_rev: "distinct (map fst ps) \<Longrightarrow> map_of (rev ps) k = Some v \<longleftrightarrow> (k, v) \<in> set ps"
  by (metis distinct_rev map_of_eq_Some_iff rev_map set_rev)

lemma set_map_filter_iff: "y \<in> set (List.map_filter f xs) \<longleftrightarrow> (\<exists>x\<in>set xs. f x = Some y)"
  by (force simp: List.map_filter_def)

lemma set_pairs:
  "(k, n) \<in> set (subdomain_pairs as) \<longleftrightarrow>
     (\<exists>a\<in>set as. \<exists>s. a_routing a = Subdomain s \<and> to_ascii_lowercase s = k \<and> a_name a = n)"
  "(k, n) \<in> set (path_pairs as) \<longleftrightarrow> (\<exists>a\<in>set as. a_routing a = Path k \<and> a_name a = n)"
  by (induction as)
     (auto simp: subdomain_pairs_def path_pairs_def List.map_filter_simps split: application_routing.splits)

lemma router_config_routes:
  assumes "valid_applications (po_applications o')"
  shows "subdomain_routes (build_router_config o' pools) k = Some n \<longleftrightarrow>
      (\<exists>a\<in>set (po_applications o'). \<exists>s. a_routing a = Subdomain s \<and> to_ascii_lowercase s = k \<and> a_name a = n)"
    and "path_routes (build_router_config o' pools) k = Some n \<longleftrightarrow>
      (\<exists>a\<in>set (po_applications o'). a_routing a = Path k \<and> a_name a = n)"
    and "apps (build_router_config o' pools) n = Some ps \<longleftrightarrow>
      (\<exists>a\<in>set (po_applications o'). a_name a = n \<and> ps = app_pools_of pools a)"
    and "default_app (build_router_config o' pools) = Some n \<longleftrightarrow>
      (\<exists>a\<in>set (po_applications o'). a_routing a = Default \<and> a_name a = n)"
proof -
  let ?as = "po_applications o'"
  from assms have d: "distinct (map fst (subdomain_pairs ?as))" "distinct (map fst (path_pairs ?as))"
    "distinct (map a_name ?as)" "length (default_apps ?as) \<le> 1"
    by (simp_all add: valid_applications_def fst_pairs)
  show "subdomain_routes (build_router_config o' pools) k = Some n \<longleftrightarrow>
      (\<exists>a\<in>set ?as. \<exists>s. a_routing a = Subdomain s \<and> to_ascii_lowercase s = k \<and> a_name a = n)"
    using map_of_rev [OF d(1), of k n]
    by (simp add: build_router_config_def fold_router_config router_config_default_def set_pairs)
  show "path_routes (build_router_config o' pools) k = Some n \<longleftrightarrow>
      (\<exists>a\<in>set ?as. a_routing a = Path k \<and> a_name a = n)"
    using map_of_rev [OF d(2), of k n]
    by (simp add: build_router_config_def fold_router_config router_config_default_def set_pairs)
  have "distinct (map fst (map (\<lambda>a. (a_name a, app_pools_of pools a)) ?as))" using d(3) by (simp add: comp_def)
  from map_of_rev [OF this, of n ps]
  show "apps (build_router_config o' pools) n = Some ps \<longleftrightarrow> (\<exists>a\<in>set ?as. a_name a = n \<and> ps = app_pools_of pools a)"
    by (simp add: build_router_config_def fold_router_config router_config_default_def) auto
  have "default_apps ?as = [] \<or> (\<exists>a. default_apps ?as = [a])"
    using d(4) by (cases "default_apps ?as") auto
  moreover have "default_app (build_router_config o' pools)
      = (if default_apps ?as = [] then None else Some (a_name (last (default_apps ?as))))"
    by (simp add: build_router_config_def fold_router_config router_config_default_def)
  ultimately have "default_app (build_router_config o' pools) = Some n \<longleftrightarrow> (\<exists>a\<in>set (default_apps ?as). a_name a = n)"
    by auto
  then show "default_app (build_router_config o' pools) = Some n \<longleftrightarrow>
      (\<exists>a\<in>set ?as. a_routing a = Default \<and> a_name a = n)"
    by (auto simp: default_apps_def)
qed

section \<open>Service names\<close>

definition transport_suffix :: "transport_kind \<Rightarrow> string" where
  "transport_suffix t = (case t of Http1 \<Rightarrow> ''http'' | Http2 \<Rightarrow> ''http2'' | Ws \<Rightarrow> ''ws'')"

lemma lb_service_name_eq: "lb_service_name app t = (''lb:'' @ app) @ CHR '':'' # transport_suffix t"
  by (cases t) (simp_all add: transport_suffix_def)

lemma lb_service_name_rsplit: "rsplit_once CHR '':'' (lb_service_name app t) = Some (''lb:'' @ app, transport_suffix t)"
  unfolding lb_service_name_eq by (simp add: rsplit_once_Some) (cases t; simp add: transport_suffix_def)

lemma lb_service_name_inject: "lb_service_name app t = lb_service_name app' t' \<longleftrightarrow> app = app' \<and> t = t'"
proof
  assume "lb_service_name app t = lb_service_name app' t'"
  with lb_service_name_rsplit [of app t] lb_service_name_rsplit [of app' t']
  have "app = app'" "transport_suffix t = transport_suffix t'" by auto
  then show "app = app' \<and> t = t'" by (cases t; cases t'; simp add: transport_suffix_def)
qed simp

lemma lb_service_name_main: "lb_service_name app t \<noteq> ''main_http''"
  by (cases t) simp_all

end
