(* ===== verification/Proxy_Props.thy ===== *)
theory Proxy_Props
  imports Proxy Pools_Props
begin

text \<open>
  Invariants of the proxy when its operations run to completion one after the other: pools,
  router configuration and background services always agree with the set of upstreams.
\<close>

section \<open>The registry seen through its contract\<close>

lemma sv_view_upserts:
  "sv_view (fold (\<lambda>(n, h). upsert_service n h) xs sv) = (sv_view sv)(map fst xs [\<mapsto>] map snd xs)"
  by (induction xs arbitrary: sv) (auto simp: registry.upsert_view)

lemma sv_view_removes:
  "sv_view (fold remove_service ns sv) n = (if n \<in> set ns then None else sv_view sv n)"
  by (induction ns arbitrary: sv) (auto simp: registry.remove_view)

lemma sv_ok_fold:
  "order_ok it sv \<Longrightarrow> order_ok it (fold (\<lambda>(n, h). upsert_service n h) xs sv)"
  "order_ok it sv \<Longrightarrow> order_ok it (fold remove_service ns sv)"
proof -
  show "order_ok it sv \<Longrightarrow> order_ok it (fold (\<lambda>(n, h). upsert_service n h) xs sv)"
    by (induction xs arbitrary: sv) (auto intro: registry.upsert_ok)
  show "order_ok it sv \<Longrightarrow> order_ok it (fold remove_service ns sv)"
    by (induction ns arbitrary: sv) (auto intro: registry.remove_ok)
qed

lemma map_upds_distinct:
  "distinct (map fst xs) \<Longrightarrow> (m(map fst xs [\<mapsto>] map snd xs)) n = (case map_of xs n of Some v \<Rightarrow> Some v | None \<Rightarrow> m n)"
proof (induction xs arbitrary: m)
  case (Cons x xs)
  have "map_of xs (fst x) = None" using Cons.prems by (auto simp: map_of_eq_None_iff)
  with Cons show ?case by (auto split: option.split)
qed simp

section \<open>Committing a change\<close>

lemma fold_insert_pool:
  "fold (insert_pool app) nps (ups, pools) =
     (ups @ map (\<lambda>(t, p). (lb_service_name app t, pc_lb p)) nps, fold (\<lambda>(t, p). hm_insert (app, t) p) nps pools)"
  by (induction nps arbitrary: ups pools) (auto simp: insert_pool_def)

lemma hm_get_insert_pools:
  "distinct (map fst nps) \<Longrightarrow>
   hm_get (fold (\<lambda>(t, p). hm_insert (app, t) p) nps pools) k =
     (if fst k = app then (case map_of nps (snd k) of Some p \<Rightarrow> Some p | None \<Rightarrow> hm_get pools k)
      else hm_get pools k)"
proof (induction nps arbitrary: pools)
  case (Cons tp nps)
  have "map_of nps (fst tp) = None" using Cons.prems by (auto simp: map_of_eq_None_iff)
  with Cons show ?case by (cases k; cases tp) (auto simp: hm.get_insert split: option.split)
qed (auto split: option.split)

lemma hm_wf_insert_pools: "hm_wf pools \<Longrightarrow> hm_wf (fold (\<lambda>(t, p). hm_insert (app, t) p) nps pools)"
  by (induction nps arbitrary: pools) (auto simp: hm.wf_insert)

lemma fold_remove_pool_all:
  "fold (remove_pool app) ts (ns, pools) = (ns', pools') \<Longrightarrow>
   hm_get pools' = (\<lambda>k. if fst k = app \<and> snd k \<in> set ts then None else hm_get pools k)
   \<and> set ns' = set ns \<union> lb_service_name app ` {t \<in> set ts. hm_get pools (app, t) \<noteq> None}
   \<and> (hm_wf pools \<longrightarrow> hm_wf pools')"
proof (induction ts arbitrary: ns pools)
  case (Cons t ts)
  let ?ns = "if hm_get pools (app, t) \<noteq> None then ns @ [lb_service_name app t] else ns"
  have "fold (remove_pool app) ts (?ns, hm_remove (app, t) pools) = (ns', pools')"
    using Cons.prems by (simp add: remove_pool_def [of app t])
  note IH = Cons.IH [OF this]
  have "hm_get pools' k = (if fst k = app \<and> snd k \<in> set (t # ts) then None else hm_get pools k)" for k
    using IH by (cases k) (auto simp: hm.get_remove)
  moreover have "set ns' = set ns \<union> lb_service_name app ` {t' \<in> set (t # ts). hm_get pools (app, t') \<noteq> None}"
    using conjunct1 [OF conjunct2 [OF IH]]
    by (cases "hm_get pools (app, t)") (auto simp: hm.get_remove image_iff)
  moreover have "hm_wf pools \<longrightarrow> hm_wf pools'" using IH by (simp add: hm.wf_remove)
  ultimately show ?case by (simp add: fun_eq_iff)
qed (auto simp: fun_eq_iff)

lemma fold_remove_pool:
  assumes "fold (remove_pool app) ts (ns, pools) = (ns', pools')"
  shows "hm_get pools' k = (if fst k = app \<and> snd k \<in> set ts then None else hm_get pools k)"
    and "set ns' = set ns \<union> lb_service_name app ` {t \<in> set ts. hm_get pools (app, t) \<noteq> None}"
    and "hm_wf pools \<Longrightarrow> hm_wf pools'"
  using fold_remove_pool_all [OF assms] by simp_all

text \<open>A change that fits: the pools are those of the transports that are not removed.\<close>

definition change_ok :: "(transport_kind \<times> 'lb pool_config) list \<Rightarrow> transport_kind list \<Rightarrow> bool" where
  "change_ok nps removed \<longleftrightarrow>
     distinct (map fst nps) \<and> (\<forall>t. t \<in> set removed \<longleftrightarrow> map_of nps t = None)"

lemma commit_upstreams_Inr:
  assumes "commit_upstreams app (next, nps, removed) p = (Inr change, p')" "change_ok nps removed"
  shows "hm_get (pi_pools p') k = (if fst k = app then map_of nps (snd k) else hm_get (pi_pools p) k)"
    and "hm_wf (pi_pools p) \<Longrightarrow> hm_wf (pi_pools p')"
    and "pi_options p' = pi_options p" "pi_state p' = pi_state p" "pi_listen_address p' = pi_listen_address p"
      "pi_start_notifier p' = pi_start_notifier p" "pi_stop_notifier p' = pi_stop_notifier p"
      "pi_server p' = pi_server p" "pi_upstreams_by_app p' = hm_insert app next (pi_upstreams_by_app p)"
      "ro_config (pi_router p') = build_router_config (pi_options p) (pi_pools p')"
    and "sc_running change \<longleftrightarrow> pi_state p = Running"
    and "sc_upsert change = map (\<lambda>(t, q). (lb_service_name app t, pc_lb q)) nps"
    and "set (sc_remove change) = lb_service_name app ` {t \<in> set removed. hm_get (pi_pools p) (app, t) \<noteq> None}"
proof -
  let ?ins = "fold (\<lambda>(t, p). hm_insert (app, t) p) nps (pi_pools p)"
  obtain ns pools' where r: "fold (remove_pool app) removed ([], ?ins) = (ns, pools')" by fastforce
  from assms(1) have p': "p' = p\<lparr>pi_upstreams_by_app := hm_insert app next (pi_upstreams_by_app p),
      pi_pools := pools', pi_router := router_update (build_router_config (pi_options p) pools') (pi_router p)\<rparr>"
    and c: "change = \<lparr>sc_running = (pi_state p = Running),
      sc_upsert = map (\<lambda>(t, q). (lb_service_name app t, pc_lb q)) nps, sc_remove = ns\<rparr>"
    by (auto simp: commit_upstreams_def fold_insert_pool r split: if_splits)
  have d: "distinct (map fst nps)" and rem: "\<And>t. t \<in> set removed \<longleftrightarrow> map_of nps t = None"
    using assms(2) by (simp_all add: change_ok_def)
  note ins = hm_get_insert_pools [OF d, of app "pi_pools p"]
  show "hm_get (pi_pools p') k = (if fst k = app then map_of nps (snd k) else hm_get (pi_pools p) k)"
    by (simp add: p' fold_remove_pool(1) [OF r] ins rem split: option.split)
  show "hm_wf (pi_pools p) \<Longrightarrow> hm_wf (pi_pools p')"
    by (simp add: p' fold_remove_pool(3) [OF r] hm_wf_insert_pools)
  show "pi_options p' = pi_options p" "pi_state p' = pi_state p" "pi_listen_address p' = pi_listen_address p"
    "pi_start_notifier p' = pi_start_notifier p" "pi_stop_notifier p' = pi_stop_notifier p"
    "pi_server p' = pi_server p" "pi_upstreams_by_app p' = hm_insert app next (pi_upstreams_by_app p)"
    "ro_config (pi_router p') = build_router_config (pi_options p) (pi_pools p')"
    by (simp_all add: p' router_update_def)
  show "sc_running change \<longleftrightarrow> pi_state p = Running"
    "sc_upsert change = map (\<lambda>(t, q). (lb_service_name app t, pc_lb q)) nps" by (simp_all add: c)
  show "set (sc_remove change) = lb_service_name app ` {t \<in> set removed. hm_get (pi_pools p) (app, t) \<noteq> None}"
    using fold_remove_pool(2) [OF r] by (auto simp: c ins rem)
qed

lemma commit_known: "commit_upstreams app change p = (Inr c, p') \<Longrightarrow> hm_get (pi_upstreams_by_app p) app \<noteq> None"
  by (auto simp: commit_upstreams_def split: prod.splits if_splits)

section \<open>Invariants\<close>

text \<open>
  Pools and upstreams agree: every pool is built from the upstreams of its application and
  transport, and exactly the transports that have upstreams have a pool.
\<close>

definition pools_match :: "'lb proxy_inner \<Rightarrow> bool" where
  "pools_match p \<longleftrightarrow>
     (\<forall>app t. case hm_get (pi_upstreams_by_app p) app of
        None \<Rightarrow> hm_get (pi_pools p) (app, t) = None
      | Some us \<Rightarrow> hm_wf us \<and> (hm_get (pi_pools p) (app, t) = None \<longleftrightarrow> upstreams_of us t = {}))"

definition wf_inner :: "'lb proxy_inner \<Rightarrow> bool" where
  "wf_inner p \<longleftrightarrow>
     wf_options (pi_options p)
     \<and> (\<forall>app. hm_get (pi_upstreams_by_app p) app \<noteq> None \<longleftrightarrow> app \<in> a_name ` set (po_applications (pi_options p)))
     \<and> hm_wf (pi_pools p) \<and> pools_match p
     \<and> ro_config (pi_router p) = build_router_config (pi_options p) (pi_pools p)"

lemma wf_inner_pools:
  assumes "wf_inner p"
  shows "hm_get (pi_pools p) (app, t) \<noteq> None \<longleftrightarrow>
      (\<exists>us. hm_get (pi_upstreams_by_app p) app = Some us \<and> upstreams_of us t \<noteq> {})"
    and "ro_config (pi_router p) = build_router_config (pi_options p) (pi_pools p)"
proof -
  from assms have "case hm_get (pi_upstreams_by_app p) app of
      None \<Rightarrow> hm_get (pi_pools p) (app, t) = None
    | Some us \<Rightarrow> hm_wf us \<and> (hm_get (pi_pools p) (app, t) = None \<longleftrightarrow> upstreams_of us t = {})"
    by (simp add: wf_inner_def pools_match_def)
  then show "hm_get (pi_pools p) (app, t) \<noteq> None \<longleftrightarrow>
      (\<exists>us. hm_get (pi_upstreams_by_app p) app = Some us \<and> upstreams_of us t \<noteq> {})"
    by (cases "hm_get (pi_upstreams_by_app p) app") simp_all
  show "ro_config (pi_router p) = build_router_config (pi_options p) (pi_pools p)"
    using assms by (simp add: wf_inner_def)
qed

text \<open>The services that run: the HTTP service, and one health check per pool.\<close>

definition services_match :: "bound_listen_address \<Rightarrow> 'lb pool_map \<Rightarrow> (string \<Rightarrow> 'lb service option) \<Rightarrow> bool" where
  "services_match a pools v \<longleftrightarrow>
     v ''main_http'' = Some (MainHttp a)
     \<and> (\<forall>app t. v (lb_service_name app t) = map_option (\<lambda>p. LbHealth (pc_lb p)) (hm_get pools (app, t)))
     \<and> (\<forall>n. v n \<noteq> None \<longrightarrow> n = ''main_http'' \<or> (\<exists>app t. n = lb_service_name app t))"

text \<open>Between completed calls the proxy is stopped without services or running with all of them.\<close>

definition settled :: "'lb service_iter \<Rightarrow> 'lb world \<Rightarrow> bool" where
  "settled it w \<longleftrightarrow>
     (let p = w_inner w
      in order_ok it (pi_server p) \<and> pi_start_notifier p = None \<and> pi_stop_notifier p = None
         \<and> (pi_state p = Stopped \<and> pi_listen_address p = None \<and> sv_view (pi_server p) = Map.empty
            \<or> (\<exists>a. pi_state p = Running \<and> pi_listen_address p = Some a
                 \<and> services_match a (pi_pools p) (sv_view (pi_server p)))))"

section \<open>Updates\<close>

definition env_ok :: "('addr, 'lb) update_env \<Rightarrow> bool" where
  "env_ok E \<longleftrightarrow> orders_ok (ue_orders E) \<and> iteration (ue_pool_order E)"

lemma map_of_iteration:
  assumes "iteration it" "hm_wf m"
  shows "map_of (it m) = hm_get m" "distinct (map fst (it m))"
proof -
  have "mset (map fst (it m)) = mset (map fst m)" using assms(1) by (simp add: iteration_def mset_map)
  with assms(2) show d: "distinct (map fst (it m))" by (metis hm_wf_def mset_eq_imp_distinct_iff)
  show "map_of (it m) = hm_get m"
  proof
    fix k show "map_of (it m) k = hm_get m k"
      using map_of_eq_Some_iff [OF d] hm_get_Some_iff [OF assms(2)] set_iteration [OF assms(1)]
      by (metis option.exhaust)
  qed
qed

lemma rebuild_change_Inr:
  assumes "env_ok E" "hm_wf next" "rebuild_change E app next i = Inr (next', nps, removed)"
  shows "next' = next" "change_ok nps removed"
    and "map_of nps t = None \<longleftrightarrow> upstreams_of next t = {}"
    and "map_of nps t = Some p \<Longrightarrow> pool_spec (ue_net E) app i (upstreams_of next t) p"
proof -
  from assms(3) obtain new_pools where r: "rebuild_app_pools (ue_net E) (ue_orders E) app next i = Inr (new_pools, removed)"
    and n: "next' = next" "nps = ue_pool_order E new_pools"
    by (auto simp: rebuild_change_def result_inv)
  have o: "orders_ok (ue_orders E)" "iteration (ue_pool_order E)" using assms(1) by (simp_all add: env_ok_def)
  note m = map_of_iteration [OF o(2) rebuild_app_pools_wf [OF r]]
  note spec = rebuild_app_pools_Inr [OF o(1) assms(2) r]
  show "next' = next" by (rule n(1))
  show "change_ok nps removed" using spec by (simp add: change_ok_def n(2) m)
  show "map_of nps t = None \<longleftrightarrow> upstreams_of next t = {}" using spec by (simp add: n(2) m)
  show "map_of nps t = Some p \<Longrightarrow> pool_spec (ue_net E) app i (upstreams_of next t) p"
    using spec by (simp add: n(2) m)
qed

lemma settle_deferred_iff [simp]:
  "settle_deferred r = Inr x \<longleftrightarrow> r = Inr x" "settle_deferred (Inl err) \<noteq> Inr x"
  "settle_deferred (Inr u) = Inr ()"
  by (auto simp: settle_deferred_def split: sum.splits)

lemma finish_update_Inl: "finish_update app planned w = (Inl e, w') \<Longrightarrow> w' = w"
  by (auto simp: finish_update_def commit_upstreams_def Let_def split: sum.splits prod.splits if_splits)

lemma find_upstreams_Inr:
  "find_upstreams app p = Inr (a, us) \<Longrightarrow>
   a \<in> set (po_applications (pi_options p)) \<and> a_name a = app \<and> hm_get (pi_upstreams_by_app p) app = Some us"
  by (auto simp: find_upstreams_def find_Some_iff split: option.splits)

text \<open>A successful update of an application, with its next set of upstreams.\<close>

definition updated ::
    "('addr, 'lb) update_env \<Rightarrow> string \<Rightarrow> upstream_set \<Rightarrow> upstream_set \<Rightarrow> 'lb world \<Rightarrow> 'lb world \<Rightarrow> bool" where
  "updated E app current next w w' \<longleftrightarrow>
     (\<exists>a nps removed change p.
        a \<in> set (po_applications (pi_options (w_inner w))) \<and> a_name a = app
        \<and> hm_get (pi_upstreams_by_app (w_inner w)) app = Some current
        \<and> rebuild_change E a next (po_health_check_interval_ms (pi_options (w_inner w))) = Inr (next, nps, removed)
        \<and> commit_upstreams app (next, nps, removed) (w_inner w) = (Inr change, p)
        \<and> w' = on_server (apply_services change) (w\<lparr>w_inner := p\<rparr>))"

lemma rebuild_change_next: "rebuild_change E app next i = Inr (next', r) \<Longrightarrow> next' = next"
  by (auto simp: rebuild_change_def result_inv)

lemma finish_update_Inr:
  assumes "finish_update app planned w = (Inr (), w')"
  obtains us' nps removed change p where "planned = Inr (us', nps, removed)"
    "commit_upstreams app (us', nps, removed) (w_inner w) = (Inr change, p)"
    "w' = on_server (apply_services change) (w\<lparr>w_inner := p\<rparr>)"
proof -
  from assms obtain c where c: "planned = Inr c" by (cases planned) (auto simp: finish_update_def)
  with assms obtain change p where "commit_upstreams app c (w_inner w) = (Inr change, p)"
    "w' = on_server (apply_services change) (w\<lparr>w_inner := p\<rparr>)"
    by (auto simp: finish_update_def split: prod.splits sum.splits)
  with c that show ?thesis by (cases c) auto
qed

lemma updatedI:
  assumes "finish_update app planned w = (Inr (), w')"
    and "find_upstreams app (w_inner w) = Inr (a, current)"
    and "planned = rebuild_change E a next (po_health_check_interval_ms (pi_options (w_inner w)))"
  shows "updated E app current next w w'"
proof -
  obtain next' nps removed change p where planned: "planned = Inr (next', nps, removed)"
    and c: "commit_upstreams app (next', nps, removed) (w_inner w) = (Inr change, p)"
    and w': "w' = on_server (apply_services change) (w\<lparr>w_inner := p\<rparr>)"
    using assms(1) by (rule finish_update_Inr)
  have "next' = next" using planned assms(3) rebuild_change_next by metis
  with planned c w' assms(3) find_upstreams_Inr [OF assms(2)] show ?thesis
    unfolding updated_def by metis
qed

lemma add_upstream_Inr:
  assumes "add_upstream E app opts w = (Inr (), w')"
  obtains u current where "parse_port_upstream opts = Inr u" "\<not> hs_contains current u"
    "updated E app current (hs_insert u current) w w'"
proof -
  from assms obtain u where u: "parse_port_upstream opts = Inr u"
    by (auto simp: add_upstream_def split: sum.splits)
  let ?planned = "and_then (add_upstream_check app u (w_inner w)) (add_upstream_plan E u)"
  from assms u have f: "finish_update app ?planned w = (Inr (), w')" by (simp add: add_upstream_def)
  then obtain c where c: "?planned = Inr c" by (rule finish_update_Inr)
  then obtain a current where a: "find_upstreams app (w_inner w) = Inr (a, current)" "\<not> hs_contains current u"
    by (auto simp: add_upstream_check_def result_inv split: if_splits)
  then have check: "add_upstream_check app u (w_inner w)
      = Inr (a, po_health_check_interval_ms (pi_options (w_inner w)), current)"
    by (simp add: add_upstream_check_def)
  have p: "?planned = rebuild_change E a (hs_insert u current) (po_health_check_interval_ms (pi_options (w_inner w)))"
  proof (cases "if pu_secure u then verify_hostname_for_secure_upstream a else Inr []")
    case (Inl err)
    with c check show ?thesis by (simp add: add_upstream_plan_def)
  next
    case (Inr v)
    with check show ?thesis by (simp add: add_upstream_plan_def)
  qed
  from that [OF u a(2) updatedI [OF f a(1) p]] show ?thesis .
qed

lemma remove_upstream_Inr:
  assumes "remove_upstream E app opts w = (Inr (), w')"
  obtains u current where "parse_port_upstream opts = Inr u" "hs_contains current u"
    "updated E app current (hm_remove u current) w w'"
proof -
  from assms obtain u where u: "parse_port_upstream opts = Inr u"
    by (auto simp: remove_upstream_def split: sum.splits)
  let ?planned = "and_then (remove_upstream_check app u (w_inner w)) (remove_upstream_plan E u)"
  from assms u have f: "finish_update app ?planned w = (Inr (), w')" by (simp add: remove_upstream_def)
  then obtain c where "?planned = Inr c" by (rule finish_update_Inr)
  then obtain a current where a: "find_upstreams app (w_inner w) = Inr (a, current)" "hs_contains current u"
    and p: "?planned = rebuild_change E a (hm_remove u current) (po_health_check_interval_ms (pi_options (w_inner w)))"
    by (auto simp: remove_upstream_check_def remove_upstream_plan_def result_inv split: if_splits)
  from that [OF u a(2) updatedI [OF f a(1) p]] show ?thesis .
qed

section \<open>The operations keep the invariants\<close>

lemma world_simps [simp]:
  "w_inner (on_inner f w) = f (w_inner w)" "w_start_channels (on_inner f w) = w_start_channels w"
  "w_stop_channels (on_inner f w) = w_stop_channels w"
  by (simp_all add: on_inner_def)

lemma on_server_simps [simp]:
  "w_inner (on_server f w) = (w_inner w)\<lparr>pi_server := f (pi_server (w_inner w))\<rparr>"
  "w_start_channels (on_server f w) = w_start_channels w" "w_stop_channels (on_server f w) = w_stop_channels w"
  by (simp_all add: on_server_def)

lemma wf_inner_irrelevant [simp]:
  "wf_inner (p\<lparr>pi_server := x1\<rparr>) = wf_inner p" "wf_inner (p\<lparr>pi_state := x2\<rparr>) = wf_inner p"
  "wf_inner (p\<lparr>pi_listen_address := x3\<rparr>) = wf_inner p" "wf_inner (p\<lparr>pi_start_notifier := x4\<rparr>) = wf_inner p"
  "wf_inner (p\<lparr>pi_stop_notifier := x5\<rparr>) = wf_inner p"
  by (simp_all add: wf_inner_def pools_match_def cong: option.case_cong)

lemma commit_wf:
  assumes "wf_inner p" "commit_upstreams app (us, nps, removed) p = (Inr change, p')" "change_ok nps removed"
    and "hm_wf us" "\<And>t. map_of nps t = None \<longleftrightarrow> upstreams_of us t = {}"
  shows "wf_inner p'"
proof -
  note c = commit_upstreams_Inr [OF assms(2,3)]
  have "pools_match p'"
    unfolding pools_match_def
  proof (intro allI)
    fix a t
    from assms(1) have old: "case hm_get (pi_upstreams_by_app p) a of
        None \<Rightarrow> hm_get (pi_pools p) (a, t) = None
      | Some us \<Rightarrow> hm_wf us \<and> (hm_get (pi_pools p) (a, t) = None \<longleftrightarrow> upstreams_of us t = {})"
      by (simp add: wf_inner_def pools_match_def)
    show "case hm_get (pi_upstreams_by_app p') a of
        None \<Rightarrow> hm_get (pi_pools p') (a, t) = None
      | Some us \<Rightarrow> hm_wf us \<and> (hm_get (pi_pools p') (a, t) = None \<longleftrightarrow> upstreams_of us t = {})"
    proof (cases "a = app")
      case True
      with assms(4,5) show ?thesis by (simp add: c(9) hm.get_insert c(1))
    next
      case False
      with old c(1) [of "(a, t)"] show ?thesis by (simp add: c(9) hm.get_insert cong: option.case_cong)
    qed
  qed
  with assms(1) c(2,3,9,10) commit_known [OF assms(2)] show ?thesis
    by (auto simp: wf_inner_def hm.get_insert)
qed

lemma hm_wf_sets:
  "hm_wf us \<Longrightarrow> hm_wf (hs_insert u us)" "hm_wf us \<Longrightarrow> hm_wf (hm_remove u us)"
  by (simp_all add: hs_insert_def hm.wf_rules)

lemma updated_wf:
  assumes "env_ok E" "wf_inner (w_inner w)" "updated E app current us w w'" "hm_wf current \<Longrightarrow> hm_wf us"
  shows "wf_inner (w_inner w')"
proof -
  from assms(3) obtain a nps removed change p where
    cur: "hm_get (pi_upstreams_by_app (w_inner w)) app = Some current"
    and r: "rebuild_change E a us (po_health_check_interval_ms (pi_options (w_inner w))) = Inr (us, nps, removed)"
    and c: "commit_upstreams app (us, nps, removed) (w_inner w) = (Inr change, p)"
    and w': "w' = on_server (apply_services change) (w\<lparr>w_inner := p\<rparr>)"
    unfolding updated_def by blast
  have "hm_wf current" using assms(2) cur by (auto simp: wf_inner_def pools_match_def split: option.splits)
  with assms(4) have wf: "hm_wf us" by blast
  note ch = rebuild_change_Inr [OF assms(1) wf r]
  have "wf_inner p" by (rule commit_wf [OF assms(2) c ch(2) wf ch(3)])
  then show ?thesis by (simp add: w')
qed

lemma add_upstream_wf:
  assumes "env_ok E" "wf_inner (w_inner w)"
  shows "wf_inner (w_inner (snd (add_upstream E app opts w)))"
proof (cases "add_upstream E app opts w")
  case (Pair r w')
  show ?thesis
  proof (cases r)
    case (Inl e)
    with Pair have "w' = w" by (auto simp: add_upstream_def dest: finish_update_Inl split: sum.splits)
    with Pair assms show ?thesis by simp
  next
    case (Inr x)
    with Pair have "add_upstream E app opts w = (Inr (), w')" by simp
    then obtain u current where "updated E app current (hs_insert u current) w w'" by (rule add_upstream_Inr)
    from updated_wf [OF assms this] Pair show ?thesis by (simp add: hm_wf_sets)
  qed
qed

lemma remove_upstream_wf:
  assumes "env_ok E" "wf_inner (w_inner w)"
  shows "wf_inner (w_inner (snd (remove_upstream E app opts w)))"
proof (cases "remove_upstream E app opts w")
  case (Pair r w')
  show ?thesis
  proof (cases r)
    case (Inl e)
    with Pair have "w' = w" by (auto simp: remove_upstream_def dest: finish_update_Inl split: sum.splits)
    with Pair assms show ?thesis by simp
  next
    case (Inr x)
    with Pair have "remove_upstream E app opts w = (Inr (), w')" by simp
    then obtain u current where "updated E app current (hm_remove u current) w w'" by (rule remove_upstream_Inr)
    from updated_wf [OF assms this] Pair show ?thesis by (simp add: hm_wf_sets)
  qed
qed

section \<open>Services follow the pools\<close>

lemma fold_upsert_map:
  "fold (\<lambda>(name, lb). upsert_service name (LbHealth lb)) xs =
   fold (\<lambda>(n, h). upsert_service n h) (map (\<lambda>(n, lb). (n, LbHealth lb)) xs)"
  by (simp add: fold_map comp_def case_prod_unfold)

lemma map_of_pool_services:
  "map_of (map (\<lambda>(n, lb). (n, LbHealth lb)) (map (\<lambda>(t, q). (lb_service_name app t, pc_lb q)) nps)) (lb_service_name app' t)
     = (if app' = app then map_option (\<lambda>q. LbHealth (pc_lb q)) (map_of nps t) else None)"
  by (induction nps) (auto simp: lb_service_name_inject)

lemma map_of_pool_services_other:
  "\<forall>t. n \<noteq> lb_service_name app t \<Longrightarrow>
   map_of (map (\<lambda>(n, lb). (n, LbHealth lb)) (map (\<lambda>(t, q). (lb_service_name app t, pc_lb q)) nps)) n = None"
  by (induction nps) auto

lemma distinct_service_names:
  "distinct (map fst nps) \<Longrightarrow>
   distinct (map fst (map (\<lambda>(n, lb). (n, LbHealth lb)) (map (\<lambda>(t, q). (lb_service_name app t, pc_lb q)) nps)))"
  by (induction nps) (auto simp: lb_service_name_inject image_iff)

lemma apply_services_match:
  assumes "commit_upstreams app (us, nps, removed) p = (Inr change, p')" "change_ok nps removed"
    and "services_match a (pi_pools p) (sv_view sv)" "sc_running change"
  shows "services_match a (pi_pools p') (sv_view (apply_services change sv))"
proof -
  note c = commit_upstreams_Inr [OF assms(1,2)]
  let ?xs = "map (\<lambda>(n, lb). (n, LbHealth lb)) (map (\<lambda>(t, q). (lb_service_name app t, pc_lb q)) nps)"
  have d: "distinct (map fst ?xs)"
    by (rule distinct_service_names) (use assms(2) in \<open>simp add: change_ok_def\<close>)
  have view: "sv_view (apply_services change sv) n =
      (if n \<in> set (sc_remove change) then None
       else case map_of ?xs n of Some h \<Rightarrow> Some h | None \<Rightarrow> sv_view sv n)" for n
    by (simp only: apply_services_def assms(4) if_True sv_view_removes fold_upsert_map sv_view_upserts c(12)
        map_upds_distinct [OF d])
  have removed: "lb_service_name app' t \<in> set (sc_remove change) \<longleftrightarrow>
      app' = app \<and> map_of nps t = None \<and> hm_get (pi_pools p) (app, t) \<noteq> None" for app' t
    using assms(2) by (auto simp: c(13) change_ok_def lb_service_name_inject)
  have other: "n \<notin> set (sc_remove change)" "map_of ?xs n = None" if "\<And>app t. n \<noteq> lb_service_name app t" for n
    using that map_of_pool_services_other [of n app nps] by (auto simp: c(13))
  from assms(3) have main: "sv_view sv ''main_http'' = Some (MainHttp a)"
    and lbs: "\<And>app t. sv_view sv (lb_service_name app t)
        = map_option (\<lambda>p. LbHealth (pc_lb p)) (hm_get (pi_pools p) (app, t))"
    and rest: "\<And>n. sv_view sv n \<noteq> None \<Longrightarrow> n = ''main_http'' \<or> (\<exists>app t. n = lb_service_name app t)"
    by (auto simp: services_match_def)
  show ?thesis
    unfolding services_match_def
  proof (intro conjI allI impI)
    show "sv_view (apply_services change sv) ''main_http'' = Some (MainHttp a)"
      using other [of "''main_http''"] lb_service_name_main by (metis view main option.simps(4))
    show "sv_view (apply_services change sv) (lb_service_name app' t)
        = map_option (\<lambda>p. LbHealth (pc_lb p)) (hm_get (pi_pools p') (app', t))" for app' t
      by (cases "map_of nps t") (auto simp: view removed map_of_pool_services lbs c(1) simp del: map_map)
    show "n = ''main_http'' \<or> (\<exists>app t. n = lb_service_name app t)"
      if "sv_view (apply_services change sv) n \<noteq> None" for n
    proof (cases "\<exists>app t. n = lb_service_name app t")
      case False
      with that other [of n] rest [of n] show ?thesis by (auto simp: view)
    qed simp
  qed
qed

lemma updated_settled:
  assumes "env_ok E" "hm_wf us" "settled it w" "updated E app current us w w'"
  shows "settled it w'"
proof -
  from assms(4) obtain a nps removed change p where
    r: "rebuild_change E a us (po_health_check_interval_ms (pi_options (w_inner w))) = Inr (us, nps, removed)"
    and c: "commit_upstreams app (us, nps, removed) (w_inner w) = (Inr change, p)"
    and w': "w' = on_server (apply_services change) (w\<lparr>w_inner := p\<rparr>)"
    unfolding updated_def by blast
  have ok: "change_ok nps removed" using rebuild_change_Inr(2) [OF assms(1,2) r] .
  note ch = commit_upstreams_Inr [OF c ok]
  have "order_ok it (apply_services change (pi_server p))"
    using assms(3) by (simp add: apply_services_def settled_def Let_def ch(8) fold_upsert_map sv_ok_fold)
  moreover have "services_match a (pi_pools p) (sv_view (apply_services change (pi_server p)))"
    if "pi_state (w_inner w) = Running" "services_match a (pi_pools (w_inner w)) (sv_view (pi_server (w_inner w)))" for a
    using apply_services_match [OF c ok that(2)] that(1) by (simp add: ch(8,11))
  moreover have "apply_services change (pi_server p) = pi_server p" if "pi_state (w_inner w) = Stopped"
    using that by (simp add: apply_services_def ch(11))
  ultimately show ?thesis
    using assms(3) by (auto simp: settled_def Let_def w' ch(4-8))
qed

section \<open>Construction, start and stop\<close>

lemma hm_get_initial_upstreams:
  "hm_get (initial_upstreams as) app = (if app \<in> a_name ` set as then Some hm_empty else None)"
proof -
  have "hm_get (fold (\<lambda>app m. hm_insert (a_name app) hm_empty m) as m) app
      = (if app \<in> a_name ` set as then Some hm_empty else hm_get m app)" for m :: "(string, upstream_set) hm"
    by (induction as arbitrary: m) (auto simp: hm.get_insert)
  then show ?thesis by (simp add: initial_upstreams_def hm.get_empty)
qed

lemma upstreams_of_empty [simp]: "upstreams_of hm_empty t = {}"
  by (simp add: upstreams_of_def hs_contains_def hm.get_empty)

lemma server_new_ok: "iteration it \<Longrightarrow> order_ok it server_new" "sv_view server_new = Map.empty"
  by (simp_all add: order_ok_def sv_ok_def server_new_def hm.wf_empty sv_view_def hm.get_empty fun_eq_iff)

lemma proxy_new_Inr:
  assumes "proxy_new options = Inr w"
  shows "wf_inner (w_inner w)" and "iteration it \<Longrightarrow> settled it w" and "pi_state (w_inner w) = Stopped"
  using assms
  by (auto simp: proxy_new_def Let_def result_inv wf_inner_def pools_match_def settled_def parse_proxy_options_wf
      hm_get_initial_upstreams hm.get_empty hm.wf_empty router_update_def server_new_ok split: if_splits)

lemma fold_start_lb_task:
  "fold start_lb_task xs w = on_server (fold (\<lambda>(n, h). upsert_service n h) (map (\<lambda>(n, lb). (n, LbHealth lb)) xs)) w"
  by (induction xs arbitrary: w)
     (auto simp: start_lb_task_def on_server_def on_inner_def comp_def)

lemma lb_tasks_match:
  assumes "iteration po" "hm_wf pools" "sv_view sv = Map.empty"
  shows "services_match a pools (sv_view (upsert_service ''main_http'' (MainHttp a)
    (fold (\<lambda>(n, h). upsert_service n h) (map (\<lambda>(n, lb). (n, LbHealth lb)) (lb_tasks po pools)) sv)))"
proof -
  let ?xs = "map (\<lambda>(n, lb). (n, LbHealth lb)) (lb_tasks po pools)"
  let ?f = "\<lambda>k. lb_service_name (fst k) (snd k)" and ?g = "\<lambda>q. LbHealth (pc_lb q)"
  have xs: "?xs = map (\<lambda>(k, q). (?f k, ?g q)) (po pools)"
    by (simp add: lb_tasks_def case_prod_unfold)
  have inj: "inj ?f" by (auto simp: inj_def lb_service_name_inject)
  have d: "distinct (map fst ?xs)"
  proof -
    have eq: "map fst ?xs = map ?f (map fst (po pools))"
      by (simp add: lb_tasks_def case_prod_unfold comp_def)
    show ?thesis
      unfolding eq distinct_map [of ?f]
      using map_of_iteration(2) [OF assms(1,2)] inj_on_subset [OF inj subset_UNIV] by blast
  qed
  have some: "map_of ?xs n = Some h \<longleftrightarrow> (\<exists>k q. hm_get pools k = Some q \<and> n = ?f k \<and> h = ?g q)" for n h
    unfolding map_of_eq_Some_iff [OF d]
    by (force simp: xs set_iteration [OF assms(1)] hm_get_Some_iff [OF assms(2)])
  have view: "sv_view (upsert_service ''main_http'' (MainHttp a) (fold (\<lambda>(n, h). upsert_service n h) ?xs sv)) n
      = (if n = ''main_http'' then Some (MainHttp a) else map_of ?xs n)" for n
  proof -
    have "sv_view (fold (\<lambda>(n, h). upsert_service n h) ?xs sv) n
        = (case map_of ?xs n of Some v \<Rightarrow> Some v | None \<Rightarrow> None)"
      by (simp only: sv_view_upserts map_upds_distinct [OF d] assms(3))
    then show ?thesis by (simp add: registry.upsert_view split: option.splits)
  qed
  show ?thesis
    unfolding services_match_def view
  proof (intro conjI allI impI)
    show "(if lb_service_name app t = ''main_http'' then Some (MainHttp a) else map_of ?xs (lb_service_name app t))
        = map_option ?g (hm_get pools (app, t))" for app t
    proof (cases "hm_get pools (app, t)")
      case None
      then have "map_of ?xs (lb_service_name app t) \<noteq> Some h" for h
        unfolding some by (auto simp: lb_service_name_inject)
      with None show ?thesis by (simp add: lb_service_name_main) (metis option.exhaust)
    next
      case (Some q)
      then have "map_of ?xs (lb_service_name app t) = Some (?g q)"
        unfolding some by (intro exI [of _ "(app, t)"] exI [of _ q]) simp
      with Some show ?thesis by (simp add: lb_service_name_main)
    qed
    show "n = ''main_http'' \<or> (\<exists>app t. n = lb_service_name app t)"
      if "(if n = ''main_http'' then Some (MainHttp a) else map_of ?xs n) \<noteq> None" for n
      using that some [of n] by (auto split: if_splits)
  qed simp
qed

text \<open>What \<open>start\<close> and \<open>stop\<close> do in a settled proxy.\<close>

lemma start_running:
  "pi_state (w_inner w) = Running \<Longrightarrow>
   start S po it w = (Some (Inl (generic_error ALREADY_STARTED ''Proxy is already started'')), w)"
  by (simp add: start_def start_enter_def Let_def)

lemma start_enter_stopped:
  assumes "pi_state (w_inner w) = Stopped" "pi_start_notifier (w_inner w) = None"
  shows "start_enter po w =
    (StartProceed \<lparr>sj_listen = po_listen (pi_options (w_inner w)), sj_tls = po_tls (pi_options (w_inner w)),
       sj_lb_tasks = lb_tasks po (pi_pools (w_inner w)), sj_channel = length (w_start_channels w)\<rparr>,
     w\<lparr>w_inner := (w_inner w)\<lparr>pi_state := Starting, pi_listen_address := None,
                                 pi_start_notifier := Some (length (w_start_channels w))\<rparr>,
       w_start_channels := w_start_channels w @ [\<lparr>ch_value = StartPending, ch_closed = False\<rparr>]\<rparr>)"
  using assms by (simp add: start_enter_def Let_def drop_sender_def)

lemma start_setup_error:
  assumes "pi_state (w_inner w) = Stopped" "pi_start_notifier (w_inner w) = None"
    and "build_start_resources S (po_listen (pi_options (w_inner w))) (po_tls (pi_options (w_inner w))) = Inl err"
  shows "\<exists>chans. start S po it w =
    (Some (settle_deferred (Inl err)),
     w\<lparr>w_inner := (w_inner w)\<lparr>pi_state := Stopped, pi_listen_address := None, pi_start_notifier := None\<rparr>,
       w_start_channels := chans\<rparr>)"
  using assms by (auto simp add: start_def start_enter_stopped start_setup_failed_def Let_def)

lemma start_success:
  assumes "settled it w" "pi_state (w_inner w) = Stopped" "iteration po" "hm_wf (pi_pools (w_inner w))"
    and "build_start_resources S (po_listen (pi_options (w_inner w))) (po_tls (pi_options (w_inner w)))
           = Inr (fd, tls, addr)"
  shows "\<exists>chans sv. start S po it w =
    (Some (Inr ()),
     w\<lparr>w_inner := (w_inner w)\<lparr>pi_server := sv, pi_state := Running, pi_listen_address := Some addr,
                                 pi_start_notifier := None\<rparr>,
       w_start_channels := chans\<rparr>)
    \<and> order_ok it sv \<and> services_match addr (pi_pools (w_inner w)) (sv_view sv)"
proof -
  let ?sv = "upsert_service ''main_http'' (MainHttp addr) (fold (\<lambda>(n, h). upsert_service n h)
      (map (\<lambda>(n, lb). (n, LbHealth lb)) (lb_tasks po (pi_pools (w_inner w)))) (pi_server (w_inner w)))"
  from assms(1,2) have s: "order_ok it (pi_server (w_inner w))" "pi_start_notifier (w_inner w) = None"
    "sv_view (pi_server (w_inner w)) = Map.empty"
    by (auto simp: settled_def Let_def)
  have "order_ok it ?sv" using s(1) by (intro registry.upsert_ok sv_ok_fold)
  moreover have "services_match addr (pi_pools (w_inner w)) (sv_view ?sv)"
    using lb_tasks_match [OF assms(3,4) s(3)] .
  moreover have "\<exists>chans. start S po it w = (Some (Inr ()),
      w\<lparr>w_inner := (w_inner w)\<lparr>pi_server := ?sv, pi_state := Running, pi_listen_address := Some addr,
                                  pi_start_notifier := None\<rparr>,
        w_start_channels := chans\<rparr>)"
    using s(2) by (auto simp add: start_def start_enter_stopped [OF assms(2) s(2)] assms(5) Let_def fold_start_lb_task
        start_main_http_def start_finish_def send_and_drop_def wait_for_start_ready_def on_server_def on_inner_def)
  ultimately show ?thesis by blast
qed

lemma stop_stopped:
  "pi_state (w_inner w) = Stopped \<Longrightarrow>
   stop it w = (Some (Inr ()), w\<lparr>w_inner := (w_inner w)\<lparr>pi_listen_address := None\<rparr>\<rparr>)"
  by (simp add: stop_def stop_enter_def Let_def)

lemma stop_running:
  assumes "settled it w" "pi_state (w_inner w) = Running"
  shows "\<exists>chans. stop it w =
    (Some (Inr ()),
     w\<lparr>w_inner := (w_inner w)\<lparr>pi_server := stop_all it (pi_server (w_inner w)), pi_state := Stopped,
                                 pi_listen_address := None, pi_start_notifier := None, pi_stop_notifier := None\<rparr>,
       w_stop_channels := chans\<rparr>)"
proof -
  have "pi_start_notifier (w_inner w) = None" "pi_stop_notifier (w_inner w) = None"
    using assms(1) by (simp_all add: settled_def Let_def)
  with assms(2) show ?thesis
    by (simp add: stop_def stop_enter_def Let_def stop_finish_def send_and_drop_def drop_sender_def
        on_server_def on_inner_def) (rule exI, rule refl)
qed

lemma settled_running_or_stopped: "settled it w \<Longrightarrow> pi_state (w_inner w) = Running \<or> pi_state (w_inner w) = Stopped"
  by (auto simp: settled_def Let_def)

lemma start_keeps:
  assumes "settled it w" "wf_inner (w_inner w)" "iteration po"
  shows "settled it (snd (start S po it w)) \<and> wf_inner (w_inner (snd (start S po it w)))"
proof (cases "pi_state (w_inner w) = Running")
  case True
  with assms show ?thesis by (simp add: start_running)
next
  case False
  with settled_running_or_stopped [OF assms(1)] have st: "pi_state (w_inner w) = Stopped" by simp
  have n: "pi_start_notifier (w_inner w) = None" using assms(1) by (simp add: settled_def Let_def)
  have wf: "hm_wf (pi_pools (w_inner w))" using assms(2) by (simp add: wf_inner_def)
  show ?thesis
  proof (cases "build_start_resources S (po_listen (pi_options (w_inner w))) (po_tls (pi_options (w_inner w)))")
    case (Inl err)
    from start_setup_error [OF st n Inl, of po it] assms(1,2) st show ?thesis
      by (auto simp: settled_def Let_def)
  next
    case (Inr r)
    obtain fd tls addr where r: "r = (fd, tls, addr)" using prod_cases3 by blast
    from start_success [OF assms(1) st assms(3) wf Inr [unfolded r]] assms(1,2) show ?thesis
      by (auto simp: settled_def Let_def)
  qed
qed

lemma stop_keeps:
  assumes "settled it w" "wf_inner (w_inner w)"
  shows "settled it (snd (stop it w)) \<and> wf_inner (w_inner (snd (stop it w)))"
proof (cases "pi_state (w_inner w) = Running")
  case True
  have "order_ok it (stop_all it (pi_server (w_inner w)))"
    using assms(1) by (intro registry.stop_all_ok) (simp add: settled_def Let_def)
  with stop_running [OF assms(1) True] assms show ?thesis
    by (auto simp: settled_def Let_def registry.stop_all_view)
next
  case False
  with settled_running_or_stopped [OF assms(1)] assms show ?thesis
    by (auto simp: stop_stopped settled_def Let_def)
qed

section \<open>Completed calls one after the other\<close>

datatype ('fd, 'tls, 'addr, 'lb) api_call =
  CallStart "('fd, 'tls) os_lib" "'lb pool_iter"
| CallStop
| CallAdd "('addr, 'lb) update_env" string upstream_options
| CallRemove "('addr, 'lb) update_env" string upstream_options

fun api_step :: "'lb service_iter \<Rightarrow> ('fd, 'tls, 'addr, 'lb) api_call \<Rightarrow> 'lb world \<Rightarrow> 'lb world" where
  "api_step it (CallStart S po) w = snd (start S po it w)"
| "api_step it CallStop w = snd (stop it w)"
| "api_step it (CallAdd E app u) w = snd (add_upstream E app u w)"
| "api_step it (CallRemove E app u) w = snd (remove_upstream E app u w)"

definition api_run ::
    "'lb service_iter \<Rightarrow> ('fd, 'tls, 'addr, 'lb) api_call list \<Rightarrow> 'lb world \<Rightarrow> 'lb world" where
  "api_run it calls w = fold (api_step it) calls w"

text \<open>The orders a call uses are iteration orders.\<close>

fun call_ok :: "('fd, 'tls, 'addr, 'lb) api_call \<Rightarrow> bool" where
  "call_ok (CallStart S po) \<longleftrightarrow> iteration po"
| "call_ok CallStop \<longleftrightarrow> True"
| "call_ok (CallAdd E app u) \<longleftrightarrow> env_ok E"
| "call_ok (CallRemove E app u) \<longleftrightarrow> env_ok E"

lemma add_keeps:
  assumes "settled it w" "wf_inner (w_inner w)" "env_ok E"
  shows "settled it (snd (add_upstream E app u w))" "settled it (snd (remove_upstream E app u w))"
proof -
  have wf: "hm_wf current" if "updated E app current us w w'" for current us w'
    using that assms(2) by (auto simp: updated_def wf_inner_def pools_match_def split: option.splits)
  show "settled it (snd (add_upstream E app u w))"
  proof (cases "add_upstream E app u w")
    case (Pair r w')
    show ?thesis
    proof (cases r)
      case (Inl e)
      with Pair have "w' = w" by (auto simp: add_upstream_def dest: finish_update_Inl split: sum.splits)
      with Pair assms show ?thesis by simp
    next
      case (Inr x)
      with Pair have "add_upstream E app u w = (Inr (), w')" by simp
      then obtain up current where up: "updated E app current (hs_insert up current) w w'" by (rule add_upstream_Inr)
      from updated_settled [OF assms(3) hm_wf_sets(1) [OF wf [OF up]] assms(1) up] Pair show ?thesis by simp
    qed
  qed
  show "settled it (snd (remove_upstream E app u w))"
  proof (cases "remove_upstream E app u w")
    case (Pair r w')
    show ?thesis
    proof (cases r)
      case (Inl e)
      with Pair have "w' = w" by (auto simp: remove_upstream_def dest: finish_update_Inl split: sum.splits)
      with Pair assms show ?thesis by simp
    next
      case (Inr x)
      with Pair have "remove_upstream E app u w = (Inr (), w')" by simp
      then obtain up current where up: "updated E app current (hm_remove up current) w w'" by (rule remove_upstream_Inr)
      from updated_settled [OF assms(3) hm_wf_sets(2) [OF wf [OF up]] assms(1) up] Pair show ?thesis by simp
    qed
  qed
qed

lemma api_step_keeps:
  "settled it w \<Longrightarrow> wf_inner (w_inner w) \<Longrightarrow> call_ok c \<Longrightarrow>
   settled it (api_step it c w) \<and> wf_inner (w_inner (api_step it c w))"
  by (cases c) (simp_all add: start_keeps stop_keeps add_keeps add_upstream_wf remove_upstream_wf)

lemma api_run_keeps:
  "settled it w \<Longrightarrow> wf_inner (w_inner w) \<Longrightarrow> list_all call_ok cs \<Longrightarrow>
   settled it (api_run it cs w) \<and> wf_inner (w_inner (api_run it cs w))"
  by (induction cs arbitrary: w) (auto simp: api_run_def api_step_keeps)

end
