(* ===== verification/Lifecycle.thy ===== *)
theory Lifecycle
  imports Proxy_Props
begin

text \<open>
  The calls of \<open>Proxy\<close> in \<open>src/proxy.rs\<close> as they really run: each call runs its first locked
  section at once and leaves a future behind, and the futures of all pending calls take their steps
  in any order. A step is what the code does between two points where it releases a lock or
  awaits; the code of each step is the definition of \<open>Proxy\<close> for it. An update waits for the
  update lock, which one future at a time holds. A handle that was taken out of the registry is
  shut down and awaited by the future that took it (\<open>Ending\<close>), while others go on.
\<close>

section \<open>Futures\<close>

datatype update_kind = AddUpstream | RemoveUpstream

datatype 'lb task =
  StartSetup "'lb start_job"
| StartServices bound_listen_address "(string \<times> 'lb load_balancer) list" nat
| StartFinishing bound_listen_address nat
| StartUndoing string
| StartCancelling string
| StartWaiting nat
| StopWaiting "nat option"
| StopServices
| StopFinishing
| StopJoining nat
| UpdateLocking update_kind string port_upstream
| UpdateRebuilding update_kind string port_upstream "application \<times> u32 \<times> upstream_set"
| UpdateCommitting update_kind string port_upstream "'lb pool_change"
| UpdateServices "(string \<times> 'lb load_balancer) list" "string list"
| Ending "'lb service list" "'lb task"
| Done "napi_error + unit"

definition ending :: "'lb service list \<Rightarrow> 'lb task \<Rightarrow> 'lb task" where
  "ending handles t = (if handles = [] then t else Ending handles t)"

text \<open>A locked section of the registry, and what is left to do with the handles it returns.\<close>

definition on_registry ::
    "('lb service server \<Rightarrow> 'lb service list \<times> 'lb service server) \<Rightarrow> 'lb task \<Rightarrow> 'lb world \<Rightarrow> 'lb task \<times> 'lb world" where
  "on_registry f t w =
     (let (handles, sv) = f (pi_server (w_inner w)) in (ending handles t, on_server (\<lambda>_. sv) w))"

fun update_check ::
    "update_kind \<Rightarrow> string \<Rightarrow> port_upstream \<Rightarrow> 'lb proxy_inner \<Rightarrow> deferred_error + application \<times> u32 \<times> upstream_set" where
  "update_check AddUpstream app u p = add_upstream_check app u p"
| "update_check RemoveUpstream app u p = remove_upstream_check app u p"

fun update_plan ::
    "('addr, 'lb) update_env \<Rightarrow> update_kind \<Rightarrow> port_upstream \<Rightarrow> application \<times> u32 \<times> upstream_set
       \<Rightarrow> deferred_error + 'lb pool_change" where
  "update_plan E AddUpstream u snapshot = add_upstream_plan E u snapshot"
| "update_plan E RemoveUpstream u snapshot = remove_upstream_plan E u snapshot"

text \<open>The next step of a future; \<open>None\<close> while it has to wait, and when it is done.\<close>

fun task_step ::
    "('fd, 'tls) os_lib \<Rightarrow> ('addr, 'lb) update_env \<Rightarrow> 'lb service_iter \<Rightarrow> 'lb task \<Rightarrow> 'lb world
       \<Rightarrow> ('lb task \<times> 'lb world) option" where
  "task_step S E it (StartSetup job) w = Some
     (case build_start_resources S (sj_listen job) (sj_tls job) of
        Inl err \<Rightarrow> (Done (settle_deferred (Inl err)), start_setup_failed err w)
      | Inr (_, _, listen_address) \<Rightarrow> (StartServices listen_address (sj_lb_tasks job) (sj_channel job), w))"
| "task_step S E it (StartServices a ((name, lb) # tasks) c) w = Some
     (on_registry (insert_handle name (LbHealth lb)) (StartServices a tasks c) w)"
| "task_step S E it (StartServices a [] c) w = Some
     (on_registry (insert_handle ''main_http'' (MainHttp a)) (StartFinishing a c) w)"
| "task_step S E it (StartFinishing a c) w = Some
     (case start_finish a w of (Inl msg, w) \<Rightarrow> (StartUndoing msg, w) | (Inr _, w) \<Rightarrow> (StartWaiting c, w))"
| "task_step S E it (StartUndoing msg) w = Some (on_registry (take_all it) (StartCancelling msg) w)"
| "task_step S E it (StartCancelling msg) w = Some (Done (Inl (from_reason msg)), start_cancelled w)"
| "task_step S E it (StartWaiting c) w = map_option (\<lambda>r. (Done r, w)) (wait_for_start_ready c w)"
| "task_step S E it (StopWaiting None) w = Some (StopServices, w)"
| "task_step S E it (StopWaiting (Some c)) w = map_option (\<lambda>_. (StopServices, w)) (wait_for_start_ready c w)"
| "task_step S E it StopServices w = Some (on_registry (take_all it) StopFinishing w)"
| "task_step S E it StopFinishing w = Some (Done (Inr ()), stop_finish w)"
| "task_step S E it (StopJoining c) w = map_option (\<lambda>r. (Done r, w)) (wait_for_stop_ready c w)"
| "task_step S E it (UpdateLocking k app u) w = Some
     (case update_check k app u (w_inner w) of
        Inl err \<Rightarrow> (Done (settle_deferred (Inl err)), w)
      | Inr snapshot \<Rightarrow> (UpdateRebuilding k app u snapshot, w))"
| "task_step S E it (UpdateRebuilding k app u snapshot) w = Some
     (case update_plan E k u snapshot of
        Inl err \<Rightarrow> (Done (settle_deferred (Inl err)), w)
      | Inr change \<Rightarrow> (UpdateCommitting k app u change, w))"
| "task_step S E it (UpdateCommitting k app u change) w = Some
     (case commit_upstreams app change (w_inner w) of
        (Inl err, p) \<Rightarrow> (Done (settle_deferred (Inl err)), w\<lparr>w_inner := p\<rparr>)
      | (Inr services, p) \<Rightarrow>
          (if sc_running services then UpdateServices (sc_upsert services) (sc_remove services) else Done (Inr ()),
           w\<lparr>w_inner := p\<rparr>))"
| "task_step S E it (UpdateServices ((name, lb) # ups) names) w = Some
     (on_registry (insert_handle name (LbHealth lb)) (UpdateServices ups names) w)"
| "task_step S E it (UpdateServices [] (name # names)) w = Some
     (on_registry (take_handle name) (UpdateServices [] names) w)"
| "task_step S E it (UpdateServices [] []) w = Some (Done (Inr ()), w)"
| "task_step S E it (Ending [] t) w = Some (t, w)"
| "task_step S E it (Ending (h # hs) t) w = Some (ending hs t, on_server (end_service h) w)"
| "task_step S E it (Done r) w = None"

text \<open>The update lock: taken by the first step of an update, held until it is done.\<close>

fun takes_lock :: "'lb task \<Rightarrow> bool" where
  "takes_lock (UpdateLocking k app u) \<longleftrightarrow> True"
| "takes_lock _ \<longleftrightarrow> False"

fun holds_lock :: "'lb task \<Rightarrow> bool" where
  "holds_lock (UpdateRebuilding k app u s) \<longleftrightarrow> True"
| "holds_lock (UpdateCommitting k app u c) \<longleftrightarrow> True"
| "holds_lock (UpdateServices ups names) \<longleftrightarrow> True"
| "holds_lock (Ending hs t) \<longleftrightarrow> holds_lock t"
| "holds_lock _ \<longleftrightarrow> False"

section \<open>Calls\<close>

datatype 'lb call =
  IssueStart "'lb pool_iter"
| IssueStop
| IssueUpdate update_kind string upstream_options

fun enter :: "'lb call \<Rightarrow> 'lb world \<Rightarrow> 'lb task \<times> 'lb world" where
  "enter (IssueStart po) w =
     (case start_enter po w of
        (StartFail e, w) \<Rightarrow> (Done (Inl e), w)
      | (StartJoin c, w) \<Rightarrow> (StartWaiting c, w)
      | (StartProceed job, w) \<Rightarrow> (StartSetup job, w))"
| "enter IssueStop w =
     (case stop_enter w of
        (StopFail e, w) \<Rightarrow> (Done (Inl e), w)
      | (StopDone, w) \<Rightarrow> (Done (Inr ()), w)
      | (StopJoin c, w) \<Rightarrow> (StopJoining c, w)
      | (StopProceed rx, w) \<Rightarrow> (StopWaiting rx, w))"
| "enter (IssueUpdate k app opts) w =
     (case parse_port_upstream opts of
        Inl e \<Rightarrow> (Done (Inl e), w)
      | Inr u \<Rightarrow> (UpdateLocking k app u, w))"

section \<open>Interleaved runs\<close>

text \<open>
  A configuration: the proxy and the futures of all calls so far. The operating system, the
  resolver and the orders of hash maps a step meets come from the set \<open>envs\<close>.
\<close>

type_synonym 'lb config = "'lb world \<times> 'lb task list"

type_synonym ('fd, 'tls, 'addr, 'lb) envs = "(('fd, 'tls) os_lib \<times> ('addr, 'lb) update_env) set"

inductive runs :: "('fd, 'tls, 'addr, 'lb) envs \<Rightarrow> 'lb service_iter \<Rightarrow> 'lb config \<Rightarrow> 'lb config \<Rightarrow> bool"
  for envs it where
  run: "(S, E) \<in> envs \<Longrightarrow> i < length ts \<Longrightarrow> (takes_lock (ts ! i) \<Longrightarrow> \<not> list_ex holds_lock ts)
    \<Longrightarrow> task_step S E it (ts ! i) w = Some (t', w') \<Longrightarrow> runs envs it (w, ts) (w', ts[i := t'])"

inductive moves :: "('fd, 'tls, 'addr, 'lb) envs \<Rightarrow> 'lb service_iter \<Rightarrow> 'lb config \<Rightarrow> 'lb config \<Rightarrow> bool"
  for envs it where
  call: "enter c w = (t, w') \<Longrightarrow> moves envs it (w, ts) (w', ts @ [t])"
| step: "runs envs it cfg cfg' \<Longrightarrow> moves envs it cfg cfg'"

inductive reachable :: "('fd, 'tls, 'addr, 'lb) envs \<Rightarrow> 'lb service_iter \<Rightarrow> 'lb config \<Rightarrow> bool"
  for envs it where
  new: "proxy_new options = Inr w \<Longrightarrow> reachable envs it (w, [])"
| move: "reachable envs it cfg \<Longrightarrow> moves envs it cfg cfg' \<Longrightarrow> reachable envs it cfg'"

inductive_cases runsE: "runs envs it (w, ts) cfg'"
inductive_cases movesE: "moves envs it (w, ts) cfg'"

end
