(* ===== verification/Lifecycle_Props.thy ===== *)
theory Lifecycle_Props
  imports Lifecycle
begin

text \<open>
  The invariant of interleaved runs. The notifiers fit the state and the channels, every notifier
  has a future that will use it, the data of the proxy agree, and what an update has read before
  it waited is still true when it commits, because it holds the update lock.
\<close>

section \<open>The invariant\<close>

fun starting :: "nat \<Rightarrow> 'lb task \<Rightarrow> bool" where
  "starting c (StartSetup job) \<longleftrightarrow> sj_channel job = c"
| "starting c (StartServices a tasks c') \<longleftrightarrow> c' = c"
| "starting c (StartFinishing a c') \<longleftrightarrow> c' = c"
| "starting c (Ending hs t) \<longleftrightarrow> starting c t"
| "starting c _ \<longleftrightarrow> False"

fun stopping :: "'lb task \<Rightarrow> bool" where
  "stopping (StopWaiting rx) \<longleftrightarrow> True"
| "stopping StopServices \<longleftrightarrow> True"
| "stopping StopFinishing \<longleftrightarrow> True"
| "stopping (Ending hs t) \<longleftrightarrow> stopping t"
| "stopping _ \<longleftrightarrow> False"

fun next_upstreams :: "update_kind \<Rightarrow> port_upstream \<Rightarrow> upstream_set \<Rightarrow> upstream_set" where
  "next_upstreams AddUpstream u current = hs_insert u current"
| "next_upstreams RemoveUpstream u current = hm_remove u current"

definition snapshot_ok ::
    "update_kind \<Rightarrow> string \<Rightarrow> port_upstream \<Rightarrow> application \<times> u32 \<times> upstream_set \<Rightarrow> 'lb proxy_inner \<Rightarrow> bool" where
  "snapshot_ok k app u snapshot p \<longleftrightarrow>
     (case snapshot of (a, ms, current) \<Rightarrow>
        find_upstreams app p = Inr (a, current) \<and> ms = po_health_check_interval_ms (pi_options p)
        \<and> (hs_contains current u \<longleftrightarrow> k = RemoveUpstream))"

definition change_fits :: "update_kind \<Rightarrow> string \<Rightarrow> port_upstream \<Rightarrow> 'lb pool_change \<Rightarrow> 'lb proxy_inner \<Rightarrow> bool" where
  "change_fits k app u change p \<longleftrightarrow>
     (case change of (next, nps, removed) \<Rightarrow>
        (\<exists>current. hm_get (pi_upstreams_by_app p) app = Some current \<and> next = next_upstreams k u current
           \<and> (hs_contains current u \<longleftrightarrow> k = RemoveUpstream))
        \<and> hm_wf next \<and> change_ok nps removed \<and> (\<forall>t. map_of nps t = None \<longleftrightarrow> upstreams_of next t = {})
        \<and> length nps \<le> 3 \<and> length removed \<le> 3)"

fun task_ok :: "'lb world \<Rightarrow> 'lb task \<Rightarrow> bool" where
  "task_ok w (StartSetup job) \<longleftrightarrow> sj_channel job < length (w_start_channels w)"
| "task_ok w (StartServices a tasks c) \<longleftrightarrow> c < length (w_start_channels w)"
| "task_ok w (StartFinishing a c) \<longleftrightarrow> c < length (w_start_channels w)"
| "task_ok w (StartWaiting c) \<longleftrightarrow> c < length (w_start_channels w)"
| "task_ok w (StopWaiting (Some c)) \<longleftrightarrow> c < length (w_start_channels w)"
| "task_ok w (StopJoining c) \<longleftrightarrow> c < length (w_stop_channels w)"
| "task_ok w (UpdateRebuilding k app u snapshot) \<longleftrightarrow> snapshot_ok k app u snapshot (w_inner w)"
| "task_ok w (UpdateCommitting k app u change) \<longleftrightarrow> change_fits k app u change (w_inner w)"
| "task_ok w (Ending hs t) \<longleftrightarrow> task_ok w t"
| "task_ok w _ \<longleftrightarrow> True"

definition start_channels_ok :: "'lb world \<Rightarrow> bool" where
  "start_channels_ok w \<longleftrightarrow>
     (\<forall>c < length (w_start_channels w). pi_start_notifier (w_inner w) \<noteq> Some c \<longrightarrow> ch_closed (w_start_channels w ! c))
     \<and> (\<forall>c. pi_start_notifier (w_inner w) = Some c \<longrightarrow> c < length (w_start_channels w)
          \<and> w_start_channels w ! c = \<lparr>ch_value = StartPending, ch_closed = False\<rparr>)"

definition stop_channels_ok :: "'lb world \<Rightarrow> bool" where
  "stop_channels_ok w \<longleftrightarrow>
     (\<forall>c < length (w_stop_channels w). pi_stop_notifier (w_inner w) \<noteq> Some c \<longrightarrow>
        w_stop_channels w ! c = \<lparr>ch_value = StopReady, ch_closed = True\<rparr>)
     \<and> (\<forall>c. pi_stop_notifier (w_inner w) = Some c \<longrightarrow> c < length (w_stop_channels w)
          \<and> w_stop_channels w ! c = \<lparr>ch_value = StopPending, ch_closed = False\<rparr>)"

definition state_ok :: "'lb proxy_inner \<Rightarrow> bool" where
  "state_ok p \<longleftrightarrow>
     (pi_state p = Starting \<longrightarrow> pi_start_notifier p \<noteq> None)
     \<and> (pi_state p = Stopping \<longrightarrow> pi_stop_notifier p \<noteq> None)
     \<and> (pi_state p = Running \<longrightarrow> pi_listen_address p \<noteq> None)"

definition world_ok :: "'lb world \<Rightarrow> bool" where
  "world_ok w \<longleftrightarrow> state_ok (w_inner w) \<and> start_channels_ok w \<and> stop_channels_ok w \<and> wf_inner (w_inner w)"

definition awaited_ok :: "'lb config \<Rightarrow> bool" where
  "awaited_ok cfg \<longleftrightarrow>
     (\<forall>c. pi_start_notifier (w_inner (fst cfg)) = Some c \<longrightarrow> (\<exists>t\<in>set (snd cfg). starting c t))
     \<and> (pi_stop_notifier (w_inner (fst cfg)) \<noteq> None \<longrightarrow> (\<exists>t\<in>set (snd cfg). stopping t))"

definition one_holder :: "'lb task list \<Rightarrow> bool" where
  "one_holder ts \<longleftrightarrow>
     (\<forall>i<length ts. \<forall>j<length ts. holds_lock (ts ! i) \<and> holds_lock (ts ! j) \<longrightarrow> i = j)"

definition sane :: "'lb config \<Rightarrow> bool" where
  "sane cfg \<longleftrightarrow> world_ok (fst cfg) \<and> (\<forall>t\<in>set (snd cfg). task_ok (fst cfg) t) \<and> awaited_ok cfg \<and> one_holder (snd cfg)"

section \<open>What a step leaves alone\<close>

text \<open>Every step but a commit keeps the data of the proxy; channels are only ever added.\<close>

definition same_data :: "'lb world \<Rightarrow> 'lb world \<Rightarrow> bool" where
  "same_data w w' \<longleftrightarrow>
     pi_options (w_inner w') = pi_options (w_inner w)
     \<and> pi_upstreams_by_app (w_inner w') = pi_upstreams_by_app (w_inner w)
     \<and> pi_pools (w_inner w') = pi_pools (w_inner w) \<and> pi_router (w_inner w') = pi_router (w_inner w)
     \<and> length (w_start_channels w) \<le> length (w_start_channels w')
     \<and> length (w_stop_channels w) \<le> length (w_stop_channels w')"

lemma same_data_wf: "same_data w w' \<Longrightarrow> wf_inner (w_inner w') = wf_inner (w_inner w)"
  by (simp add: same_data_def wf_inner_def pools_match_def cong: option.case_cong)

lemma same_data_task: "same_data w w' \<Longrightarrow> task_ok w t \<Longrightarrow> task_ok w' t"
  by (induction w t rule: task_ok.induct)
     (auto simp: same_data_def snapshot_ok_def change_fits_def find_upstreams_def cong: option.case_cong)

lemma length_channels [simp]:
  "length (send_and_drop n v chans) = length chans" "length (drop_sender n chans) = length chans"
  by (simp_all add: send_and_drop_def drop_sender_def split: option.split)

lemmas entry_defs = start_enter_def stop_enter_def Let_def
lemmas section_defs = start_setup_failed_def start_finish_def start_cancelled_def stop_finish_def Let_def

lemma same_data_sections:
  "same_data w (start_setup_failed err w)" "same_data w (snd (start_finish a w))"
  "same_data w (start_cancelled w)" "same_data w (stop_finish w)" "same_data w (on_server f w)"
  "same_data w (snd (start_enter po w))" "same_data w (snd (stop_enter w))"
  by (simp_all add: same_data_def section_defs entry_defs split: proxy_state.split option.split)

section \<open>The notifiers\<close>

lemma nth_append_one: "c < Suc (length xs) \<Longrightarrow> (xs @ [x]) ! c = (if c < length xs then xs ! c else x)"
  by (simp add: nth_append)

lemma start_channels_cleared:
  assumes "start_channels_ok w" "pi_start_notifier (w_inner w') = None"
    and "(\<exists>v. w_start_channels w' = send_and_drop (pi_start_notifier (w_inner w)) v (w_start_channels w))
      \<or> w_start_channels w' = drop_sender (pi_start_notifier (w_inner w)) (w_start_channels w)"
  shows "start_channels_ok w'"
  using assms
  by (auto simp: start_channels_ok_def send_and_drop_def drop_sender_def nth_list_update split: option.splits)

lemma start_channels_same:
  "start_channels_ok w \<Longrightarrow> pi_start_notifier (w_inner w') = pi_start_notifier (w_inner w) \<Longrightarrow>
   w_start_channels w' = w_start_channels w \<Longrightarrow> start_channels_ok w'"
  by (simp add: start_channels_ok_def)

lemma stop_channels_same:
  "stop_channels_ok w \<Longrightarrow> pi_stop_notifier (w_inner w') = pi_stop_notifier (w_inner w) \<Longrightarrow>
   w_stop_channels w' = w_stop_channels w \<Longrightarrow> stop_channels_ok w'"
  by (simp add: stop_channels_ok_def)

lemma start_channels_new:
  assumes "start_channels_ok w" "pi_start_notifier (w_inner w') = Some (length (w_start_channels w))"
    and "w_start_channels w' = drop_sender (pi_start_notifier (w_inner w)) (w_start_channels w)
           @ [\<lparr>ch_value = StartPending, ch_closed = False\<rparr>]"
  shows "start_channels_ok w'"
proof -
  have "ch_closed (drop_sender (pi_start_notifier (w_inner w)) (w_start_channels w) ! c)"
    if "c < length (w_start_channels w)" for c
    using assms(1) that by (auto simp: start_channels_ok_def drop_sender_def nth_list_update split: option.split)
  then show ?thesis by (auto simp: start_channels_ok_def assms(2,3) nth_append)
qed

lemma stop_channels_cleared:
  assumes "stop_channels_ok w" "pi_stop_notifier (w_inner w') = None"
    and "w_stop_channels w' = send_and_drop (pi_stop_notifier (w_inner w)) StopReady (w_stop_channels w)"
  shows "stop_channels_ok w'"
  using assms by (auto simp: stop_channels_ok_def send_and_drop_def nth_list_update split: option.splits)

lemma stop_channels_new:
  assumes "stop_channels_ok w" "pi_stop_notifier (w_inner w) = None"
    and "pi_stop_notifier (w_inner w') = Some (length (w_stop_channels w))"
    and "w_stop_channels w' = w_stop_channels w @ [\<lparr>ch_value = StopPending, ch_closed = False\<rparr>]"
  shows "stop_channels_ok w'"
  using assms by (auto simp: stop_channels_ok_def nth_append)

lemma world_okI:
  "world_ok w \<Longrightarrow> same_data w w' \<Longrightarrow> state_ok (w_inner w') \<Longrightarrow> start_channels_ok w' \<Longrightarrow> stop_channels_ok w' \<Longrightarrow> world_ok w'"
  by (simp add: world_ok_def same_data_wf)

lemma world_ok_parts:
  assumes "world_ok w"
  shows "state_ok (w_inner w)" "start_channels_ok w" "stop_channels_ok w" "wf_inner (w_inner w)"
  using assms by (simp_all add: world_ok_def)

lemma start_setup_failed_ok:
  assumes "world_ok w"
  shows "world_ok (start_setup_failed err w)"
  by (intro world_okI [OF assms same_data_sections(1)] start_channels_cleared [OF world_ok_parts(2) [OF assms]]
        stop_channels_same [OF world_ok_parts(3) [OF assms]])
     (use world_ok_parts(1) [OF assms] in \<open>auto simp: section_defs state_ok_def\<close>)

lemma start_finish_ok:
  assumes "world_ok w"
  shows "world_ok (snd (start_finish a w))"
  by (intro world_okI [OF assms same_data_sections(2)] start_channels_cleared [OF world_ok_parts(2) [OF assms]]
        stop_channels_same [OF world_ok_parts(3) [OF assms]])
     (use world_ok_parts(1) [OF assms] in \<open>auto simp: section_defs state_ok_def\<close>)

lemma start_cancelled_ok:
  assumes "world_ok w"
  shows "world_ok (start_cancelled w)"
  by (intro world_okI [OF assms same_data_sections(3)] start_channels_same [OF world_ok_parts(2) [OF assms]]
        stop_channels_same [OF world_ok_parts(3) [OF assms]])
     (use world_ok_parts(1) [OF assms] in \<open>auto simp: section_defs state_ok_def\<close>)

lemma stop_finish_ok:
  assumes "world_ok w"
  shows "world_ok (stop_finish w)"
  by (intro world_okI [OF assms same_data_sections(4)] start_channels_cleared [OF world_ok_parts(2) [OF assms]]
        stop_channels_cleared [OF world_ok_parts(3) [OF assms]])
     (use world_ok_parts(1) [OF assms] in \<open>auto simp: section_defs state_ok_def\<close>)

lemma on_server_ok:
  assumes "world_ok w"
  shows "world_ok (on_server f w)"
  by (intro world_okI [OF assms same_data_sections(5)] start_channels_same [OF world_ok_parts(2) [OF assms]]
        stop_channels_same [OF world_ok_parts(3) [OF assms]])
     (use world_ok_parts(1) [OF assms] in \<open>auto simp: section_defs state_ok_def\<close>)

lemma start_enter_ok:
  assumes "world_ok w"
  shows "world_ok (snd (start_enter po w))"
proof (cases "pi_state (w_inner w) = Stopped")
  case True
  show ?thesis
    by (rule world_okI [OF assms same_data_sections(6)], simp add: True entry_defs state_ok_def,
        rule start_channels_new [OF world_ok_parts(2) [OF assms]], simp add: True entry_defs, simp add: True entry_defs,
        rule stop_channels_same [OF world_ok_parts(3) [OF assms]], simp_all add: True entry_defs)
next
  case False
  then have "snd (start_enter po w) = w" by (simp add: entry_defs split: proxy_state.split option.split)
  with assms show ?thesis by simp
qed

lemma stop_enter_ok:
  assumes "world_ok w"
  shows "world_ok (snd (stop_enter w))"
proof (cases "pi_state (w_inner w) \<in> {Starting, Running} \<and> pi_stop_notifier (w_inner w) = None")
  case True
  then show ?thesis
    by (intro world_okI [OF assms same_data_sections(7)] start_channels_same [OF world_ok_parts(2) [OF assms]]
          stop_channels_new [OF world_ok_parts(3) [OF assms]])
       (auto simp: entry_defs state_ok_def)
next
  case False
  then show ?thesis
    by (intro world_okI [OF assms same_data_sections(7)] start_channels_same [OF world_ok_parts(2) [OF assms]]
          stop_channels_same [OF world_ok_parts(3) [OF assms]])
       (use world_ok_parts(1) [OF assms] in \<open>auto simp: entry_defs state_ok_def split: proxy_state.split option.split\<close>)
qed

section \<open>The steps of the futures\<close>

lemma update_check_ok: "update_check k app u p = Inr snapshot \<Longrightarrow> snapshot_ok k app u snapshot p"
  by (cases k) (auto simp: snapshot_ok_def add_upstream_check_def remove_upstream_check_def result_inv split: if_splits)

lemma update_plan_Inr:
  assumes "update_plan E k u (a, ms, current) = Inr change"
  shows "rebuild_change E a (next_upstreams k u current) ms = Inr change"
  using assms
  by (cases k) (auto simp: add_upstream_plan_def remove_upstream_plan_def Let_def split: sum.splits if_splits)

lemma transports_at_most_three: "distinct (map fst (nps :: (transport_kind \<times> 'a) list)) \<Longrightarrow> length nps \<le> 3"
  using card_mono [OF finite subset_UNIV, of "set (map fst nps)"]
  by (simp only: distinct_card card_transports length_map)

lemma rebuild_change_removed:
  "rebuild_change E a next ms = Inr (next', nps, removed) \<Longrightarrow> length removed \<le> 3"
  by (auto simp: rebuild_change_def rebuild_app_pools_def Let_def result_inv)

lemma update_plan_fits:
  assumes "update_plan E k u snapshot = Inr change" "snapshot_ok k app u snapshot p" "env_ok E" "wf_inner p"
  shows "change_fits k app u change p"
proof -
  obtain a ms current where s: "snapshot = (a, ms, current)" by (cases snapshot) auto
  obtain us nps removed where c: "change = (us, nps, removed)" by (cases change) auto
  from assms(2) have cur: "hm_get (pi_upstreams_by_app p) app = Some current"
    and k: "hs_contains current u \<longleftrightarrow> k = RemoveUpstream"
    by (auto simp: s snapshot_ok_def dest: find_upstreams_Inr)
  have "hm_wf current" using assms(4) cur by (auto simp: wf_inner_def pools_match_def split: option.splits)
  then have wf: "hm_wf (next_upstreams k u current)" by (cases k) (simp_all add: hm_wf_sets)
  note r = update_plan_Inr [OF assms(1) [unfolded s], unfolded c]
  note ch = rebuild_change_Inr [OF assms(3) wf r]
  have "length nps \<le> 3" using ch(2) by (simp add: change_ok_def transports_at_most_three)
  with ch cur k wf rebuild_change_removed [OF r] show ?thesis by (simp add: change_fits_def c)
qed

lemma commit_fits:
  assumes "change_fits k app u change p" "wf_inner p"
  obtains services p' where "commit_upstreams app change p = (Inr services, p')"
    "wf_inner p'" "pi_state p' = pi_state p" "pi_listen_address p' = pi_listen_address p"
    "pi_start_notifier p' = pi_start_notifier p" "pi_stop_notifier p' = pi_stop_notifier p"
    "pi_server p' = pi_server p"
    "\<exists>current. hm_get (pi_upstreams_by_app p) app = Some current
       \<and> hm_get (pi_upstreams_by_app p') = (hm_get (pi_upstreams_by_app p))(app \<mapsto> next_upstreams k u current)"
    "length (sc_upsert services) \<le> 3" "length (sc_remove services) \<le> 3"
proof -
  obtain us nps removed where c: "change = (us, nps, removed)" by (cases change) auto
  with assms(1) obtain current where f: "hm_get (pi_upstreams_by_app p) app = Some current"
    "us = next_upstreams k u current" "hm_wf us" "change_ok nps removed"
    "\<And>t. map_of nps t = None \<longleftrightarrow> upstreams_of us t = {}" "length nps \<le> 3" "length removed \<le> 3"
    by (auto simp: change_fits_def)
  have "\<exists>services p'. commit_upstreams app change p = (Inr services, p')"
    by (simp add: c commit_upstreams_def f(1) case_prod_unfold Let_def)
  then obtain services p' where r: "commit_upstreams app change p = (Inr services, p')" by blast
  note ch = commit_upstreams_Inr [OF r [unfolded c] f(4)]
  have len: "length ns' \<le> length ns + length ts" if "fold (remove_pool app) ts (ns, pools) = (ns', pools')"
    for ts ns ns' and pools pools' :: "'a pool_map"
    using that by (induction ts arbitrary: ns pools) (fastforce simp: remove_pool_def split: if_splits)+
  have "length (sc_remove services) \<le> length removed"
    using r f(1) by (auto simp: c commit_upstreams_def Let_def split: prod.splits dest!: len)
  moreover have "length (sc_upsert services) = length nps" by (simp add: ch(12))
  moreover have "wf_inner p'" by (rule commit_wf [OF assms(2) r [unfolded c] f(4,3,5)])
  ultimately show ?thesis
    using that [OF r] ch(4-9) f by (simp add: hm.get_insert)
qed

lemma on_registry_eq:
  "on_registry f t w = (ending (fst (f (pi_server (w_inner w)))) t, on_server (\<lambda>_. snd (f (pi_server (w_inner w)))) w)"
  by (simp add: on_registry_def case_prod_unfold Let_def)

lemma ending_simps [simp]:
  "starting c (ending hs t) = starting c t" "stopping (ending hs t) = stopping t"
  "holds_lock (ending hs t) = holds_lock t" "task_ok w (ending hs t) = task_ok w t"
  by (simp_all add: ending_def)

definition channels_kept :: "'lb world \<Rightarrow> 'lb world \<Rightarrow> bool" where
  "channels_kept w w' \<longleftrightarrow>
     length (w_start_channels w) \<le> length (w_start_channels w') \<and> length (w_stop_channels w) \<le> length (w_stop_channels w')"

lemma same_data_channels: "same_data w w' \<Longrightarrow> channels_kept w w'"
  by (simp add: same_data_def channels_kept_def)

lemma task_ok_unlocked: "channels_kept w w' \<Longrightarrow> \<not> holds_lock t \<Longrightarrow> task_ok w t \<Longrightarrow> task_ok w' t"
  by (induction w t rule: task_ok.induct) (auto simp: channels_kept_def)

text \<open>What one step of a future keeps.\<close>

definition step_keeps :: "'lb task \<Rightarrow> 'lb world \<Rightarrow> 'lb task \<Rightarrow> 'lb world \<Rightarrow> bool" where
  "step_keeps t w t' w' \<longleftrightarrow>
     world_ok w' \<and> task_ok w' t' \<and> (same_data w w' \<or> holds_lock t \<and> channels_kept w w')
     \<and> (holds_lock t' \<longrightarrow> holds_lock t \<or> takes_lock t)
     \<and> (pi_start_notifier (w_inner w') = pi_start_notifier (w_inner w) \<and> (\<forall>c. starting c t \<longrightarrow> starting c t')
        \<or> pi_start_notifier (w_inner w') = None)
     \<and> (pi_stop_notifier (w_inner w') = pi_stop_notifier (w_inner w) \<and> (stopping t \<longrightarrow> stopping t')
        \<or> pi_stop_notifier (w_inner w') = None)"

lemma step_keeps_same:
  "world_ok w \<Longrightarrow> task_ok w t' \<Longrightarrow> (holds_lock t' \<Longrightarrow> holds_lock t \<or> takes_lock t) \<Longrightarrow>
   (\<And>c. starting c t \<Longrightarrow> starting c t') \<Longrightarrow> (stopping t \<Longrightarrow> stopping t') \<Longrightarrow> step_keeps t w t' w"
  by (auto simp: step_keeps_def same_data_def)

lemma step_keeps_server:
  "world_ok w \<Longrightarrow> task_ok w t' \<Longrightarrow> (holds_lock t' \<Longrightarrow> holds_lock t \<or> takes_lock t) \<Longrightarrow>
   (\<And>c. starting c t \<Longrightarrow> starting c t') \<Longrightarrow> (stopping t \<Longrightarrow> stopping t') \<Longrightarrow>
   step_keeps t w t' (on_server f w)"
  using same_data_task [OF same_data_sections(5)] by (auto simp: step_keeps_def same_data_sections on_server_ok)

lemma task_step_keeps:
  assumes "world_ok w" "task_ok w t" "env_ok E" "task_step S E it t w = Some (t', w')"
  shows "step_keeps t w t' w'"
proof (cases t)
  case (StartSetup job)
  show ?thesis
  proof (cases "build_start_resources S (sj_listen job) (sj_tls job)")
    case (Inl err)
    have "w' = start_setup_failed err w" "t' = Done (settle_deferred (Inl err))"
      using assms(4) by (auto simp: StartSetup Inl)
    with StartSetup show ?thesis
      by (auto simp: step_keeps_def start_setup_failed_ok [OF assms(1)] same_data_sections)
         (auto simp: section_defs)
  next
    case (Inr r)
    with assms StartSetup show ?thesis
      by (cases r) (auto intro!: step_keeps_same)
  qed
next
  case (StartServices a tasks c)
  with assms show ?thesis by (cases tasks) (auto simp: on_registry_eq intro!: step_keeps_server)
next
  case (StartFinishing a c)
  obtain r w1 where f: "start_finish a w = (r, w1)" by fastforce
  have "w' = snd (start_finish a w)" "task_ok w t'" "\<not> holds_lock t'" "\<not> stopping t"
    using assms(2,4) f by (auto simp: StartFinishing split: sum.splits)
  moreover have "pi_start_notifier (w_inner (snd (start_finish a w))) = None"
    "pi_stop_notifier (w_inner (snd (start_finish a w))) = pi_stop_notifier (w_inner w)"
    by (simp_all add: section_defs)
  ultimately show ?thesis
    using same_data_task [OF same_data_sections(2)]
    by (auto simp: step_keeps_def start_finish_ok [OF assms(1)] same_data_sections)
next
  case (StartUndoing msg)
  with assms show ?thesis by (auto simp: on_registry_eq intro!: step_keeps_server)
next
  case (StartCancelling msg)
  with assms show ?thesis
    by (auto simp: step_keeps_def start_cancelled_ok same_data_sections) (auto simp: start_cancelled_def)
next
  case (StopWaiting rx)
  with assms show ?thesis by (cases rx) (auto intro!: step_keeps_same)
next
  case StopServices
  with assms show ?thesis by (auto simp: on_registry_eq intro!: step_keeps_server)
next
  case StopFinishing
  with assms show ?thesis
    by (auto simp: step_keeps_def stop_finish_ok same_data_sections) (auto simp: section_defs)
next
  case (UpdateLocking k app u)
  with assms show ?thesis
    by (cases "update_check k app u (w_inner w)") (auto intro!: step_keeps_same dest: update_check_ok)
next
  case (UpdateRebuilding k app u snapshot)
  with assms update_plan_fits [of E k u snapshot _ app "w_inner w"] show ?thesis
    by (cases "update_plan E k u snapshot") (auto intro!: step_keeps_same simp: world_ok_def)
next
  case (UpdateCommitting k app u change)
  with assms(2) have "change_fits k app u change (w_inner w)" by simp
  then obtain services p where c: "commit_upstreams app change (w_inner w) = (Inr services, p)"
    "wf_inner p" "pi_state p = pi_state (w_inner w)" "pi_listen_address p = pi_listen_address (w_inner w)"
    "pi_start_notifier p = pi_start_notifier (w_inner w)" "pi_stop_notifier p = pi_stop_notifier (w_inner w)"
    by (rule commit_fits) (use assms(1) in \<open>auto simp: world_ok_def\<close>)
  have w': "w' = w\<lparr>w_inner := p\<rparr>" "t' = UpdateServices (sc_upsert services) (sc_remove services) \<or> t' = Done (Inr ())"
    using assms(4) by (auto simp: UpdateCommitting c(1) split: if_splits)
  have "world_ok w'"
    using assms(1) by (simp add: world_ok_def w'(1) c state_ok_def start_channels_ok_def stop_channels_ok_def)
  with w' show ?thesis by (auto simp: step_keeps_def UpdateCommitting channels_kept_def c)
next
  case (UpdateServices ups names)
  with assms show ?thesis
    by (cases ups; cases names) (auto simp: on_registry_eq intro!: step_keeps_server step_keeps_same)
next
  case (Ending hs t1)
  with assms show ?thesis by (cases hs) (auto intro!: step_keeps_server step_keeps_same)
qed (use assms in \<open>auto intro!: step_keeps_same\<close>)

section \<open>Runs keep the invariant\<close>

lemma start_enter_cases:
  obtains (fail) e where "start_enter po w = (StartFail e, w)"
    | (join) c where "start_enter po w = (StartJoin c, w)" "pi_start_notifier (w_inner w) = Some c"
    | (go) job w1 where "start_enter po w = (StartProceed job, w1)"
        "sj_channel job = length (w_start_channels w)"
        "length (w_start_channels w1) = Suc (length (w_start_channels w))"
        "pi_start_notifier (w_inner w1) = Some (length (w_start_channels w))"
        "pi_stop_notifier (w_inner w1) = pi_stop_notifier (w_inner w)"
  by (cases "pi_state (w_inner w)"; cases "pi_start_notifier (w_inner w)")
     (auto simp: entry_defs)

lemma stop_enter_cases:
  obtains (fail) e where "stop_enter w = (StopFail e, w)" "pi_state (w_inner w) = Stopping" "pi_stop_notifier (w_inner w) = None"
    | (stopped) w1 where "stop_enter w = (StopDone, w1)"
        "pi_start_notifier (w_inner w1) = pi_start_notifier (w_inner w)"
        "pi_stop_notifier (w_inner w1) = pi_stop_notifier (w_inner w)"
    | (join) c where "stop_enter w = (StopJoin c, w)" "pi_stop_notifier (w_inner w) = Some c"
    | (go) w1 where "stop_enter w = (StopProceed (pi_start_notifier (w_inner w)), w1)"
        "w_start_channels w1 = w_start_channels w"
        "pi_start_notifier (w_inner w1) = pi_start_notifier (w_inner w)"
  by (cases "pi_state (w_inner w)"; cases "pi_stop_notifier (w_inner w)") (auto simp: entry_defs)

definition enter_keeps :: "'lb world \<Rightarrow> 'lb task \<Rightarrow> 'lb world \<Rightarrow> bool" where
  "enter_keeps w t w' \<longleftrightarrow>
     world_ok w' \<and> task_ok w' t \<and> same_data w w' \<and> \<not> holds_lock t
     \<and> (pi_start_notifier (w_inner w') = pi_start_notifier (w_inner w)
        \<or> (\<exists>c. pi_start_notifier (w_inner w') = Some c \<and> starting c t))
     \<and> (pi_stop_notifier (w_inner w') = pi_stop_notifier (w_inner w) \<or> stopping t)"

lemma same_data_refl: "same_data w w"
  by (simp add: same_data_def)

lemma enter_keeps_idle: "world_ok w \<Longrightarrow> task_ok w t \<Longrightarrow> \<not> holds_lock t \<Longrightarrow> enter_keeps w t w"
  by (simp add: enter_keeps_def same_data_refl)

lemma start_call_keeps:
  assumes "world_ok w" "enter (IssueStart po) w = (t, w')"
  shows "enter_keeps w t w'"
proof (cases rule: start_enter_cases [of po w])
  case (join ch)
  with assms(2) have t: "t = StartWaiting ch" "w' = w" by simp_all
  have "ch < length (w_start_channels w)" using assms(1) join(2) by (simp add: world_ok_def start_channels_ok_def)
  with assms(1) show ?thesis by (simp add: t enter_keeps_idle)
next
  case (go job w1)
  with assms(2) have t: "t = StartSetup job" "w' = w1" by simp_all
  have "world_ok w1" "same_data w w1"
    using start_enter_ok [OF assms(1), of po] same_data_sections(6) [of w po] by (simp_all add: go(1))
  with go(2-5) show ?thesis by (simp add: enter_keeps_def t)
qed (use assms in \<open>auto intro: enter_keeps_idle\<close>)

lemma stop_call_keeps:
  assumes "world_ok w" "enter IssueStop w = (t, w')"
  shows "enter_keeps w t w'"
proof (cases rule: stop_enter_cases [of w])
  case (join ch)
  with assms(2) have t: "t = StopJoining ch" "w' = w" by simp_all
  have "ch < length (w_stop_channels w)" using assms(1) join(2) by (simp add: world_ok_def stop_channels_ok_def)
  with assms(1) show ?thesis by (simp add: t enter_keeps_idle)
next
  case (stopped w1)
  with assms(2) have t: "t = Done (Inr ())" "w' = w1" by simp_all
  have "world_ok w1" "same_data w w1"
    using stop_enter_ok [OF assms(1)] same_data_sections(7) [of w] by (simp_all add: stopped(1))
  with stopped(2,3) show ?thesis by (simp add: enter_keeps_def t)
next
  case (go w1)
  with assms(2) have t: "t = StopWaiting (pi_start_notifier (w_inner w))" "w' = w1" by simp_all
  have "world_ok w1" "same_data w w1"
    using stop_enter_ok [OF assms(1)] same_data_sections(7) [of w] by (simp_all add: go(1))
  moreover have "task_ok w1 t"
    using assms(1) by (cases "pi_start_notifier (w_inner w)") (simp_all add: t go(2) world_ok_def start_channels_ok_def)
  ultimately show ?thesis using go(3) by (simp add: enter_keeps_def t)
qed (use assms in \<open>auto intro: enter_keeps_idle\<close>)

lemma enter_keeps:
  assumes "world_ok w" "enter c w = (t, w')"
  shows "enter_keeps w t w'"
proof (cases c)
  case (IssueUpdate k app opts)
  with assms show ?thesis
    by (cases "parse_port_upstream opts") (auto intro: enter_keeps_idle)
qed (use assms start_call_keeps stop_call_keeps in blast)+

lemma sane_call:
  assumes "sane (w, ts)" "enter c w = (t, w')"
  shows "sane (w', ts @ [t])"
proof -
  have k: "enter_keeps w t w'" using assms by (auto simp: sane_def intro: enter_keeps)
  have "\<forall>t'\<in>set (ts @ [t]). task_ok w' t'"
    using k assms(1) same_data_task by (auto simp: enter_keeps_def sane_def)
  moreover have "awaited_ok (w', ts @ [t])"
    using k assms(1) by (auto simp: enter_keeps_def sane_def awaited_ok_def)
  moreover have "one_holder (ts @ [t])"
    using k assms(1) by (auto simp: enter_keeps_def sane_def one_holder_def nth_append less_Suc_eq)
  ultimately show ?thesis using k by (simp add: sane_def enter_keeps_def)
qed

lemma sane_run:
  assumes "sane (w, ts)" "i < length ts" "takes_lock (ts ! i) \<Longrightarrow> \<not> list_ex holds_lock ts"
    and "task_step S E it (ts ! i) w = Some (t', w')" "env_ok E"
  shows "sane (w', ts[i := t'])"
proof -
  have ti: "ts ! i \<in> set ts" using assms(2) by simp
  have k: "step_keeps (ts ! i) w t' w'"
    using assms(1) ti by (intro task_step_keeps [OF _ _ assms(5,4)]) (auto simp: sane_def)
  have other: "task_ok w' (ts ! j)" if "j < length ts" "j \<noteq> i" for j
  proof (cases "same_data w w'")
    case True
    with assms(1) that(1) show ?thesis by (auto simp: sane_def intro: same_data_task)
  next
    case False
    with k have h: "holds_lock (ts ! i)" "channels_kept w w'" by (auto simp: step_keeps_def)
    with assms(1,2) that have "\<not> holds_lock (ts ! j)" by (auto simp: sane_def one_holder_def)
    with h(2) assms(1) that(1) show ?thesis by (auto simp: sane_def intro: task_ok_unlocked)
  qed
  have tasks: "\<forall>t\<in>set (ts[i := t']). task_ok w' t"
  proof
    fix t assume "t \<in> set (ts[i := t'])"
    then obtain j where j: "j < length ts" "t = ts[i := t'] ! j" by (auto simp: in_set_conv_nth)
    show "task_ok w' t"
      using k other j by (cases "j = i") (simp_all add: step_keeps_def)
  qed
  have "awaited_ok (w', ts[i := t'])"
    unfolding awaited_ok_def
  proof (intro conjI allI impI; simp)
    fix c assume c: "pi_start_notifier (w_inner w') = Some c"
    with k have same: "pi_start_notifier (w_inner w) = Some c" "starting c (ts ! i) \<Longrightarrow> starting c t'"
      by (auto simp: step_keeps_def)
    with assms(1) obtain j where "j < length ts" "starting c (ts ! j)"
      by (auto simp: sane_def awaited_ok_def in_set_conv_nth)
    with same(2) have "j < length (ts[i := t']) \<and> starting c (ts[i := t'] ! j)"
      by (cases "j = i") auto
    then show "\<exists>t\<in>set (ts[i := t']). starting c t" by (meson nth_mem)
  next
    assume c: "\<exists>y. pi_stop_notifier (w_inner w') = Some y"
    with k have same: "\<exists>y. pi_stop_notifier (w_inner w) = Some y" "stopping (ts ! i) \<Longrightarrow> stopping t'"
      by (auto simp: step_keeps_def)
    with assms(1) obtain j where "j < length ts" "stopping (ts ! j)"
      by (auto simp: sane_def awaited_ok_def in_set_conv_nth)
    with same(2) have "j < length (ts[i := t']) \<and> stopping (ts[i := t'] ! j)"
      by (cases "j = i") auto
    then show "\<exists>t\<in>set (ts[i := t']). stopping t" by (meson nth_mem)
  qed
  moreover have "one_holder (ts[i := t'])"
    unfolding one_holder_def
  proof (intro allI impI)
    fix j l assume jl: "j < length (ts[i := t'])" "l < length (ts[i := t'])"
      "holds_lock (ts[i := t'] ! j) \<and> holds_lock (ts[i := t'] ! l)"
    have one: "a = b" if "a < length ts" "b < length ts" "holds_lock (ts ! a)" "holds_lock (ts ! b)" for a b
      using assms(1) that unfolding sane_def one_holder_def by simp
    have free: "\<not> holds_lock (ts ! m)" if "m < length ts" "m \<noteq> i" "holds_lock t'" for m
    proof (cases "holds_lock (ts ! i)")
      case True
      with one [OF that(1) assms(2)] that(2) show ?thesis by blast
    next
      case False
      with k that(3) have "takes_lock (ts ! i)" by (simp add: step_keeps_def)
      with assms(3) that(1) show ?thesis by (auto simp: list_ex_iff)
    qed
    show "j = l"
      using jl free [of j] free [of l] one [of j l] by (cases "j = i"; cases "l = i") simp_all
  qed
  ultimately show ?thesis using k tasks by (simp add: sane_def step_keeps_def)
qed

definition envs_ok :: "('fd, 'tls, 'addr, 'lb) envs \<Rightarrow> bool" where
  "envs_ok envs \<longleftrightarrow> (\<forall>(S, E)\<in>envs. env_ok E)"

lemma sane_runs: "runs envs it cfg cfg' \<Longrightarrow> envs_ok envs \<Longrightarrow> sane cfg \<Longrightarrow> sane cfg'"
  by (induction rule: runs.induct) (auto simp: envs_ok_def intro!: sane_run)

lemma sane_moves: "moves envs it cfg cfg' \<Longrightarrow> envs_ok envs \<Longrightarrow> sane cfg \<Longrightarrow> sane cfg'"
  by (induction rule: moves.induct) (auto intro: sane_call sane_runs)

lemma proxy_new_ok: "proxy_new options = Inr w \<Longrightarrow> world_ok w"
  using proxy_new_Inr(1) [of options w]
  by (auto simp: world_ok_def proxy_new_def Let_def result_inv state_ok_def start_channels_ok_def stop_channels_ok_def)

lemma sane_new: "proxy_new options = Inr w \<Longrightarrow> sane (w, [])"
  by (auto simp: sane_def proxy_new_ok one_holder_def awaited_ok_def)
     (auto simp: proxy_new_def Let_def result_inv)

lemma sane_reachable: "reachable envs it cfg \<Longrightarrow> envs_ok envs \<Longrightarrow> sane cfg"
  by (induction rule: reachable.induct) (auto intro: sane_new sane_moves)

text \<open>Building runs call by call and step by step.\<close>

lemma reachable_call: "reachable envs it (w, ts) \<Longrightarrow> enter c w = (t, w') \<Longrightarrow> reachable envs it (w', ts @ [t])"
  by (rule reachable.move [OF _ moves.call])

lemma reachable_run:
  "reachable envs it (w, ts) \<Longrightarrow> (S, E) \<in> envs \<Longrightarrow> i < length ts \<Longrightarrow>
   (takes_lock (ts ! i) \<Longrightarrow> \<not> list_ex holds_lock ts) \<Longrightarrow> task_step S E it (ts ! i) w = Some (t', w') \<Longrightarrow>
   reachable envs it (w', ts[i := t'])"
  by (rule reachable.move [OF _ moves.step [OF runs.run]])

end
