(* ===== verification/Lifecycle_Progress.thy ===== *)
theory Lifecycle_Progress
  imports Lifecycle_Props
begin

text \<open>
  Pending calls always finish: the steps that futures can take without a new call are bounded by
  the work they have left, and as long as a future is not done some future can take a step.
\<close>

section \<open>The work that is left\<close>

text \<open>
  A bound on the steps of a future. A registered service counts too, since a step can turn it into
  a handle that has to be awaited. An update never starts or stops more than three health checks,
  one per transport.
\<close>

fun work :: "'lb task \<Rightarrow> nat" where
  "work (StartSetup job) = 3 * length (sj_lb_tasks job) + 9"
| "work (StartServices a tasks c) = 3 * length tasks + 8"
| "work (StartFinishing a c) = 4"
| "work (StartUndoing msg) = 3"
| "work (StartCancelling msg) = 1"
| "work (StartWaiting c) = 1"
| "work (StopWaiting rx) = 4"
| "work StopServices = 3"
| "work StopFinishing = 1"
| "work (StopJoining c) = 1"
| "work (UpdateLocking k app u) = 22"
| "work (UpdateRebuilding k app u s) = 21"
| "work (UpdateCommitting k app u c) = 20"
| "work (UpdateServices ups names) = 3 * length ups + 3 * length names + 1"
| "work (Ending hs t) = length hs + work t + 1"
| "work (Done r) = 0"

definition registered :: "'lb world \<Rightarrow> nat" where
  "registered w = length (sv_services (pi_server (w_inner w)))"

definition effort :: "'lb config \<Rightarrow> nat" where
  "effort cfg = sum_list (map work (snd cfg)) + registered (fst cfg)"

lemma work_ending: "work (ending hs t) \<le> length hs + work t + 1"
  by (simp add: ending_def)

lemma registered_sections [simp]:
  "registered (start_setup_failed err w) = registered w" "registered (start_cancelled w) = registered w"
  "registered (stop_finish w) = registered w" "registered (snd (start_finish a w)) = registered w"
  "registered (on_server (end_service h) w) = registered w"
  by (simp_all add: registered_def section_defs end_service_def)

lemma length_hm_remove_less: "hm_get m k \<noteq> None \<Longrightarrow> length (hm_remove k m) < length m"
  unfolding hm_remove_def by (rule length_filter_less [of "(k, the (hm_get m k))"])
    (auto simp: hm_get_def dest: map_of_SomeD)

lemma cuts_effort:
  "length (fst (insert_handle n h sv)) + length (sv_services (snd (insert_handle n h sv))) \<le> length (sv_services sv) + 1"
  "length (fst (insert_handle n h sv)) \<le> 1"
  "length (fst (take_handle n sv)) + length (sv_services (snd (take_handle n sv))) \<le> length (sv_services sv)"
  "iteration it \<Longrightarrow>
   length (fst (take_all it sv)) + length (sv_services (snd (take_all it sv))) \<le> length (sv_services sv)"
proof -
  show "length (fst (insert_handle n h sv)) + length (sv_services (snd (insert_handle n h sv))) \<le> length (sv_services sv) + 1"
    "length (fst (insert_handle n h sv)) \<le> 1"
    by (auto simp: insert_handle_def length_hm_insert split: option.split)
  show "length (fst (take_handle n sv)) + length (sv_services (snd (take_handle n sv))) \<le> length (sv_services sv)"
    using length_hm_remove_less [of "sv_services sv" n]
    by (cases "hm_get (sv_services sv) n") (simp_all add: take_handle_def hm_remove_def)
  show "length (fst (take_all it sv)) + length (sv_services (snd (take_all it sv))) \<le> length (sv_services sv)"
    if "iteration it"
    using that by (simp add: take_all_def hm_empty_def iteration_def) (metis order_refl size_mset)
qed

lemma on_registry_effort:
  assumes "on_registry f t w = (t', w')"
    and "length (fst (f (pi_server (w_inner w)))) + length (sv_services (snd (f (pi_server (w_inner w)))))
      \<le> length (sv_services (pi_server (w_inner w))) + d"
  shows "work t' + registered w' \<le> work t + registered w + d + 1"
  using assms work_ending [of "fst (f (pi_server (w_inner w)))" t]
  by (auto simp: on_registry_eq registered_def)

lemma task_step_effort:
  assumes "wf_inner (w_inner w)" "task_ok w t" "iteration it" "task_step S E it t w = Some (t', w')"
  shows "work t' + registered w' < work t + registered w"
proof -
  show ?thesis
  proof (cases t)
    case (StartSetup job)
    with assms(4) show ?thesis
      by (cases "build_start_resources S (sj_listen job) (sj_tls job)") auto
  next
    case (StartServices a tasks c)
    show ?thesis
    proof (cases tasks)
      case Nil
      with assms(4) StartServices have "on_registry (insert_handle ''main_http'' (MainHttp a)) (StartFinishing a c) w = (t', w')"
        by simp
      from on_registry_effort [OF this, of 1] cuts_effort(1) Nil StartServices show ?thesis by fastforce
    next
      case (Cons x xs)
      with assms(4) StartServices have
        "on_registry (insert_handle (fst x) (LbHealth (snd x))) (StartServices a xs c) w = (t', w')"
        by (cases x) simp
      from on_registry_effort [OF this, of 1] cuts_effort(1) Cons StartServices show ?thesis by fastforce
    qed
  next
    case (StartFinishing a c)
    obtain r w1 where f: "start_finish a w = (r, w1)" by fastforce
    with registered_sections(4) [of a w] have "registered w1 = registered w" by simp
    with assms(4) f StartFinishing show ?thesis by (cases r) auto
  next
    case (StartUndoing msg)
    with assms(4) have "on_registry (take_all it) (StartCancelling msg) w = (t', w')" by simp
    from on_registry_effort [OF this, of 0] cuts_effort(4) [OF assms(3)] StartUndoing show ?thesis by simp
  next
    case StopServices
    with assms(4) have "on_registry (take_all it) StopFinishing w = (t', w')" by simp
    from on_registry_effort [OF this, of 0] cuts_effort(4) [OF assms(3)] StopServices show ?thesis by simp
  next
    case (StopWaiting rx)
    with assms(4) show ?thesis by (cases rx) auto
  next
    case (UpdateLocking k app u)
    with assms(4) show ?thesis by (cases "update_check k app u (w_inner w)") auto
  next
    case (UpdateRebuilding k app u snapshot)
    with assms(4) show ?thesis by (cases "update_plan E k u snapshot") auto
  next
    case (UpdateCommitting k app u change)
    with assms(2) have "change_fits k app u change (w_inner w)" by simp
    then obtain services p where c: "commit_upstreams app change (w_inner w) = (Inr services, p)"
      "pi_server p = pi_server (w_inner w)" "length (sc_upsert services) \<le> 3" "length (sc_remove services) \<le> 3"
      by (rule commit_fits) (use assms(1) in auto)
    with assms(4) UpdateCommitting show ?thesis by (auto simp: registered_def split: if_splits)
  next
    case (UpdateServices ups names)
    show ?thesis
    proof (cases ups)
      case (Cons x xs)
      with assms(4) UpdateServices have
        "on_registry (insert_handle (fst x) (LbHealth (snd x))) (UpdateServices xs names) w = (t', w')"
        by (cases x) simp
      from on_registry_effort [OF this, of 1] cuts_effort(1) Cons UpdateServices show ?thesis by fastforce
    next
      case Nil
      show ?thesis
      proof (cases names)
        case (Cons n ns)
        with assms(4) UpdateServices Nil have "on_registry (take_handle n) (UpdateServices [] ns) w = (t', w')" by simp
        from on_registry_effort [OF this, of 0] cuts_effort(3) Cons Nil UpdateServices show ?thesis by fastforce
      qed (use assms(4) UpdateServices Nil in auto)
    qed
  next
    case (Ending hs t1)
    with assms(4) work_ending [of _ t1] show ?thesis by (cases hs) (auto simp: ending_def)
  qed (use assms(4) in auto)
qed

lemma runs_effort:
  assumes "runs envs it cfg cfg'" "sane cfg" "iteration it"
  shows "effort cfg' < effort cfg"
  using assms
proof (induction rule: runs.induct)
  case (run S E i ts w t' w')
  have "ts ! i \<in> set ts" using run.hyps(2) by simp
  then have "work t' + registered w' < work (ts ! i) + registered w"
    using run by (intro task_step_effort [OF _ _ run.prems(2) run.hyps(4)]) (auto simp: sane_def world_ok_def)
  moreover have "sum_list (map work (ts[i := t'])) + work (ts ! i) = sum_list (map work ts) + work t'"
    using run.hyps(2) elem_le_sum_list [of i "map work ts"] by (simp add: map_update sum_list_update)
  ultimately show ?case by (simp add: effort_def)
qed

lemma runs_bounded:
  assumes "(runs envs it ^^ n) cfg cfg'" "sane cfg" "iteration it" "envs_ok envs"
  shows "n + effort cfg' \<le> effort cfg \<and> sane cfg'"
  using assms(1)
proof (induction n arbitrary: cfg')
  case (Suc n)
  then obtain mid where m: "(runs envs it ^^ n) cfg mid" "runs envs it mid cfg'" by auto
  from Suc.IH [OF m(1)] runs_effort [OF m(2) _ assms(3)] sane_runs [OF m(2) assms(4)] show ?case by simp
qed (use assms(2) in simp)

section \<open>No future waits for ever\<close>

lemma task_step_None:
  "task_step S E it t w = None \<longleftrightarrow>
   (\<exists>r. t = Done r)
   \<or> (\<exists>c. (t = StartWaiting c \<or> t = StopWaiting (Some c)) \<and> wait_for_start_ready c w = None)
   \<or> (\<exists>c. t = StopJoining c \<and> wait_for_stop_ready c w = None)"
  by (cases "(S, E, it, t, w)" rule: task_step.cases) simp_all

lemma wait_start_None:
  "start_channels_ok w \<Longrightarrow> c < length (w_start_channels w) \<Longrightarrow> wait_for_start_ready c w = None \<Longrightarrow>
   pi_start_notifier (w_inner w) = Some c"
  by (auto simp: start_channels_ok_def wait_for_start_ready_def Let_def
      split: start_status.splits sum.splits if_splits)

lemma wait_stop_None:
  "stop_channels_ok w \<Longrightarrow> c < length (w_stop_channels w) \<Longrightarrow> wait_for_stop_ready c w = None \<Longrightarrow>
   pi_stop_notifier (w_inner w) = Some c"
  by (cases "pi_stop_notifier (w_inner w) = Some c")
     (auto simp: stop_channels_ok_def wait_for_stop_ready_def Let_def)

lemma starting_steps: "starting c t \<Longrightarrow> task_step S E it t w \<noteq> None \<and> \<not> takes_lock t"
  by (cases t) (auto simp: task_step_None)

lemma holder_steps: "holds_lock t \<Longrightarrow> task_step S E it t w \<noteq> None \<and> \<not> takes_lock t"
  by (cases t) (auto simp: task_step_None)

lemma some_future_steps:
  assumes "sane (w, ts)" "t \<in> set ts" "\<forall>r. t \<noteq> Done r"
  shows "\<exists>t'\<in>set ts. task_step S E it t' w \<noteq> None \<and> (takes_lock t' \<longrightarrow> \<not> list_ex holds_lock ts)"
proof -
  from assms(1) have w: "start_channels_ok w" "stop_channels_ok w" and ok: "\<And>t. t \<in> set ts \<Longrightarrow> task_ok w t"
    and start: "\<And>c. pi_start_notifier (w_inner w) = Some c \<Longrightarrow> \<exists>t\<in>set ts. starting c t"
    and stop: "pi_stop_notifier (w_inner w) \<noteq> None \<Longrightarrow> \<exists>t\<in>set ts. stopping t"
    by (auto simp: sane_def world_ok_def awaited_ok_def)
  let ?goal = "\<exists>t'\<in>set ts. task_step S E it t' w \<noteq> None \<and> (takes_lock t' \<longrightarrow> \<not> list_ex holds_lock ts)"
  have start_goal: ?goal if "c < length (w_start_channels w)" "wait_for_start_ready c w = None" for c
    using start [OF wait_start_None [OF w(1) that]] starting_steps by blast
  have go: ?goal if "t' \<in> set ts" "\<forall>r. t' \<noteq> Done r" "\<forall>c. t' \<noteq> StopJoining c" for t'
  proof (cases "task_step S E it t' w")
    case None
    with that(2,3) obtain c where "t' = StartWaiting c \<or> t' = StopWaiting (Some c)" "wait_for_start_ready c w = None"
      by (auto simp: task_step_None)
    with ok [OF that(1)] start_goal show ?thesis by auto
  next
    case Some
    show ?thesis
    proof (cases "list_ex holds_lock ts")
      case True
      then obtain x where "x \<in> set ts" "holds_lock x" by (auto simp: list_ex_iff)
      with holder_steps [of x S E it w] show ?thesis by (intro bexI [of _ x]) auto
    next
      case False
      with Some that(1) show ?thesis by (intro bexI [of _ t']) auto
    qed
  qed
  show ?thesis
  proof (cases "\<exists>c. t = StopJoining c")
    case False
    with go [OF assms(2,3)] show ?thesis by blast
  next
    case True
    then obtain c where c: "t = StopJoining c" by blast
    show ?thesis
    proof (cases "wait_for_stop_ready c w")
      case None
      with ok [OF assms(2)] wait_stop_None [OF w(2)] stop obtain t' where "t' \<in> set ts" "stopping t'"
        by (auto simp: c)
      moreover have "\<forall>r. t' \<noteq> Done r" "\<forall>c. t' \<noteq> StopJoining c" using \<open>stopping t'\<close> by auto
      ultimately show ?thesis using go [of t'] by blast
    next
      case (Some r)
      with c assms(2) show ?thesis by (intro bexI [of _ t]) auto
    qed
  qed
qed

lemma stuck_is_done:
  assumes "sane (w, ts)" "envs \<noteq> {}" "\<And>cfg. \<not> runs envs it (w, ts) cfg" "t \<in> set ts"
  shows "\<exists>r. t = Done r"
proof (rule ccontr)
  assume "\<nexists>r. t = Done r"
  then have nd: "\<forall>r. t \<noteq> Done r" by blast
  obtain S E where e: "(S, E) \<in> envs" using assms(2) by (metis equals0I surj_pair)
  obtain t' where t': "t' \<in> set ts" "task_step S E it t' w \<noteq> None" "takes_lock t' \<Longrightarrow> \<not> list_ex holds_lock ts"
    using some_future_steps [OF assms(1,4) nd] by blast
  obtain i where i: "i < length ts" "ts ! i = t'" using t'(1) by (auto simp: in_set_conv_nth)
  obtain t2 w2 where "task_step S E it (ts ! i) w = Some (t2, w2)" using t'(2) i(2) by auto
  with runs.run [OF e i(1)] t'(3) i(2) assms(3) show False by blast
qed

end
