(* ===== verification/Eviction_Props.thy ===== *)
theory Eviction_Props
  imports Eviction
begin

text \<open>
  What the eviction loop does to the locked shard maps: it removes exactly as many entries as
  there are too many, the ones that expire first, and the last-resort loop never runs.
\<close>

section \<open>The live entries of the locked shards\<close>

text \<open>Where an entry lives, its key and its expiry.\<close>

definition place :: "eviction_item \<Rightarrow> nat \<times> affinity_map_key \<times> instant" where
  "place x = (ei_shard_index x, ei_key x, ei_expires_at x)"

fun live_from :: "nat \<Rightarrow> shard_map list \<Rightarrow> (nat \<times> affinity_map_key \<times> instant) multiset" where
  "live_from i [] = {#}"
| "live_from i (es # gs) =
     image_mset (\<lambda>(k, e). (i, k, ae_expires_at e)) (mset es) + live_from (Suc i) gs"

lemma size_live_from: "size (live_from i gs) = sum_list (map length gs)"
  by (induction gs arbitrary: i) auto

lemma in_live_from:
  "(j, k, x) \<in># live_from i gs \<longleftrightarrow>
     i \<le> j \<and> j < i + length gs \<and> (\<exists>e. (k, e) \<in> set (gs ! (j - i)) \<and> ae_expires_at e = x)"
proof (induction gs arbitrary: i)
  case (Cons es gs)
  show ?case
  proof (cases "j = i")
    case True
    have "(i, k, x) \<notin># live_from (Suc i) gs" using Cons.IH [of "Suc i"] True by simp
    with True show ?thesis by force
  next
    case False
    then have "i < j \<Longrightarrow> (es # gs) ! (j - i) = gs ! (j - Suc i)" by (simp add: nth_Cons')
    with False show ?thesis by (auto simp: Cons.IH Suc_le_eq)
  qed
qed simp

lemma mset_hm_remove:
  "hm_wf m \<Longrightarrow> hm_get m k = Some v \<Longrightarrow> mset m = add_mset (k, v) (mset (hm_remove k m))"
proof (induction m)
  case (Cons p m)
  show ?case
  proof (cases "fst p = k")
    case True
    with Cons.prems have p: "p = (k, v)" by (cases p) (simp add: hm_get_def)
    from Cons.prems(1) True have "\<forall>q\<in>set m. fst q \<noteq> k"
      by (simp add: hm_wf_def) (metis image_eqI)
    with p show ?thesis by (simp add: hm_remove_def filter_id_conv)
  next
    case False
    with Cons show ?thesis by (cases p) (auto simp: hm_get_def hm_wf_def hm_remove_def)
  qed
qed (simp add: hm_get_def)

lemma live_from_remove:
  "j < length gs \<Longrightarrow> hm_wf (gs ! j) \<Longrightarrow> hm_get (gs ! j) k = Some e \<Longrightarrow>
   live_from i gs = add_mset (i + j, k, ae_expires_at e) (live_from i (gs[j := hm_remove k (gs ! j)]))"
proof (induction gs arbitrary: i j)
  case (Cons es gs)
  show ?case
  proof (cases j)
    case 0
    with Cons.prems mset_hm_remove [of es k e] show ?thesis by simp
  next
    case (Suc j')
    with Cons.prems Cons.IH [of j' "Suc i"] show ?thesis by simp
  qed
qed simp

section \<open>The candidates\<close>

lemma push_entries_places:
  "image_mset place (mset (fst (push_entries i es (h, n)))) =
     image_mset (\<lambda>(k, e). (i, k, ae_expires_at e)) (mset es) + image_mset place (mset h)"
  by (induction i es "(h, n)" arbitrary: h n rule: push_entries.induct)
     (simp_all add: heap.items_push place_def)

lemma push_entries_sorted: "heap_sorted h \<Longrightarrow> heap_sorted (fst (push_entries i es (h, n)))"
  by (induction i es "(h, n)" arbitrary: h n rule: push_entries.induct) (auto intro: heap.inv_push)

lemma push_shards_places:
  assumes "iteration it"
  shows "image_mset place (mset (fst (push_shards it i gs (h, n)))) =
           live_from i gs + image_mset place (mset h)"
proof (induction gs arbitrary: i h n)
  case (Cons es gs)
  obtain h' n' where p: "push_entries i (it es) (h, n) = (h', n')" by fastforce
  with push_entries_places [of i "it es" h n] assms
  have "image_mset place (mset h') =
      image_mset (\<lambda>(k, e). (i, k, ae_expires_at e)) (mset es) + image_mset place (mset h)"
    by (simp add: iteration_def)
  with p Cons.IH [of "Suc i" h' n'] show ?case by simp
qed simp

lemma push_shards_sorted: "heap_sorted h \<Longrightarrow> heap_sorted (fst (push_shards it i gs (h, n)))"
proof (induction gs arbitrary: i h n)
  case (Cons es gs)
  obtain h' n' where p: "push_entries i (it es) (h, n) = (h', n')" by fastforce
  with push_entries_sorted [OF Cons.prems, of i "it es" n] have "heap_sorted h'" by simp
  with Cons.IH p show ?case by simp
qed simp

lemma candidates_places:
  "iteration it \<Longrightarrow> image_mset place (mset (eviction_candidates it gs)) = live_from 0 gs"
  by (simp add: eviction_candidates_def push_shards_places heap.items_empty)

lemma candidates_sorted: "heap_sorted (eviction_candidates it gs)"
  by (simp add: eviction_candidates_def push_shards_sorted heap.inv_empty)

lemma length_candidates:
  "iteration it \<Longrightarrow> length (eviction_candidates it gs) = sum_list (map length gs)"
  by (metis candidates_places size_image_mset size_live_from size_mset)

section \<open>The eviction loop\<close>

definition submap :: "shard_map \<Rightarrow> shard_map \<Rightarrow> bool" where
  "submap g' g \<longleftrightarrow> (\<exists>P. g' = filter P g)"

lemma submap_refl [simp]: "submap g g"
  unfolding submap_def by (rule exI [of _ "\<lambda>_. True"]) simp

lemma submap_trans: "submap a b \<Longrightarrow> submap b c \<Longrightarrow> submap a c"
  unfolding submap_def by (metis filter_filter)

lemma submap_remove: "submap (hm_remove k g) g"
  unfolding submap_def hm_remove_def by blast

lemma submap_set: "submap g' g \<Longrightarrow> set g' \<subseteq> set g"
  by (auto simp: submap_def)

lemma submap_wf: "submap g' g \<Longrightarrow> hm_wf g \<Longrightarrow> hm_wf g'"
  by (auto simp: submap_def hm_wf_filter)

lemma submaps_remove: "list_all2 submap (gs[j := hm_remove k (gs ! j)]) gs"
proof (cases "j < length gs")
  case True
  then show ?thesis by (auto simp: list_all2_conv_all_nth nth_list_update submap_remove)
qed (simp add: list_update_beyond list_all2_refl)

lemma submaps_trans: "list_all2 submap as bs \<Longrightarrow> list_all2 submap bs cs \<Longrightarrow> list_all2 submap as cs"
  by (rule list_all2_trans [OF submap_trans])

lemma submaps_wf: "list_all2 submap gs' gs \<Longrightarrow> \<forall>g\<in>set gs. hm_wf g \<Longrightarrow> \<forall>g\<in>set gs'. hm_wf g"
  by (auto simp: list_all2_conv_all_nth in_set_conv_nth) (metis nth_mem submap_wf)

text \<open>
  Every candidate the loop pops is still current, so each iteration removes one entry, and the
  heap and the maps keep agreeing.
\<close>

lemma evict_loop_spec:
  assumes "image_mset place (mset h) = live_from 0 gs"
    and "\<forall>g\<in>set gs. hm_wf g"
    and "removed \<le> overflow" and "overflow - removed \<le> length h"
  shows "\<exists>gs' xs h'. evict_loop overflow removed h gs = (gs', overflow)
           \<and> pops heap_pop h xs h' \<and> length xs = overflow - removed
           \<and> image_mset place (mset h') = live_from 0 gs' \<and> list_all2 submap gs' gs"
  using assms
proof (induction "overflow - removed" arbitrary: removed h gs)
  case 0
  then have "evict_loop overflow removed h gs = (gs, overflow)"
    by (subst evict_loop.simps) simp
  with 0 show ?case by (force intro: pops_Nil list_all2_refl)
next
  case (Suc d)
  from Suc.hyps(2) Suc.prems(4) have "mset h \<noteq> {#}" by auto
  then obtain x h' where pop: "heap_pop h = Some (x, h')" using heap.pop_progress by blast
  define i k where "i = ei_shard_index x" and "k = ei_key x"
  have items: "mset h = add_mset x (mset h')" using pop by (rule heap.pop_items)
  then have "place x \<in># live_from 0 gs" using Suc.prems(1) by (metis image_mset_add_mset union_single_eq_member)
  then obtain e where i: "i < length gs" and e: "(k, e) \<in> set (gs ! i)" "ae_expires_at e = ei_expires_at x"
    by (auto simp: place_def in_live_from i_def k_def)
  with Suc.prems(2) have wf: "hm_wf (gs ! i)" by simp
  with e(1) have get: "hm_get (gs ! i) k = Some e" by (simp add: hm_get_Some_iff)
  define gs1 where "gs1 = gs[i := hm_remove k (gs ! i)]"
  have lt: "removed < overflow" using Suc.hyps(2) by linarith
  have step: "evict_loop overflow removed h gs = evict_loop overflow (removed + 1) h' gs1"
    using lt pop i get e(2)
    by (simp add: evict_loop.simps [of overflow removed h gs] gs1_def Let_def flip: i_def k_def)
  have live: "image_mset place (mset h') = live_from 0 gs1"
  proof -
    have "add_mset (place x) (image_mset place (mset h')) = live_from 0 gs"
      using Suc.prems(1) items by simp
    also have "\<dots> = add_mset (place x) (live_from 0 gs1)"
      using live_from_remove [OF i wf get, of 0] e(2)
      by (simp add: gs1_def place_def i_def k_def)
    finally show ?thesis by simp
  qed
  have sub: "list_all2 submap gs1 gs" by (simp add: gs1_def submaps_remove)
  then have "\<forall>g\<in>set gs1. hm_wf g" using Suc.prems(2) by (rule submaps_wf)
  moreover have "d = overflow - (removed + 1)" "removed + 1 \<le> overflow" using Suc.hyps(2) by auto
  moreover have "overflow - (removed + 1) \<le> length h'"
    using Suc.prems(4) arg_cong [OF items, of size] by simp
  ultimately obtain gs' xs h'' where IH:
    "evict_loop overflow (removed + 1) h' gs1 = (gs', overflow)" "pops heap_pop h' xs h''"
    "length xs = overflow - (removed + 1)" "image_mset place (mset h'') = live_from 0 gs'"
    "list_all2 submap gs' gs1"
    using Suc.hyps(1) [of "removed + 1" h' gs1] live by blast
  have "pops heap_pop h (x # xs) h''" using pop IH(2) by (rule pops_Cons)
  moreover have "length (x # xs) = overflow - removed" using IH(3) Suc.hyps(2) by simp
  moreover have "list_all2 submap gs' gs" using IH(5) sub by (rule submaps_trans)
  ultimately show ?case using step IH(1,4) by metis
qed

section \<open>The whole body\<close>

definition retained :: "instant \<Rightarrow> shard_map list \<Rightarrow> shard_map list" where
  "retained now gs = map (hm_retain (\<lambda>_ entry. now < ae_expires_at entry)) gs"

lemma retained_wf: "\<forall>g\<in>set gs. hm_wf g \<Longrightarrow> \<forall>g\<in>set (retained now gs). hm_wf g"
  by (auto simp: retained_def intro: hm.wf_retain)

lemma retained_submap: "list_all2 submap (retained now gs) gs"
  by (auto simp: retained_def list_all2_conv_all_nth hm_retain_def submap_def)

text \<open>
  The body removes the expired entries and then, when there are too many left, exactly the
  excess, taken from the front of the candidates. The last-resort loop is not reached.
\<close>

lemma cleanup_guards_spec:
  assumes "iteration it" and "\<forall>g\<in>set gs. hm_wf g"
  shows "\<exists>xs h'. pops heap_pop (eviction_candidates it (retained now gs)) xs h'
           \<and> length xs = sum_list (map length (retained now gs)) - max_entries
           \<and> image_mset place (mset h') = live_from 0 (cleanup_guards it max_entries now gs)
           \<and> list_all2 submap (cleanup_guards it max_entries now gs) (retained now gs)"
proof -
  let ?r = "retained now gs" and ?n = "sum_list (map length (retained now gs))"
  let ?h = "eviction_candidates it ?r"
  have places: "image_mset place (mset ?h) = live_from 0 ?r"
    using assms(1) by (rule candidates_places)
  show ?thesis
  proof (cases "?n \<le> max_entries")
    case True
    then have "cleanup_guards it max_entries now gs = ?r"
      by (simp add: cleanup_guards_def retained_def [symmetric] Let_def)
    with True places show ?thesis
      by (intro exI [of _ "[]"] exI [of _ ?h]) (simp add: pops_Nil list_all2_refl)
  next
    case False
    have "?n - max_entries - 0 \<le> length ?h" by (simp add: length_candidates [OF assms(1)])
    then obtain gs' xs h' where e: "evict_loop (?n - max_entries) 0 ?h ?r = (gs', ?n - max_entries)"
      "pops heap_pop ?h xs h'" "length xs = ?n - max_entries - 0"
      "image_mset place (mset h') = live_from 0 gs'" "list_all2 submap gs' ?r"
      using evict_loop_spec [OF places retained_wf [OF assms(2)], of 0 "?n - max_entries"] by auto
    from False e(1) have "cleanup_guards it max_entries now gs = gs'"
      by (simp add: cleanup_guards_def retained_def [symmetric] Let_def)
    with e show ?thesis by auto
  qed
qed

lemma cleanup_guards_count:
  assumes "iteration it" and "\<forall>g\<in>set gs. hm_wf g"
  shows "sum_list (map length (cleanup_guards it max_entries now gs)) =
           min (sum_list (map length (retained now gs))) max_entries"
proof -
  let ?h = "eviction_candidates it (retained now gs)"
  from cleanup_guards_spec [OF assms] obtain xs h' where
    p: "pops heap_pop ?h xs h'" "length xs = sum_list (map length (retained now gs)) - max_entries"
      "image_mset place (mset h') = live_from 0 (cleanup_guards it max_entries now gs)" by blast
  from heap.pops_items [OF p(1)] have "length ?h = length xs + length h'"
    by (metis size_mset size_union)
  moreover have "length h' = sum_list (map length (cleanup_guards it max_entries now gs))"
    using arg_cong [OF p(3), of size] by (simp add: size_live_from)
  ultimately show ?thesis using p(2) length_candidates [OF assms(1)] by simp
qed

text \<open>An entry that was evicted although it had not expired expires no later than any survivor.\<close>

lemma cleanup_guards_order:
  assumes "iteration it" and "\<forall>g\<in>set gs. hm_wf g"
    and "i < length gs" "(k, e) \<in> set (retained now gs ! i)"
    and "(k, e) \<notin> set (cleanup_guards it max_entries now gs ! i)"
    and "j < length gs" "(k', e') \<in> set (cleanup_guards it max_entries now gs ! j)"
  shows "ae_expires_at e \<le> ae_expires_at e'"
proof -
  let ?r = "retained now gs" and ?g = "cleanup_guards it max_entries now gs"
  let ?h = "eviction_candidates it ?r"
  from cleanup_guards_spec [OF assms(1,2)] obtain xs h' where
    p: "pops heap_pop ?h xs h'" "image_mset place (mset h') = live_from 0 ?g"
       "list_all2 submap ?g ?r" by blast
  have len: "length ?r = length gs" "length ?g = length gs"
    using list_all2_lengthD [OF p(3)] by (simp_all add: retained_def)
  have "(i, k, ae_expires_at e) \<notin># live_from 0 ?g"
  proof
    assume "(i, k, ae_expires_at e) \<in># live_from 0 ?g"
    then obtain e2 where e2: "(k, e2) \<in> set (?g ! i)" by (auto simp: in_live_from)
    with p(3) assms(3) len have "(k, e2) \<in> set (?r ! i)"
      using submap_set by (auto simp: list_all2_conv_all_nth)
    moreover have "hm_wf (?r ! i)"
      using retained_wf [OF assms(2), of now] assms(3) len(1) nth_mem by metis
    ultimately have "e2 = e" using assms(4) by (metis hm_get_Some_iff option.inject)
    with e2 assms(5) show False by simp
  qed
  moreover have "(i, k, ae_expires_at e) \<in># live_from 0 ?r"
    using assms(3,4) len by (auto simp: in_live_from)
  moreover have "live_from 0 ?r = image_mset place (mset xs) + live_from 0 ?g"
    using candidates_places [OF assms(1), of ?r] heap.pops_items [OF p(1)] p(2) by simp
  ultimately obtain x where x: "x \<in> set xs" "place x = (i, k, ae_expires_at e)" by auto
  have "(j, k', ae_expires_at e') \<in># image_mset place (mset h')"
    using assms(6,7) len by (auto simp: p(2) in_live_from)
  then obtain y where y: "y \<in># mset h'" "place y = (j, k', ae_expires_at e')" by auto
  from heap.pops_min [OF p(1) candidates_sorted x(1) y(1)] have "eviction_rank x \<le> eviction_rank y" .
  with x(2) y(2) show ?thesis by (auto simp: eviction_rank_def place_def less_eq_prod_def)
qed

end
