(* ===== verification/Sticky_Props.thy ===== *)
theory Sticky_Props
  imports Sticky Eviction_Props
begin

text \<open>
  Lemmas on the sticky session store: what a global cleanup does to the shards and to the entry
  of one key, and what each operation does to the invariant, to the binding of its own key and to
  the bindings of other keys.
\<close>

section \<open>Locked shards\<close>

definition shard_le :: "sticky_shard \<Rightarrow> sticky_shard \<Rightarrow> bool" where
  "shard_le s' s \<longleftrightarrow>
     op_counter s' = op_counter s \<and> poisoned s' = poisoned s \<and> submap (entries s') (entries s)"

lemma lock_guards_simps [simp]:
  "lock_guards [] = []"
  "lock_guards (s # ss) = (if poisoned s then lock_guards ss else entries s # lock_guards ss)"
  by (simp_all add: lock_guards_def)

lemma write_back_rel:
  "list_all2 submap gs (lock_guards ss) \<Longrightarrow> list_all2 shard_le (write_back ss gs) ss"
proof (induction ss arbitrary: gs)
  case (Cons s ss)
  then show ?case
    by (cases "poisoned s") (auto simp: shard_le_def list_all2_Cons2)
qed simp

lemma lock_guards_write_back:
  "length gs = length (lock_guards ss) \<Longrightarrow> lock_guards (write_back ss gs) = gs"
  by (induction ss arbitrary: gs) (auto split: list.splits if_splits)

definition guard_index :: "sticky_shard list \<Rightarrow> nat \<Rightarrow> nat" where
  "guard_index ss i = length (lock_guards (take i ss))"

lemma guard_nth:
  "i < length ss \<Longrightarrow> \<not> poisoned (ss ! i) \<Longrightarrow>
   guard_index ss i < length (lock_guards ss) \<and> lock_guards ss ! guard_index ss i = entries (ss ! i)"
proof (induction ss arbitrary: i)
  case (Cons s ss)
  then show ?case by (cases i) (auto simp: guard_index_def)
qed simp

lemma guard_index_cong: "list_all2 shard_le ss' ss \<Longrightarrow> guard_index ss' i = guard_index ss i"
proof (induction ss arbitrary: ss' i)
  case (Cons s ss)
  then show ?case
    by (cases i) (auto simp: guard_index_def list_all2_Cons2 shard_le_def)
qed (simp add: guard_index_def)

section \<open>Cleanup\<close>

lemma wf_lock_guards:
  "wf_sticky_state h st \<Longrightarrow> \<forall>g\<in>set (lock_guards (shards st)). hm_wf g"
  by (auto simp: wf_sticky_state_def lock_guards_def in_set_conv_nth)

lemma cleanup_config [simp]:
  "st_config (cleanup_global it now st) = st_config st"
  "key_counter (cleanup_global it now st) = key_counter st"
  by (simp_all add: cleanup_global_def)

lemma cleanup_submaps:
  assumes "iteration it" "\<forall>g\<in>set gs. hm_wf g"
  shows "list_all2 submap (cleanup_guards it m now gs) (retained now gs)"
    and "list_all2 submap (cleanup_guards it m now gs) gs"
    and "length (cleanup_guards it m now gs) = length gs"
proof -
  show a: "list_all2 submap (cleanup_guards it m now gs) (retained now gs)"
    using cleanup_guards_spec [OF assms] by blast
  then show b: "list_all2 submap (cleanup_guards it m now gs) gs"
    using retained_submap by (rule submaps_trans)
  then show "length (cleanup_guards it m now gs) = length gs" by (rule list_all2_lengthD)
qed

lemma cleanup_shards:
  assumes "iteration it" "wf_sticky_state h st"
  shows "list_all2 shard_le (shards (cleanup_global it now st)) (shards st)"
    and "lock_guards (shards (cleanup_global it now st)) =
           cleanup_guards it (sc_max_entries (st_config st)) now (lock_guards (shards st))"
  using cleanup_submaps [OF assms(1) wf_lock_guards [OF assms(2)]]
  by (simp_all add: cleanup_global_def write_back_rel lock_guards_write_back)

lemma cleanup_length:
  "iteration it \<Longrightarrow> wf_sticky_state h st \<Longrightarrow> length (shards (cleanup_global it now st)) = length (shards st)"
  by (drule (1) cleanup_shards(1) [THEN list_all2_lengthD]) simp

lemma shard_index_cong:
  "length (shards st') = length (shards st) \<Longrightarrow> shard_index_for_key h st' k = shard_index_for_key h st k"
  by (simp add: shard_index_for_key_def)

lemma shard_index_less:
  "wf_sticky_state h st \<Longrightarrow> shard_index_for_key h st k < length (shards st)"
  by (simp add: shard_index_for_key_def wf_sticky_state_def STICKY_SHARD_COUNT_def)

lemma wf_shards_le:
  assumes "wf_sticky_state h st" "list_all2 shard_le (shards st') (shards st)"
  shows "wf_sticky_state h st'"
proof -
  have sub: "submap (entries (shards st' ! i)) (entries (shards st ! i))" if "i < STICKY_SHARD_COUNT" for i
    using assms that by (auto simp: wf_sticky_state_def list_all2_conv_all_nth shard_le_def)
  have len: "length (shards st') = length (shards st)" using assms(2) by (rule list_all2_lengthD)
  show ?thesis
    unfolding wf_sticky_state_def
  proof (intro conjI allI impI)
    show "length (shards st') = STICKY_SHARD_COUNT"
      using len assms(1) by (simp add: wf_sticky_state_def)
    fix i assume i: "i < STICKY_SHARD_COUNT"
    with assms(1) have w: "hm_wf (entries (shards st ! i))"
      "\<forall>p\<in>set (entries (shards st ! i)). unat (h (fst p)) mod STICKY_SHARD_COUNT = i"
      by (simp_all add: wf_sticky_state_def)
    show "hm_wf (entries (shards st' ! i))" using sub [OF i] w(1) by (rule submap_wf)
    show "\<forall>p\<in>set (entries (shards st' ! i)). unat (h (fst p)) mod STICKY_SHARD_COUNT = i"
      using submap_set [OF sub [OF i]] w(2) by blast
  qed
qed

lemma cleanup_wf:
  "iteration it \<Longrightarrow> wf_sticky_state h st \<Longrightarrow> wf_sticky_state h (cleanup_global it now st)"
  by (rule wf_shards_le [OF _ cleanup_shards(1)])

lemma length_filter_retained:
  "sum_list (map length (retained now gs)) =
     sum_list (map (\<lambda>g. length (filter (\<lambda>p. now < ae_expires_at (snd p)) g)) gs)"
  by (simp add: retained_def hm_retain_def comp_def)

lemma cleanup_count:
  assumes "iteration it" "wf_sticky_state h st"
  shows "entry_count (cleanup_global it now st) = min (live_count now st) (sc_max_entries (st_config st))"
  using cleanup_guards_count [OF assms(1) wf_lock_guards [OF assms(2)]]
  by (simp add: entry_count_def live_count_def cleanup_shards(2) [OF assms] length_filter_retained)

text \<open>One key before and after a cleanup, seen through the index of its shard among the locked ones.\<close>

lemma binding_guard:
  assumes "wf_sticky_state h st"
  shows "binding h st k = Some e \<longleftrightarrow>
     \<not> poisoned (shards st ! shard_index_for_key h st k)
     \<and> (k, e) \<in> set (lock_guards (shards st) ! guard_index (shards st) (shard_index_for_key h st k))"
proof -
  let ?i = "shard_index_for_key h st k"
  have i: "?i < length (shards st)" using assms by (rule shard_index_less)
  with assms have wf: "hm_wf (entries (shards st ! ?i))"
    by (simp add: wf_sticky_state_def)
  show ?thesis
    using guard_nth [OF i] hm_get_Some_iff [OF wf] by (auto simp: binding_def Let_def)
qed

lemma cleanup_binding_guard:
  fixes k :: affinity_map_key
  assumes "iteration it" "wf_sticky_state h st"
  defines "gi \<equiv> guard_index (shards st) (shard_index_for_key h st k)"
  shows "binding h (cleanup_global it now st) k = Some e \<longleftrightarrow>
     \<not> poisoned (shards st ! shard_index_for_key h st k)
     \<and> (k, e) \<in> set (cleanup_guards it (sc_max_entries (st_config st)) now (lock_guards (shards st)) ! gi)"
proof -
  let ?st' = "cleanup_global it now st"
  have idx: "shard_index_for_key h ?st' k = shard_index_for_key h st k"
    by (rule shard_index_cong [OF cleanup_length [OF assms(1,2)]])
  have "poisoned (shards ?st' ! shard_index_for_key h st k) = poisoned (shards st ! shard_index_for_key h st k)"
    using cleanup_shards(1) [OF assms(1,2), of now] shard_index_less [OF assms(2), of k]
    by (auto simp: list_all2_conv_all_nth shard_le_def)
  then show ?thesis
    using binding_guard [OF cleanup_wf [OF assms(1,2)], of now k e]
    by (simp add: idx cleanup_shards(2) [OF assms(1,2)] guard_index_cong [OF cleanup_shards(1) [OF assms(1,2)]] gi_def)
qed

lemma retained_nth:
  "i < length gs \<Longrightarrow> set (retained now gs ! i) = {p \<in> set (gs ! i). now < ae_expires_at (snd p)}"
  by (auto simp: retained_def hm_retain_def)

text \<open>A cleanup invents nothing: what it keeps was there and has not expired.\<close>

lemma cleanup_keeps_only_live:
  assumes "iteration it" "wf_sticky_state h st" "binding h (cleanup_global it now st) k = Some e"
  shows "binding h st k = Some e \<and> now < ae_expires_at e"
proof -
  let ?gs = "lock_guards (shards st)" and ?gi = "guard_index (shards st) (shard_index_for_key h st k)"
  let ?i = "shard_index_for_key h st k"
  from assms(3) have np: "\<not> poisoned (shards st ! ?i)"
    and mem: "(k, e) \<in> set (cleanup_guards it (sc_max_entries (st_config st)) now ?gs ! ?gi)"
    by (simp_all add: cleanup_binding_guard [OF assms(1,2)])
  from np have gi: "?gi < length ?gs" using guard_nth shard_index_less [OF assms(2)] by blast
  have "list_all2 submap (cleanup_guards it (sc_max_entries (st_config st)) now ?gs) (retained now ?gs)"
    by (rule cleanup_submaps(1) [OF assms(1) wf_lock_guards [OF assms(2)]])
  with gi have "submap (cleanup_guards it (sc_max_entries (st_config st)) now ?gs ! ?gi) (retained now ?gs ! ?gi)"
    by (auto simp: list_all2_conv_all_nth retained_def)
  with mem have "(k, e) \<in> set (retained now ?gs ! ?gi)" by (auto dest: submap_set)
  with gi np show ?thesis by (simp add: retained_nth binding_guard [OF assms(2)])
qed

text \<open>With room for every live entry a cleanup removes the expired ones only.\<close>

lemma cleanup_keeps_live:
  assumes "iteration it" "wf_sticky_state h st" "live_count now st \<le> sc_max_entries (st_config st)"
    and "binding h st k = Some e" "now < ae_expires_at e"
  shows "binding h (cleanup_global it now st) k = Some e"
proof -
  let ?gs = "lock_guards (shards st)" and ?gi = "guard_index (shards st) (shard_index_for_key h st k)"
  let ?i = "shard_index_for_key h st k"
  from assms(4) have np: "\<not> poisoned (shards st ! ?i)" and mem: "(k, e) \<in> set (?gs ! ?gi)"
    by (simp_all add: binding_guard [OF assms(2)])
  from np have gi: "?gi < length ?gs" using guard_nth shard_index_less [OF assms(2)] by blast
  have "cleanup_guards it (sc_max_entries (st_config st)) now ?gs = retained now ?gs"
    using assms(3) unfolding live_count_def length_filter_retained [symmetric]
    by (simp add: cleanup_guards_def retained_def [symmetric] Let_def)
  with np mem gi assms(5) show ?thesis
    by (simp add: cleanup_binding_guard [OF assms(1,2)] retained_nth)
qed

text \<open>A live entry that had to go expires no later than anything that stayed.\<close>

lemma cleanup_evicts_first_expiring:
  assumes "iteration it" "wf_sticky_state h st"
    and "binding h st k = Some e" "now < ae_expires_at e" "binding h (cleanup_global it now st) k = None"
    and "binding h (cleanup_global it now st) k' = Some e'"
  shows "ae_expires_at e \<le> ae_expires_at e'"
proof -
  let ?gs = "lock_guards (shards st)"
  let ?gi = "\<lambda>k. guard_index (shards st) (shard_index_for_key h st k)"
  let ?i = "\<lambda>k. shard_index_for_key h st k"
  let ?c = "cleanup_guards it (sc_max_entries (st_config st)) now ?gs"
  from assms(3) have np: "\<not> poisoned (shards st ! ?i k)" and mem: "(k, e) \<in> set (?gs ! ?gi k)"
    by (simp_all add: binding_guard [OF assms(2)])
  from assms(6) have np': "\<not> poisoned (shards st ! ?i k')" and mem': "(k', e') \<in> set (?c ! ?gi k')"
    by (simp_all add: cleanup_binding_guard [OF assms(1,2)])
  have gi: "?gi k < length ?gs" "?gi k' < length ?gs"
    using guard_nth np np' shard_index_less [OF assms(2)] by blast+
  have "(k, e) \<notin> set (?c ! ?gi k)"
    using assms(5) np cleanup_binding_guard [OF assms(1,2), of now k e] by auto
  moreover have "(k, e) \<in> set (retained now ?gs ! ?gi k)"
    using gi(1) mem assms(4) by (simp add: retained_nth)
  ultimately show ?thesis
    using cleanup_guards_order [OF assms(1) wf_lock_guards [OF assms(2)] gi(1)] gi(2) mem' by blast
qed

end
