(* ===== verification/Sticky_Ops.thy ===== *)
theory Sticky_Ops
  imports Sticky_Props Affinity_Store
begin

text \<open>
  The operations of the sticky session store: they keep its invariant, they provide the contract
  \<open>affinity_store\<close>, and they keep the number of entries bounded.
\<close>

section \<open>Replacing one shard\<close>

lemma set_shard_simps [simp]:
  "st_config (set_shard i s st) = st_config st" "key_counter (set_shard i s st) = key_counter st"
  "length (shards (set_shard i s st)) = length (shards st)"
  "shard_index_for_key h (set_shard i s st) k = shard_index_for_key h st k"
  by (simp_all add: set_shard_def shard_index_for_key_def)

lemma nth_set_shard:
  "j < length (shards st) \<Longrightarrow> shards (set_shard i s st) ! j = (if j = i then s else shards st ! j)"
  by (simp add: set_shard_def nth_list_update)

lemma binding_set_shard:
  assumes "wf_sticky_state h st"
  shows "binding h (set_shard i s st) k =
    (if shard_index_for_key h st k = i then (if poisoned s then None else hm_get (entries s) k)
     else binding h st k)"
  using shard_index_less [OF assms, of k] by (simp add: binding_def Let_def nth_set_shard)

lemma wf_set_shard:
  assumes "wf_sticky_state h st" "i < STICKY_SHARD_COUNT \<Longrightarrow> hm_wf (entries s)"
    and "\<And>p. i < STICKY_SHARD_COUNT \<Longrightarrow> p \<in> set (entries s) \<Longrightarrow> unat (h (fst p)) mod STICKY_SHARD_COUNT = i"
  shows "wf_sticky_state h (set_shard i s st)"
  using assms by (auto simp: wf_sticky_state_def nth_set_shard)

text \<open>Writing and deleting the entry of one key in the shard of that key.\<close>

definition put_entry ::
    "key_hash \<Rightarrow> affinity_map_key \<Rightarrow> affinity_entry \<Rightarrow> sticky_session_state \<Rightarrow> sticky_session_state" where
  "put_entry h k e st =
     (let i = shard_index_for_key h st k; s = shards st ! i
      in set_shard i (s\<lparr>entries := hm_insert k e (entries s)\<rparr>) st)"

definition drop_entry ::
    "key_hash \<Rightarrow> affinity_map_key \<Rightarrow> sticky_session_state \<Rightarrow> sticky_session_state" where
  "drop_entry h k st =
     (let i = shard_index_for_key h st k; s = shards st ! i
      in set_shard i (s\<lparr>entries := hm_remove k (entries s)\<rparr>) st)"

lemma wf_shard_nth:
  assumes "wf_sticky_state h st"
  shows "hm_wf (entries (shards st ! shard_index_for_key h st k))"
    and "p \<in> set (entries (shards st ! shard_index_for_key h st k)) \<Longrightarrow>
      unat (h (fst p)) mod STICKY_SHARD_COUNT = shard_index_for_key h st k"
    and "unat (h k) mod STICKY_SHARD_COUNT = shard_index_for_key h st k"
  using assms shard_index_less [OF assms, of k] unfolding wf_sticky_state_def
  by (auto simp: shard_index_for_key_def)

lemma put_entry_wf:
  assumes "wf_sticky_state h st"
  shows "wf_sticky_state h (put_entry h k e st)"
  unfolding put_entry_def Let_def
  using wf_shard_nth(1) [OF assms, of k] wf_shard_nth(2) [OF assms, of _ k] wf_shard_nth(3) [OF assms, of k]
  by (intro wf_set_shard [OF assms]) (auto simp: hm.wf_insert set_hm_insert)

lemma drop_entry_wf:
  assumes "wf_sticky_state h st"
  shows "wf_sticky_state h (drop_entry h k st)"
  unfolding drop_entry_def Let_def
  using wf_shard_nth(1) [OF assms, of k] wf_shard_nth(2) [OF assms, of _ k]
  by (intro wf_set_shard [OF assms]) (auto simp: hm.wf_remove set_hm_remove)

lemma binding_put_entry:
  "wf_sticky_state h st \<Longrightarrow>
   binding h (put_entry h k e st) j =
     (if j = k \<and> \<not> poisoned (shards st ! shard_index_for_key h st k) then Some e else binding h st j)"
  by (simp add: put_entry_def Let_def binding_set_shard hm.get_insert)
     (auto simp: binding_def Let_def)

lemma binding_drop_entry:
  "wf_sticky_state h st \<Longrightarrow>
   binding h (drop_entry h k st) j = (if j = k then None else binding h st j)"
  by (simp add: drop_entry_def Let_def binding_set_shard hm.get_remove)
     (auto simp: binding_def Let_def)

lemma config_put_drop [simp]:
  "st_config (put_entry h k e st) = st_config st" "st_config (drop_entry h k st) = st_config st"
  by (simp_all add: put_entry_def drop_entry_def Let_def)

section \<open>Counting an operation\<close>

text \<open>\<open>should_cleanup\<close> on shard \<open>i\<close>, with the cleanup it may ask for.\<close>

definition count_op :: "nat \<Rightarrow> sticky_session_state \<Rightarrow> sticky_session_state" where
  "count_op i st = set_shard i (snd (should_cleanup (shards st ! i))) st"

definition cleanup_due :: "nat \<Rightarrow> sticky_session_state \<Rightarrow> bool" where
  "cleanup_due i st \<longleftrightarrow> fst (should_cleanup (shards st ! i))"

definition counted :: "iter_order \<Rightarrow> instant \<Rightarrow> nat \<Rightarrow> sticky_session_state \<Rightarrow> sticky_session_state" where
  "counted it now i st =
     (if cleanup_due i st then cleanup_global it now (count_op i st) else count_op i st)"

lemma count_op_shard:
  "shards (count_op i st) =
     (shards st)[i := (shards st ! i)\<lparr>op_counter := op_counter (shards st ! i) + 1\<rparr>]"
  by (simp add: count_op_def set_shard_def should_cleanup_def)

lemma count_op_simps [simp]:
  "st_config (count_op i st) = st_config st"
  "shard_index_for_key h (count_op i st) k = shard_index_for_key h st k"
  by (simp_all add: count_op_def)

lemma count_op_wf: "wf_sticky_state h st \<Longrightarrow> wf_sticky_state h (count_op i st)"
  unfolding count_op_def
  by (rule wf_set_shard) (auto simp: should_cleanup_def wf_sticky_state_def)

lemma binding_count_op: "wf_sticky_state h st \<Longrightarrow> binding h (count_op i st) k = binding h st k"
  by (simp add: count_op_def binding_set_shard) (simp add: should_cleanup_def binding_def)

lemma lock_guards_cong:
  "list_all2 (\<lambda>s' s. entries s' = entries s \<and> poisoned s' = poisoned s) ss' ss \<Longrightarrow>
   lock_guards ss' = lock_guards ss"
  by (induction rule: list_all2_induct) auto

lemma lock_guards_count_op: "lock_guards (shards (count_op i st)) = lock_guards (shards st)"
proof (cases "i < length (shards st)")
  case True
  then show ?thesis
    by (intro lock_guards_cong) (auto simp: count_op_shard list_all2_conv_all_nth nth_list_update)
qed (simp add: count_op_shard list_update_beyond)

lemma counts_count_op [simp]:
  "entry_count (count_op i st) = entry_count st" "live_count now (count_op i st) = live_count now st"
  by (simp_all add: entry_count_def live_count_def lock_guards_count_op)

lemma live_le_entry: "live_count now st \<le> entry_count st"
  unfolding live_count_def entry_count_def by (rule sum_list_mono) simp

lemma counted_wf: "iteration it \<Longrightarrow> wf_sticky_state h st \<Longrightarrow> wf_sticky_state h (counted it now i st)"
  by (simp add: counted_def count_op_wf cleanup_wf)

lemma counted_config [simp]: "st_config (counted it now i st) = st_config st"
  by (simp add: counted_def)

lemma counted_index:
  "iteration it \<Longrightarrow> wf_sticky_state h st \<Longrightarrow>
   shard_index_for_key h (counted it now i st) k = shard_index_for_key h st k"
  by (simp add: counted_def shard_index_cong [OF cleanup_length [OF _ count_op_wf]])

lemma binding_counted:
  "iteration it \<Longrightarrow> wf_sticky_state h st \<Longrightarrow> binding h (counted it now i st) k = Some e \<Longrightarrow>
   binding h st k = Some e"
  by (auto simp: counted_def binding_count_op dest!: cleanup_keeps_only_live [OF _ count_op_wf]
      split: if_splits)

lemma binding_counted_live:
  assumes "iteration it" "wf_sticky_state h st" "live_count now st \<le> sc_max_entries (st_config st)"
    and "binding h st k = Some e" "now < ae_expires_at e"
  shows "binding h (counted it now i st) k = Some e"
  using assms by (simp add: counted_def binding_count_op cleanup_keeps_live count_op_wf)

section \<open>The operations in terms of the binding\<close>

lemma sticky_lookup_eq:
  fixes app affinity_key :: string and transport :: transport_kind
  assumes "iteration it" "wf_sticky_state h st"
  defines "key \<equiv> affinity_map_key_of app transport affinity_key"
  shows "sticky_lookup h it now app transport affinity_key B st =
    (let st' = counted it now (shard_index_for_key h st key) st
     in case binding h st' key of
          Some e \<Rightarrow>
            if now < ae_expires_at e \<and> ae_backend e \<in> B
            then (Some (ae_backend e),
                  put_entry h key (e\<lparr>ae_expires_at := now + sc_ttl (st_config st)\<rparr>) st')
            else (None, drop_entry h key st')
        | None \<Rightarrow> (None, st'))"
  using counted_index [OF assms(1,2), of now "shard_index_for_key h st key" key]
  by (auto simp: sticky_lookup_def key_def [symmetric] Let_def binding_def put_entry_def drop_entry_def
      counted_def cleanup_due_def count_op_def split: prod.splits option.splits)

lemma sticky_bind_eq:
  fixes app affinity_key :: string and transport :: transport_kind
  assumes "wf_sticky_state h st"
  defines "key \<equiv> affinity_map_key_of app transport affinity_key"
  shows "sticky_bind h it now app transport affinity_key backend st =
    (if poisoned (shards st ! shard_index_for_key h st key) then st
     else counted it now (shard_index_for_key h st key)
            (put_entry h key \<lparr>ae_backend = backend, ae_expires_at = now + sc_ttl (st_config st)\<rparr> st))"
proof -
  let ?i = "shard_index_for_key h st key"
  have "?i < length (shards st)" using assms(1) by (rule shard_index_less)
  then show ?thesis
    by (auto simp: sticky_bind_def key_def [symmetric] Let_def put_entry_def counted_def cleanup_due_def
        count_op_def should_cleanup_def nth_set_shard set_shard_def)
qed

lemma sticky_remove_eq:
  fixes app affinity_key :: string and transport :: transport_kind
  defines "key \<equiv> affinity_map_key_of app transport affinity_key"
  shows "sticky_remove h app transport affinity_key st =
    (if poisoned (shards st ! shard_index_for_key h st key) then st else drop_entry h key st)"
  by (simp add: sticky_remove_def key_def [symmetric] Let_def drop_entry_def)

lemmas sticky_eqs = sticky_lookup_eq sticky_bind_eq sticky_remove_eq

lemma sticky_lookup_wf:
  "iteration it \<Longrightarrow> wf_sticky_state h st \<Longrightarrow> wf_sticky_state h (snd (sticky_lookup h it now a t k B st))"
  by (auto simp: sticky_lookup_eq Let_def counted_wf put_entry_wf drop_entry_wf split: option.splits)

lemma sticky_bind_wf:
  "iteration it \<Longrightarrow> wf_sticky_state h st \<Longrightarrow> wf_sticky_state h (sticky_bind h it now a t k b st)"
  by (simp add: sticky_bind_eq counted_wf put_entry_wf)

lemma sticky_remove_wf:
  "wf_sticky_state h st \<Longrightarrow> wf_sticky_state h (sticky_remove h a t k st)"
  by (simp add: sticky_remove_eq drop_entry_wf)

lemma sticky_config [simp]:
  "st_config (sticky_bind h it now a t k b st) = st_config st"
  "st_config (sticky_remove h a t k st) = st_config st"
  by (auto simp: sticky_bind_def sticky_remove_def Let_def should_cleanup_def)

lemma sticky_lookup_config [simp]: "st_config (snd (sticky_lookup h it now a t k B st)) = st_config st"
  by (auto simp: sticky_lookup_def Let_def should_cleanup_def split: option.splits)

lemma affinity_map_key_of_inject [simp]:
  "affinity_map_key_of a t k = affinity_map_key_of a' t' k' \<longleftrightarrow> a = a' \<and> t = t' \<and> k = k'"
  by (simp add: affinity_map_key_of_def)

section \<open>The store keeps the contract\<close>

definition sticky_view ::
    "key_hash \<Rightarrow> sticky_session_state \<Rightarrow> string \<Rightarrow> transport_kind \<Rightarrow> string \<Rightarrow> (string \<times> instant) option" where
  "sticky_view h st app transport key =
     map_option (\<lambda>e. (ae_backend e, ae_expires_at e)) (binding h st (affinity_map_key_of app transport key))"

definition sticky_ok :: "key_hash \<Rightarrow> iter_order \<Rightarrow> sticky_session_state \<Rightarrow> bool" where
  "sticky_ok h it st \<longleftrightarrow> iteration it \<and> wf_sticky_state h st"

lemma binding_not_poisoned:
  "binding h st k = Some e \<Longrightarrow> \<not> poisoned (shards st ! shard_index_for_key h st k)"
  by (auto simp: binding_def Let_def split: if_splits)

lemma sticky_lookup_hit:
  assumes "iteration it" "wf_sticky_state h st"
    and "sticky_lookup h it now a t k B st = (Some b, st')"
  shows "b \<in> B \<and> (\<exists>e. binding h st (affinity_map_key_of a t k) = Some e \<and> ae_backend e = b \<and> now < ae_expires_at e
           \<and> binding h st' (affinity_map_key_of a t k)
               = Some (e\<lparr>ae_expires_at := now + sc_ttl (st_config st)\<rparr>))"
proof -
  let ?k = "affinity_map_key_of a t k"
  let ?st1 = "counted it now (shard_index_for_key h st ?k) st"
  have wf: "wf_sticky_state h ?st1" using assms(1,2) by (rule counted_wf)
  from assms(3) obtain e where e: "binding h ?st1 ?k = Some e" "ae_backend e = b"
    "now < ae_expires_at e" "b \<in> B" "st' = put_entry h ?k (e\<lparr>ae_expires_at := now + sc_ttl (st_config st)\<rparr>) ?st1"
    by (auto simp: sticky_lookup_eq [OF assms(1,2)] Let_def split: option.splits if_splits)
  with binding_counted [OF assms(1,2) e(1)] binding_not_poisoned [OF e(1)] show ?thesis
    by (simp add: binding_put_entry [OF wf])
qed

lemma sticky_lookup_live:
  assumes "iteration it" "wf_sticky_state h st" "live_count now st \<le> sc_max_entries (st_config st)"
    and "binding h st (affinity_map_key_of a t k) = Some e" "now < ae_expires_at e" "ae_backend e \<in> B"
  shows "fst (sticky_lookup h it now a t k B st) = Some (ae_backend e)"
  using binding_counted_live [OF assms(1-5)] assms(5,6)
  by (simp add: sticky_lookup_eq [OF assms(1,2)] Let_def)

lemma sticky_lookup_miss:
  assumes "iteration it" "wf_sticky_state h st"
    and "sticky_lookup h it now a t k B st = (None, st')"
  shows "binding h st' (affinity_map_key_of a t k) = None"
  using assms(3) binding_drop_entry [OF counted_wf [OF assms(1,2)]]
  by (auto simp: sticky_lookup_eq [OF assms(1,2)] Let_def split: option.splits if_splits)

lemma sticky_lookup_binding_other:
  assumes "iteration it" "wf_sticky_state h st" "j \<noteq> affinity_map_key_of a t k"
    and "binding h (snd (sticky_lookup h it now a t k B st)) j = Some e"
  shows "binding h st j = Some e"
  using assms(3,4) binding_counted [OF assms(1,2)]
    binding_drop_entry [OF counted_wf [OF assms(1,2)]] binding_put_entry [OF counted_wf [OF assms(1,2)]]
  by (auto simp: sticky_lookup_eq [OF assms(1,2)] Let_def split: option.splits if_splits)

lemma sticky_bind_binding:
  assumes "iteration it" "wf_sticky_state h st"
    and "binding h (sticky_bind h it now a t k b st) j = Some e"
  shows "if j = affinity_map_key_of a t k
         then e = \<lparr>ae_backend = b, ae_expires_at = now + sc_ttl (st_config st)\<rparr>
         else binding h st j = Some e"
proof -
  let ?k = "affinity_map_key_of a t k"
  let ?e = "\<lparr>ae_backend = b, ae_expires_at = now + sc_ttl (st_config st)\<rparr>"
  show ?thesis
  proof (cases "poisoned (shards st ! shard_index_for_key h st ?k)")
    case True
    with assms(3) show ?thesis
      by (auto simp: sticky_bind_eq [OF assms(2)] dest: binding_not_poisoned)
  next
    case False
    with assms(3) have "binding h (put_entry h ?k ?e st) j = Some e"
      by (auto simp: sticky_bind_eq [OF assms(2)] dest: binding_counted [OF assms(1) put_entry_wf [OF assms(2)]])
    with False show ?thesis by (auto simp: binding_put_entry [OF assms(2)] split: if_splits)
  qed
qed

lemma sticky_remove_binding:
  assumes "wf_sticky_state h st"
  shows "binding h (sticky_remove h a t k st) j =
    (if j = affinity_map_key_of a t k then None else binding h st j)"
  using binding_not_poisoned [of h st j]
  by (cases "binding h st j") (auto simp: sticky_remove_eq binding_drop_entry [OF assms])

interpretation sticky: affinity_store "sticky_lookup h it" "sticky_bind h it" "sticky_remove h"
    "sticky_view h" "sticky_ok h it" "\<lambda>st. sc_ttl (st_config st)" for h it
proof
  fix s s' now a t k B b v a' t' k'
  show "sticky_ok h it s \<Longrightarrow> sticky_ok h it (snd (sticky_lookup h it now a t k B s))"
    by (simp add: sticky_ok_def sticky_lookup_wf)
  show "sticky_ok h it s \<Longrightarrow> sticky_ok h it (sticky_bind h it now a t k b s)"
    by (simp add: sticky_ok_def sticky_bind_wf)
  show "sticky_ok h it s \<Longrightarrow> sticky_ok h it (sticky_remove h a t k s)"
    by (simp add: sticky_ok_def sticky_remove_wf)
  show "sc_ttl (st_config (snd (sticky_lookup h it now a t k B s))) = sc_ttl (st_config s)" by simp
  show "sticky_ok h it s \<Longrightarrow> sticky_lookup h it now a t k B s = (Some b, s') \<Longrightarrow>
      b \<in> B \<and> (\<exists>x. sticky_view h s a t k = Some (b, x) \<and> now < x)
      \<and> sticky_view h s' a t k = Some (b, now + sc_ttl (st_config s))"
    by (drule sticky_lookup_hit [rotated 2]) (auto simp: sticky_ok_def sticky_view_def)
  show "sticky_ok h it s \<Longrightarrow> sticky_lookup h it now a t k B s = (None, s') \<Longrightarrow> sticky_view h s' a t k = None"
    by (drule sticky_lookup_miss [rotated 2]) (auto simp: sticky_ok_def sticky_view_def)
  show "sticky_ok h it s \<Longrightarrow> sticky_view h (sticky_bind h it now a t k b s) a t k = Some v \<Longrightarrow>
      v = (b, now + sc_ttl (st_config s))"
    by (auto simp: sticky_ok_def sticky_view_def dest!: sticky_bind_binding [rotated 2])
  show "sticky_ok h it s \<Longrightarrow> sticky_view h (sticky_remove h a t k s) a t k = None"
    by (simp add: sticky_ok_def sticky_view_def sticky_remove_binding)
  assume other: "(a', t', k') \<noteq> (a, t, k)"
  then have ne: "affinity_map_key_of a' t' k' \<noteq> affinity_map_key_of a t k" by simp
  show "sticky_ok h it s \<Longrightarrow> sticky_view h (snd (sticky_lookup h it now a t k B s)) a' t' k' = Some v \<Longrightarrow>
      sticky_view h s a' t' k' = Some v"
    using sticky_lookup_binding_other [OF _ _ ne, of it h s now B]
    by (auto simp: sticky_ok_def sticky_view_def)
  show "sticky_ok h it s \<Longrightarrow> sticky_view h (sticky_bind h it now a t k b s) a' t' k' = Some v \<Longrightarrow>
      sticky_view h s a' t' k' = Some v"
    using ne by (auto simp: sticky_ok_def sticky_view_def dest!: sticky_bind_binding [rotated 2] split: if_splits)
  show "sticky_ok h it s \<Longrightarrow> sticky_view h (sticky_remove h a t k s) a' t' k' = Some v \<Longrightarrow>
      sticky_view h s a' t' k' = Some v"
    using ne by (auto simp: sticky_ok_def sticky_view_def sticky_remove_binding)
qed

end
