(* ===== verification/Router_Props.thy ===== *)
theory Router_Props
  imports Router Sticky_Ops Options_Props
begin

text \<open>
  The request handlers: which requests are let through and where to, what a failing request is
  answered with, what a request does to the affinity of its client and of others.
\<close>

section \<open>Pools\<close>

lemma resolve_pool_upgrade:
  "resolve_pool pools True = map_option (\<lambda>p.
     \<lparr>rp_lb = pc_lb p, rp_secure = pc_secure p, rp_verify_hostname = pc_verify_hostname p,
      rp_is_http2 = False, rp_transport = Ws, rp_backends = pc_backends p\<rparr>) (ap_ws pools)"
  by (auto simp: resolve_pool_def choose_pool_def split: option.splits)

lemma resolve_pool_None:
  "resolve_pool pools up = None \<longleftrightarrow>
   (if up then ap_ws pools = None else ap_http2 pools = None \<and> ap_http1 pools = None)"
  by (auto simp: resolve_pool_def choose_pool_def split: option.splits)

lemma resolve_pool_transport:
  assumes "resolve_pool pools up = Some p"
  shows "rp_transport p = (if up then Ws else if rp_is_http2 p then Http2 else Http1)"
    and "rp_is_http2 p \<longleftrightarrow> \<not> up \<and> ap_http2 pools \<noteq> None"
    and "(case rp_transport p of Ws \<Rightarrow> ap_ws pools | Http2 \<Rightarrow> ap_http2 pools | Http1 \<Rightarrow> ap_http1 pools)
           = Some \<lparr>pc_lb = rp_lb p, pc_secure = rp_secure p,
                   pc_verify_hostname = rp_verify_hostname p, pc_backends = rp_backends p\<rparr>"
  using assms by (auto simp: resolve_pool_def choose_pool_def split: option.splits if_splits)

section \<open>The steps of request_filter\<close>

lemma route_ctx_simps [simp]:
  "cx_app_name (route_ctx config up r ctx) = Some (rr_app_name r)"
  "cx_path_rewrite_segment (route_ctx config up r ctx) = rr_path_rewrite_segment r"
  "cx_is_upgrade (route_ctx config up r ctx) = up"
  "cx_affinity_key (route_ctx config up r ctx) = cx_affinity_key ctx"
  "cx_should_set_cookie (route_ctx config up r ctx) = cx_should_set_cookie ctx"
  "cx_failure_hint (route_ctx config up r ctx) = cx_failure_hint ctx"
  "cx_sticky_retry_attempted (route_ctx config up r ctx) = cx_sticky_retry_attempted ctx"
  by (simp_all add: route_ctx_def Let_def split: option.split)

lemma route_ctx_pool:
  "cx_resolved_pool ctx = None \<Longrightarrow>
   cx_resolved_pool (route_ctx config up r ctx)
     = Option.bind (apps config (rr_app_name r)) (\<lambda>pools. resolve_pool pools up)"
  by (simp add: route_ctx_def Let_def split: option.split)

lemma assign_affinity_simps [simp]:
  "cx_app_name (snd (assign_affinity L clock s R ctx)) = cx_app_name ctx"
  "cx_path_rewrite_segment (snd (assign_affinity L clock s R ctx)) = cx_path_rewrite_segment ctx"
  "cx_is_upgrade (snd (assign_affinity L clock s R ctx)) = cx_is_upgrade ctx"
  "cx_resolved_pool (snd (assign_affinity L clock s R ctx)) = cx_resolved_pool ctx"
  "cx_selected_transport (snd (assign_affinity L clock s R ctx)) = cx_selected_transport ctx"
  "cx_failure_hint (snd (assign_affinity L clock s R ctx)) = cx_failure_hint ctx"
  "ro_config (fst (assign_affinity L clock s R ctx)) = ro_config R"
  "ro_limits (fst (assign_affinity L clock s R ctx)) = ro_limits R"
  "ro_timeouts (fst (assign_affinity L clock s R ctx)) = ro_timeouts R"
  by (auto simp: assign_affinity_def split: option.splits prod.splits)

lemma assign_affinity_Some:
  assumes "ro_sticky R = Some st" "cx_app_name ctx = Some app" "cx_resolved_pool ctx = Some p"
  shows "assign_affinity L clock s R ctx =
    (R\<lparr>ro_sticky := Some (snd (request_affinity_key L clock s st))\<rparr>,
     ctx\<lparr>cx_affinity_key := Some (fst (request_affinity_key L clock s st)), cx_should_set_cookie := True\<rparr>)"
  using assms by (simp add: assign_affinity_def split: prod.splits)

lemma assign_affinity_None:
  "ro_sticky R = None \<or> cx_resolved_pool ctx = None \<Longrightarrow> assign_affinity L clock s R ctx = (R, ctx)"
  by (auto simp: assign_affinity_def split: option.splits)

lemma request_affinity_key_safe:
  assumes "\<And>n. clock = Some n \<Longrightarrow> n < 2 ^ 128"
  shows "is_cookie_safe_affinity_key (fst (request_affinity_key L clock s st))"
  using affinity_key_text_safe [OF assms]
  by (auto simp: request_affinity_key_def generate_affinity_key_def
      dest: extract_cookie_value_safe extract_header_value_safe split: option.splits)

text \<open>A store changes only by its key counter when a request is given its key.\<close>

lemma request_affinity_key_state:
  "\<exists>c. snd (request_affinity_key L clock s st) = st\<lparr>key_counter := c\<rparr>"
proof (cases "extract_cookie_value L s (sc_cookie_name (st_config st)) = None
    \<and> extract_header_value L s (sc_header_name (st_config st)) = None")
  case True
  then show ?thesis by (auto simp: request_affinity_key_def generate_affinity_key_def)
next
  case False
  then have "snd (request_affinity_key L clock s st) = st\<lparr>key_counter := key_counter st\<rparr>"
    by (auto simp: request_affinity_key_def split: option.splits)
  then show ?thesis by blast
qed

lemma key_counter_irrelevant [simp]:
  "wf_sticky_state h (st\<lparr>key_counter := c\<rparr>) = wf_sticky_state h st"
  "sticky_ok h it (st\<lparr>key_counter := c\<rparr>) = sticky_ok h it st"
  "sticky_view h (st\<lparr>key_counter := c\<rparr>) = sticky_view h st"
  by (auto simp: wf_sticky_state_def sticky_ok_def sticky_view_def binding_def
      shard_index_for_key_def fun_eq_iff)

section \<open>Outcomes of request_filter\<close>

text \<open>The request went past the limits and the host; \<open>route\<close> is what it resolves to.\<close>

definition routed :: "http_lib \<Rightarrow> 'lb router \<Rightarrow> session \<Rightarrow> resolved_route option \<Rightarrow> bool" where
  "routed L R s route \<longleftrightarrow>
     request_limit_rejection_status L s (ro_limits R) = None
     \<and> (case extract_host L s of
           Panic \<Rightarrow> False
         | Ret host \<Rightarrow> route = resolve_route (ro_config R) (map_option cow_str host)
                          (extract_first_path_segment (req_path s)))"

definition pool_of_route :: "'lb router_config \<Rightarrow> bool \<Rightarrow> resolved_route \<Rightarrow> 'lb resolved_pool option" where
  "pool_of_route config up route =
     Option.bind (apps config (rr_app_name route)) (\<lambda>pools. resolve_pool pools up)"

lemma request_filter_limit:
  "request_limit_rejection_status L s (ro_limits R) = Some status \<Longrightarrow>
   request_filter L respond clock R s ds ctx =
     Ret (fst (reject_request respond status ds), R, snd (reject_request respond status ds), ctx)"
  by (simp add: request_filter_def split: prod.splits)

lemma request_filter_unrouted:
  "routed L R s None \<Longrightarrow>
   request_filter L respond clock R s ds ctx =
     Ret (Inl (explain (HTTPStatus NOT_FOUND) ''no application matched''), R,
          apply_downstream_timeouts (ro_timeouts R) ds, ctx\<lparr>cx_failure_hint := Some MissingApplication\<rparr>)"
  by (auto simp: routed_def request_filter_def Let_def split: rust.splits)

lemma request_filter_routed:
  "routed L R s (Some route) \<Longrightarrow>
   request_filter L respond clock R s ds ctx =
     (let (R', ctx') = assign_affinity L clock s R (route_ctx (ro_config R) (req_is_upgrade s) route ctx);
          (result, ctx'') = check_pools (ro_config R) ctx'
      in Ret (result, R', apply_downstream_timeouts (ro_timeouts R) ds, ctx''))"
  by (auto simp: routed_def request_filter_def Let_def split: option.splits prod.splits rust.splits)

lemma check_pools_Some:
  assumes "cx_app_name ctx = Some (rr_app_name route)" "cx_is_upgrade ctx = up"
    and "cx_resolved_pool ctx = pool_of_route config up route" "pool_of_route config up route = Some p"
  shows "check_pools config ctx = (Inr False, ctx\<lparr>cx_selected_transport := Some (rp_transport p)\<rparr>)"
proof -
  from assms(4) obtain pools where "apps config (rr_app_name route) = Some pools"
    "resolve_pool pools up = Some p" by (auto simp: pool_of_route_def bind_eq_Some_conv)
  then show ?thesis
    using assms resolve_pool_None [of pools up] by (auto simp: check_pools_def split: if_splits)
qed

lemma check_pools_None:
  assumes "cx_resolved_pool ctx = None"
  shows "\<exists>msg hint. check_pools config ctx =
    (Inl (explain (HTTPStatus SERVICE_UNAVAILABLE) msg), ctx\<lparr>cx_failure_hint := Some hint\<rparr>)
    \<and> hint \<in> {MissingWsPool, MissingUpstreamPool}"
  using assms by (auto simp: check_pools_def)

text \<open>The request filter on a fresh context, when a pool serves the request and when none does.\<close>

lemma request_filter_pool:
  assumes "routed L R s (Some route)"
    and "pool_of_route (ro_config R) (req_is_upgrade s) route = Some p"
  shows "\<exists>R' ctx'. request_filter L respond clock R s ds new_ctx =
      Ret (Inr False, R', apply_downstream_timeouts (ro_timeouts R) ds, ctx')
    \<and> cx_resolved_pool ctx' = Some p \<and> cx_selected_transport ctx' = Some (rp_transport p)
    \<and> cx_app_name ctx' = Some (rr_app_name route)
    \<and> cx_path_rewrite_segment ctx' = rr_path_rewrite_segment route
    \<and> cx_failure_hint ctx' = None \<and> \<not> cx_sticky_retry_attempted ctx'
    \<and> cx_affinity_key ctx' = map_option (\<lambda>st. fst (request_affinity_key L clock s st)) (ro_sticky R)
    \<and> cx_should_set_cookie ctx' = (ro_sticky R \<noteq> None)
    \<and> R' = R\<lparr>ro_sticky := map_option (\<lambda>st. snd (request_affinity_key L clock s st)) (ro_sticky R)\<rparr>"
proof -
  let ?ctx = "route_ctx (ro_config R) (req_is_upgrade s) route new_ctx"
  let ?a = "assign_affinity L clock s R ?ctx"
  have new: "cx_resolved_pool new_ctx = None" "cx_affinity_key new_ctx = None" "\<not> cx_should_set_cookie new_ctx"
    "cx_failure_hint new_ctx = None" "\<not> cx_sticky_retry_attempted new_ctx"
    by (simp_all add: new_ctx_def)
  have pool: "cx_resolved_pool ?ctx = pool_of_route (ro_config R) (req_is_upgrade s) route"
    by (simp add: route_ctx_pool [OF new(1)] pool_of_route_def)
  have "check_pools (ro_config R) (snd ?a) = (Inr False, snd ?a\<lparr>cx_selected_transport := Some (rp_transport p)\<rparr>)"
    using pool by (intro check_pools_Some [OF _ _ _ assms(2)]) simp_all
  then have rf: "request_filter L respond clock R s ds new_ctx =
      Ret (Inr False, fst ?a, apply_downstream_timeouts (ro_timeouts R) ds,
           snd ?a\<lparr>cx_selected_transport := Some (rp_transport p)\<rparr>)"
    by (cases ?a) (simp add: request_filter_routed [OF assms(1)])
  show ?thesis
  proof (cases "ro_sticky R")
    case None
    then show ?thesis using rf pool assms(2) new by (simp add: assign_affinity_None)
  next
    case (Some st)
    then show ?thesis
      using rf pool assms(2) new by (simp add: assign_affinity_Some [of R st ?ctx "rr_app_name route" p])
  qed
qed

lemma request_filter_no_pool:
  assumes "routed L R s (Some route)"
    and "pool_of_route (ro_config R) (req_is_upgrade s) route = None"
  shows "\<exists>msg hint ctx'. request_filter L respond clock R s ds new_ctx =
      Ret (Inl (explain (HTTPStatus SERVICE_UNAVAILABLE) msg), R,
           apply_downstream_timeouts (ro_timeouts R) ds, ctx')
    \<and> cx_failure_hint ctx' = Some hint \<and> hint \<in> {MissingWsPool, MissingUpstreamPool}"
proof -
  let ?ctx = "route_ctx (ro_config R) (req_is_upgrade s) route new_ctx"
  have none: "cx_resolved_pool ?ctx = None"
    using assms(2) by (subst route_ctx_pool) (simp_all add: new_ctx_def pool_of_route_def)
  then have "assign_affinity L clock s R ?ctx = (R, ?ctx)" by (simp add: assign_affinity_None)
  with check_pools_None [OF none, of "ro_config R"] show ?thesis
    by (auto simp: request_filter_routed [OF assms(1)])
qed

text \<open>Every run of the filter that does not panic is one of the four.\<close>

lemma request_filter_outcomes:
  assumes "request_filter L respond clock R s ds new_ctx = Ret r"
  obtains (limit) status where "request_limit_rejection_status L s (ro_limits R) = Some status"
  | (unrouted) "routed L R s None"
  | (no_pool) route where "routed L R s (Some route)"
      "pool_of_route (ro_config R) (req_is_upgrade s) route = None"
  | (pool) route p where "routed L R s (Some route)"
      "pool_of_route (ro_config R) (req_is_upgrade s) route = Some p"
proof (cases "request_limit_rejection_status L s (ro_limits R)")
  case None
  with assms obtain host where "extract_host L s = Ret host"
    by (cases "extract_host L s") (auto simp: request_filter_def Let_def)
  with None have "routed L R s (resolve_route (ro_config R) (map_option cow_str host)
      (extract_first_path_segment (req_path s)))" by (auto simp: routed_def)
  then show ?thesis using that by (metis option.exhaust)
qed (rule limit)

end
