(* ===== verification/Samples.thy ===== *)
theory Samples
  imports Router_Props
begin

text \<open>
  Concrete inputs the witnesses of the handlers' properties evaluate: an \<open>http\<close> library over
  association lists, a router with one application behind a subdomain, a path and the default
  route, and requests to it. The load balancer is represented by the list of its backends.
\<close>

definition sample_lib :: http_lib where
  "sample_lib = \<lparr>hl_get = map_of, hl_to_str = Some, hl_from_static = (\<lambda>_. None)\<rparr>"

definition sample_pool :: "string \<Rightarrow> string list pool_config" where
  "sample_pool addr =
     \<lparr>pc_lb = \<lparr>lb_inner = [addr], lb_health_check = None, lb_health_check_frequency = None\<rparr>,
      pc_secure = False, pc_verify_hostname = ''localhost'', pc_backends = {addr}\<rparr>"

definition sample_config :: "string list router_config" where
  "sample_config =
     \<lparr>subdomain_routes = [''api.example.com'' \<mapsto> ''api''], path_routes = [''auth'' \<mapsto> ''auth''],
      default_app = None,
      apps = [''api'' \<mapsto> \<lparr>ap_http1 = Some (sample_pool ''127.0.0.1:3000''), ap_ws = None,
                          ap_http2 = Some (sample_pool ''127.0.0.1:3002'')\<rparr>,
              ''auth'' \<mapsto> \<lparr>ap_http1 = Some (sample_pool ''127.0.0.1:4000''),
                           ap_ws = Some (sample_pool ''127.0.0.1:4001''), ap_http2 = None\<rparr>]\<rparr>"

definition sample_sticky :: sticky_session_config where
  "sample_sticky =
     \<lparr>sc_enabled = True, sc_cookie_name = ''nmt_affinity'', sc_header_name = ''x-nmt-affinity-key'',
      sc_ttl = 600000000000, sc_max_entries = 100, sc_cookie_secure = False\<rparr>"

definition sample_timeouts :: proxy_timeouts where
  "sample_timeouts =
     \<lparr>downstream_header_timeout_ms = 10000, downstream_body_idle_timeout_ms = 60000,
      upstream_connect_timeout_ms = 5000, upstream_read_timeout_ms = 60000,
      upstream_write_timeout_ms = 60000, downstream_keep_alive_timeout_seconds = 75\<rparr>"

definition sample_router :: "string list router" where
  "sample_router = router_new sample_config sample_sticky (Enabled [UriBytes 16, RequestHeaders 4]) sample_timeouts"

definition sample_downstream :: downstream where
  "sample_downstream = \<lparr>ds_read_timeout = None, ds_keepalive = None, ds_responses = []\<rparr>"

definition sample_request :: "string \<Rightarrow> header_map \<Rightarrow> bool \<Rightarrow> session" where
  "sample_request path headers upgrade =
     \<lparr>req_raw_path = path, req_path = path, req_headers = headers, req_h1_raw = [],
      req_is_upgrade = upgrade\<rparr>"

definition sample_api_request :: session where
  "sample_api_request =
     sample_request ''/v1'' [(''host'', ''api.example.com'')] False"

definition sample_ws_request :: session where
  "sample_ws_request =
     sample_request ''/auth/x'' [(''host'', ''example.com''), (''cookie'', ''a=b; nmt_affinity=k1'')] True"

text \<open>A new peer without timeouts.\<close>

definition sample_peer :: "string \<Rightarrow> bool \<Rightarrow> string \<Rightarrow> http_peer" where
  "sample_peer addr tls sni =
     \<lparr>hp_address = addr, hp_tls = tls, hp_sni = sni, hp_connection_timeout = None,
      hp_total_connection_timeout = None, hp_read_timeout = None, hp_write_timeout = None,
      hp_http_version = (1, 1)\<rparr>"

definition sample_select :: "string list load_balancer \<Rightarrow> string \<Rightarrow> string option" where
  "sample_select lb key = (case lb_inner lb of [] \<Rightarrow> None | addr # _ \<Rightarrow> Some addr)"

text \<open>Hash functions and iteration orders the sticky store may use.\<close>

definition sample_hash :: key_hash where
  "sample_hash key = of_nat (length (amk_affinity_key key))"

lemmas sample_defs =
  sample_lib_def sample_pool_def sample_config_def sample_sticky_def sample_timeouts_def
  sample_router_def sample_downstream_def sample_request_def sample_api_request_def
  sample_ws_request_def sample_peer_def sample_select_def sample_hash_def

section \<open>Facts about the samples\<close>

definition sample_ws_route :: resolved_route where
  "sample_ws_route = \<lparr>rr_app_name = ''auth'', rr_path_rewrite_segment = Some ''auth''\<rparr>"

definition sample_ws_pool :: "string list resolved_pool" where
  "sample_ws_pool =
     \<lparr>rp_lb = pc_lb (sample_pool ''127.0.0.1:4001''), rp_secure = False, rp_verify_hostname = ''localhost'',
      rp_is_http2 = False, rp_transport = Ws, rp_backends = {''127.0.0.1:4001''}\<rparr>"

lemma sample_limits:
  "request_limit_rejection_status sample_lib sample_ws_request (ro_limits sample_router) = None"
  "request_limit_rejection_status sample_lib sample_api_request (ro_limits sample_router) = None"
  by (simp_all add: sample_defs router_new_def request_header_count_def)

lemma sample_hosts:
  "extract_host sample_lib sample_ws_request = Ret (Some (Borrowed ''example.com''))"
  "extract_host sample_lib sample_api_request = Ret (Some (Borrowed ''api.example.com''))"
  by code_simp+

lemma sample_resolve:
  "resolve_route (ro_config sample_router) (Some ''example.com'')
     (extract_first_path_segment (req_path sample_ws_request)) = Some sample_ws_route"
  by (simp add: sample_router_def router_new_def) code_simp

lemma sample_ws_routed: "routed sample_lib sample_router sample_ws_request (Some sample_ws_route)"
  by (simp add: routed_def sample_limits sample_hosts sample_resolve)

lemma sample_ws_pool:
  "pool_of_route (ro_config sample_router) (req_is_upgrade sample_ws_request) sample_ws_route
     = Some sample_ws_pool"
  by (simp add: sample_defs sample_ws_route_def sample_ws_pool_def router_new_def pool_of_route_def
      resolve_pool_def choose_pool_def)

lemma sample_key:
  "extract_cookie_value sample_lib sample_ws_request ''nmt_affinity'' = Some ''k1''"
  by code_simp

end
