(* ===== verification/Request_Handling.thy ===== *)
theory Request_Handling
  imports Samples
begin

text \<open>
  Properties of the request handlers: limits, routing to pools, failures, affinity of a request
  and the choice of its upstream.
\<close>

section \<open>Limits\<close>

text \<open>The limit checks run in the configured order and the first one a request violates
  decides the status: 414 for the URI, 413 for the declared body, 431 for the header limits.\<close>

theorem limit_status_first_violation:
  "request_limit_rejection_status L s (Enabled checks) = Some status \<longleftrightarrow>
   (\<exists>pre c post. checks = pre @ c # post \<and> list_all (within_limit L s) pre
      \<and> \<not> within_limit L s c \<and> status = check_status c)"
  by (simp add: find_map_first limit_check_status_eq list_all_iff split: if_splits) metis

lemma limit_status_None:
  "request_limit_rejection_status L s (Enabled checks) = None \<longleftrightarrow> list_all (within_limit L s) checks"
  by (simp add: find_map_None_iff limit_check_status_eq list_all_iff)

text \<open>C30. A request that violates a limit is answered with the status of that limit and the
  connection is not kept alive; it is not routed, and neither the router nor the context changes.\<close>

theorem over_limit_request_rejected:
  assumes "ro_limits R = Enabled (pre @ c # post)"
    and "list_all (within_limit L s) pre" and "\<not> within_limit L s c"
    and "respond (check_status c) = None"
  shows "request_filter L respond clock R s ds ctx =
    Ret (Inr True, R,
         ds\<lparr>ds_keepalive := None, ds_responses := ds_responses ds @ [check_status c]\<rparr>, ctx)"
proof -
  have "request_limit_rejection_status L s (ro_limits R) = Some (check_status c)"
    using assms(1-3) by (simp only: limit_status_first_violation) blast
  then show ?thesis by (simp add: request_filter_limit reject_request_def Let_def assms(4))
qed

theorem over_limit_request_rejected_witness:
  "request_filter sample_lib (\<lambda>_. None) None sample_router
     (sample_request ''/0123456789abcdef'' [] False) sample_downstream new_ctx
   = Ret (Inr True, sample_router,
          sample_downstream\<lparr>ds_keepalive := None, ds_responses := [414]\<rparr>, new_ctx)"
proof -
  have "ds_responses sample_downstream = []" by (simp add: sample_defs)
  then show ?thesis
    using over_limit_request_rejected [of sample_router "[]" "UriBytes 16" "[RequestHeaders 4]" sample_lib
        "sample_request ''/0123456789abcdef'' [] False" "\<lambda>_. None" None sample_downstream new_ctx]
    by (simp add: sample_router_def router_new_def sample_request_def)
qed

section \<open>Routing to a pool\<close>

text \<open>A request that is let through keeps every configured limit, and its connection has the
  configured timeouts.\<close>

theorem accepted_within_limits:
  assumes "request_filter L respond clock R s ds ctx = Ret (Inr False, R', ds', ctx')"
    and "ro_limits R = Enabled checks"
  shows "list_all (within_limit L s) checks \<and> ds' = apply_downstream_timeouts (ro_timeouts R) ds"
proof (cases "request_limit_rejection_status L s (ro_limits R)")
  case None
  with assms(2) have "list_all (within_limit L s) checks" by (simp only: limit_status_None)
  moreover from None assms(1) have "ds' = apply_downstream_timeouts (ro_timeouts R) ds"
    by (auto simp: request_filter_def Let_def result_inv case_prod_unfold split: option.splits)
  ultimately show ?thesis by simp
next
  case (Some status)
  with assms(1) show ?thesis
    by (auto simp: request_filter_limit reject_request_def Let_def split: option.splits)
qed

lemma sample_ws_accepted:
  "\<exists>R' ctx'. request_filter sample_lib (\<lambda>_. None) None sample_router sample_ws_request sample_downstream new_ctx
     = Ret (Inr False, R', apply_downstream_timeouts (ro_timeouts sample_router) sample_downstream, ctx')"
  using request_filter_pool [OF sample_ws_routed sample_ws_pool, of "\<lambda>_. None" None sample_downstream]
  by blast

theorem accepted_within_limits_witness:
  "list_all (within_limit sample_lib sample_ws_request) [UriBytes 16, RequestHeaders 4]"
proof -
  have "ro_limits sample_router = Enabled [UriBytes 16, RequestHeaders 4]"
    by (simp add: sample_router_def router_new_def)
  with sample_ws_accepted show ?thesis using accepted_within_limits by blast
qed

text \<open>A request that is let through goes to a pool of the application its host or path
  selects: an upgrade request always to the WebSocket pool, any other to the HTTP/2 pool when the
  application has one and to the HTTP/1 pool otherwise. The context holds exactly that pool.\<close>

theorem accepted_request_pool:
  assumes "request_filter L respond clock R s ds new_ctx = Ret (Inr False, R', ds', ctx')"
  shows "\<exists>host route pools p.
    extract_host L s = Ret host
    \<and> resolve_route (ro_config R) (map_option cow_str host) (extract_first_path_segment (req_path s)) = Some route
    \<and> cx_app_name ctx' = Some (rr_app_name route)
    \<and> cx_path_rewrite_segment ctx' = rr_path_rewrite_segment route
    \<and> apps (ro_config R) (rr_app_name route) = Some pools
    \<and> cx_resolved_pool ctx' = Some p \<and> cx_selected_transport ctx' = Some (rp_transport p)
    \<and> rp_transport p = (if req_is_upgrade s then Ws else if ap_http2 pools \<noteq> None then Http2 else Http1)
    \<and> rp_is_http2 p = (rp_transport p = Http2)
    \<and> (case rp_transport p of Ws \<Rightarrow> ap_ws pools | Http2 \<Rightarrow> ap_http2 pools | Http1 \<Rightarrow> ap_http1 pools)
        = Some \<lparr>pc_lb = rp_lb p, pc_secure = rp_secure p,
                pc_verify_hostname = rp_verify_hostname p, pc_backends = rp_backends p\<rparr>"
  using assms
proof (cases rule: request_filter_outcomes)
  case (limit status)
  with assms show ?thesis
    by (auto simp: request_filter_limit reject_request_def Let_def split: option.splits)
next
  case unrouted
  with assms show ?thesis by (simp add: request_filter_unrouted)
next
  case (no_pool route)
  with assms request_filter_no_pool [OF no_pool, of respond clock ds] show ?thesis by auto
next
  case (pool route p)
  from pool(2) obtain pools where pools: "apps (ro_config R) (rr_app_name route) = Some pools"
    "resolve_pool pools (req_is_upgrade s) = Some p" by (auto simp: pool_of_route_def bind_eq_Some_conv)
  from pool(1) obtain host where host: "extract_host L s = Ret host"
    "resolve_route (ro_config R) (map_option cow_str host) (extract_first_path_segment (req_path s)) = Some route"
    by (auto simp: routed_def split: rust.splits)
  have "cx_app_name ctx' = Some (rr_app_name route)" "cx_resolved_pool ctx' = Some p"
    "cx_selected_transport ctx' = Some (rp_transport p)"
    "cx_path_rewrite_segment ctx' = rr_path_rewrite_segment route"
    using assms request_filter_pool [OF pool, of respond clock ds] by auto
  with pools host resolve_pool_transport [OF pools(2)] show ?thesis by (auto split: if_splits)
qed

theorem accepted_request_pool_witness:
  "\<exists>R' ds' ctx' p. request_filter sample_lib (\<lambda>_. None) None sample_router sample_ws_request
       sample_downstream new_ctx = Ret (Inr False, R', ds', ctx')
     \<and> cx_resolved_pool ctx' = Some p \<and> rp_transport p = Ws"
proof -
  have up: "req_is_upgrade sample_ws_request" by (simp add: sample_defs)
  obtain R' ds' ctx' where rf: "request_filter sample_lib (\<lambda>_. None) None sample_router sample_ws_request
      sample_downstream new_ctx = Ret (Inr False, R', ds', ctx')"
    using sample_ws_accepted by blast
  from accepted_request_pool [OF rf] obtain p and pools :: "string list app_pools"
    where "cx_resolved_pool ctx' = Some p" "rp_transport p = (if req_is_upgrade sample_ws_request then Ws
       else if ap_http2 pools \<noteq> None then Http2 else Http1)" by blast
  with rf up show ?thesis by auto
qed

section \<open>Requests that are not let through\<close>

text \<open>C25. A request without an application is answered 404, one whose application has no pool
  for it 503, whatever Pingora makes of the error, and the sticky store is left alone.\<close>

theorem refused_request_status:
  assumes "request_filter L respond clock R s ds new_ctx = Ret (Inl e, R', ds', ctx')"
    and "request_limit_rejection_status L s (ro_limits R) = None"
  shows "R' = R
    \<and> fp_error_code (fst (fail_to_proxy respond' e' ds'' ctx')) = (if routed L R s None then 404 else 503)
    \<and> fp_error_code (fst (fail_to_proxy respond' e ds' ctx')) = (if routed L R s None then 404 else 503)
    \<and> pe_etype e = HTTPStatus (if routed L R s None then 404 else 503)"
  using assms(1)
proof (cases rule: request_filter_outcomes)
  case (limit status)
  with assms(2) show ?thesis by simp
next
  case unrouted
  with assms show ?thesis
    by (auto simp: request_filter_unrouted fail_to_proxy_def Let_def explain_def NOT_FOUND_def)
next
  case (no_pool route)
  then have "\<not> routed L R s None" by (auto simp: routed_def split: rust.splits)
  with assms request_filter_no_pool [OF no_pool, of respond clock ds] show ?thesis
    by (auto simp: fail_to_proxy_def Let_def explain_def SERVICE_UNAVAILABLE_def)
next
  case (pool route p)
  with assms request_filter_pool [OF pool, of respond clock ds] show ?thesis by auto
qed

lemma sample_nowhere:
  "routed sample_lib sample_router (sample_request ''/x'' [(''host'', ''nowhere'')] False) None"
proof -
  have "request_limit_rejection_status sample_lib (sample_request ''/x'' [(''host'', ''nowhere'')] False)
      (ro_limits sample_router) = None"
    by (simp add: sample_defs router_new_def request_header_count_def)
  moreover have "extract_host sample_lib (sample_request ''/x'' [(''host'', ''nowhere'')] False)
      = Ret (Some (Borrowed ''nowhere''))" by code_simp
  moreover have "resolve_route (ro_config sample_router) (Some ''nowhere'')
      (extract_first_path_segment (req_path (sample_request ''/x'' [(''host'', ''nowhere'')] False))) = None"
    by (simp add: sample_router_def router_new_def) code_simp
  ultimately show ?thesis by (simp add: routed_def)
qed

theorem refused_request_status_witness:
  "fp_error_code (fst (fail_to_proxy (\<lambda>_. None) (explain InternalError ''other'') sample_downstream
     (new_ctx\<lparr>cx_failure_hint := Some MissingApplication\<rparr> :: string list router_ctx))) = 404"
  using refused_request_status [OF request_filter_unrouted [OF sample_nowhere]] sample_nowhere
  by (auto simp: routed_def)

end
