(* ===== verification/Sticky_Bound.thy ===== *)
theory Sticky_Bound
  imports Sticky_Ops
begin

text \<open>
  Between two global cleanups the store may hold more than \<open>max_entries\<close> entries, but only as
  many as operations have been counted since: every shard asks for a cleanup at every 128th of
  its operations, so at most 127 per shard. The counters wrap around at \<open>2^64\<close>, a multiple of
  128, so this holds forever.
\<close>

section \<open>Every 128th operation\<close>

fun cleanup_flags :: "nat \<Rightarrow> sticky_shard \<Rightarrow> bool list" where
  "cleanup_flags 0 s = []"
| "cleanup_flags (Suc n) s = (let (b, s') = should_cleanup s in b # cleanup_flags n s')"

lemma unat_plus_mod_128: "unat ((c :: u64) + of_nat i) mod 128 = (unat c + i) mod 128"
proof -
  have "unat (c + of_nat i) = (unat c + i) mod 2 ^ 64"
    by (simp add: unat_word_ariths unat_of_nat mod_simps)
  moreover have "(128 :: nat) dvd 2 ^ 64" by (simp add: dvd_def)
  ultimately show ?thesis by (simp add: mod_mod_cancel)
qed

lemma cleanup_flags_eq:
  "cleanup_flags n s = map (\<lambda>i. (unat (op_counter s) + i) mod 128 = 0) [0..<n]"
proof (induction n arbitrary: s)
  case (Suc n)
  have "unat (op_counter s + 1) mod 128 = (unat (op_counter s) + 1) mod 128"
    using unat_plus_mod_128 [of "op_counter s" 1] by simp
  then have "(unat (op_counter s + 1) + i) mod 128 = (unat (op_counter s) + Suc i) mod 128" for i
    by (metis add.assoc mod_add_left_eq plus_1_eq_Suc)
  then show ?case
    by (simp add: should_cleanup_def Suc.IH map_upt_Suc del: upt_Suc)
qed simp

section \<open>The slack\<close>

text \<open>How many operations a shard has counted since the one that last asked for a cleanup.\<close>

definition shard_slack :: "sticky_shard \<Rightarrow> nat" where
  "shard_slack s = unat (op_counter s - 1) mod 128"

definition slack :: "sticky_session_state \<Rightarrow> nat" where
  "slack st = sum_list (map shard_slack (shards st))"

lemma shard_slack_le: "shard_slack s \<le> 127"
  by (simp add: shard_slack_def)

lemma slack_le: "slack st \<le> 127 * length (shards st)"
proof -
  have "sum_list (map shard_slack ss) \<le> 127 * length ss" for ss
    by (induction ss) (use shard_slack_le in \<open>auto simp: add_mono\<close>)
  then show ?thesis by (simp add: slack_def)
qed

lemma shard_slack_count:
  assumes "\<not> fst (should_cleanup s)"
  shows "shard_slack (snd (should_cleanup s)) = Suc (shard_slack s)"
proof -
  let ?c = "op_counter s"
  from assms have nz: "unat ?c mod 128 \<noteq> 0" by (simp add: should_cleanup_def)
  then have "?c \<noteq> 0" by auto
  then have "unat (?c - 1) = unat ?c - 1" by (rule unat_minus_one)
  moreover from nz obtain m where m: "unat ?c = Suc m" by (cases "unat ?c") auto
  moreover from nz m have "Suc m mod 128 = Suc (m mod 128)" by (simp add: mod_Suc split: if_splits)
  ultimately show ?thesis by (simp add: should_cleanup_def shard_slack_def)
qed

lemma slack_count_op:
  assumes "i < length (shards st)" "\<not> cleanup_due i st"
  shows "slack (count_op i st) = Suc (slack st)"
proof -
  have "shard_slack (snd (should_cleanup (shards st ! i))) = Suc (shard_slack (shards st ! i))"
    using assms(2) by (simp add: cleanup_due_def shard_slack_count)
  moreover have "shard_slack (shards st ! i) \<le> sum_list (map shard_slack (shards st))"
    using assms(1) by (intro member_le_sum_list) auto
  ultimately show ?thesis
    using assms(1)
    by (simp add: slack_def count_op_def set_shard_def map_update sum_list_update)
qed

lemma slack_cong:
  "map op_counter (shards st') = map op_counter (shards st) \<Longrightarrow> slack st' = slack st"
proof -
  assume "map op_counter (shards st') = map op_counter (shards st)"
  then have "map (\<lambda>c. unat (c - 1) mod 128) (map op_counter (shards st'))
      = map (\<lambda>c. unat (c - 1) mod 128) (map op_counter (shards st))" by simp
  then show ?thesis by (simp add: slack_def shard_slack_def [abs_def] comp_def)
qed

definition within_bound :: "sticky_session_state \<Rightarrow> bool" where
  "within_bound st \<longleftrightarrow> entry_count st \<le> sc_max_entries (st_config st) + slack st"

lemma within_bound_counted:
  assumes "iteration it" "wf_sticky_state h st" "i < length (shards st)"
    and "entry_count st \<le> sc_max_entries (st_config st) + Suc (slack st)"
  shows "within_bound (counted it now i st)"
proof (cases "cleanup_due i st")
  case True
  then show ?thesis
    by (simp add: within_bound_def counted_def cleanup_count [OF assms(1) count_op_wf [OF assms(2)]])
next
  case False
  with assms show ?thesis by (simp add: within_bound_def counted_def slack_count_op)
qed

section \<open>Entry counts of the operations\<close>

lemma lock_guards_update:
  "i < length ss \<Longrightarrow> poisoned s = poisoned (ss ! i) \<Longrightarrow>
   sum_list (map length (lock_guards (ss[i := s]))) + (if poisoned s then 0 else length (entries (ss ! i)))
     = sum_list (map length (lock_guards ss)) + (if poisoned s then 0 else length (entries s))"
proof (induction ss arbitrary: i)
  case (Cons a ss)
  then show ?case by (cases i) (auto split: if_splits)
qed simp

lemma entry_count_set_shard:
  assumes "i < length (shards st)" "poisoned s = poisoned (shards st ! i)"
  shows "entry_count (set_shard i s st) + (if poisoned s then 0 else length (entries (shards st ! i)))
       = entry_count st + (if poisoned s then 0 else length (entries s))"
  using lock_guards_update [OF assms] by (simp only: entry_count_def set_shard_def) simp

lemma entry_count_put:
  assumes "wf_sticky_state h st"
  shows "entry_count (put_entry h k e st) \<le> Suc (entry_count st)"
    and "binding h st k \<noteq> None \<Longrightarrow> entry_count (put_entry h k e st) = entry_count st"
proof -
  let ?i = "shard_index_for_key h st k"
  let ?s = "(shards st ! ?i)\<lparr>entries := hm_insert k e (entries (shards st ! ?i))\<rparr>"
  note eq = entry_count_set_shard [OF shard_index_less [OF assms], of ?s k]
  show "entry_count (put_entry h k e st) \<le> Suc (entry_count st)"
    using eq by (auto simp: put_entry_def Let_def length_hm_insert split: if_splits)
  show "binding h st k \<noteq> None \<Longrightarrow> entry_count (put_entry h k e st) = entry_count st"
    using eq by (auto simp: put_entry_def Let_def length_hm_insert binding_def split: if_splits)
qed

lemma entry_count_drop:
  assumes "wf_sticky_state h st"
  shows "entry_count (drop_entry h k st) \<le> entry_count st"
proof -
  let ?i = "shard_index_for_key h st k"
  let ?s = "(shards st ! ?i)\<lparr>entries := hm_remove k (entries (shards st ! ?i))\<rparr>"
  have "length (entries ?s) \<le> length (entries (shards st ! ?i))" by (simp add: hm_remove_def)
  then show ?thesis
    using entry_count_set_shard [OF shard_index_less [OF assms], of ?s k]
    by (auto simp: drop_entry_def Let_def split: if_splits)
qed

lemma map_op_counter_set_shard:
  "op_counter s = op_counter (shards st ! i) \<Longrightarrow>
   map op_counter (shards (set_shard i s st)) = map op_counter (shards st)"
  by (simp add: set_shard_def map_update list_update_same_conv)
     (metis list_update_beyond list_update_id map_update not_le)

lemma slack_put_drop [simp]:
  "slack (put_entry h k e st) = slack st" "slack (drop_entry h k st) = slack st"
  by (rule slack_cong, simp add: put_entry_def drop_entry_def Let_def map_op_counter_set_shard)+

lemma within_bound_put:
  "wf_sticky_state h st \<Longrightarrow> binding h st k \<noteq> None \<Longrightarrow> within_bound st \<Longrightarrow> within_bound (put_entry h k e st)"
  by (simp add: within_bound_def entry_count_put)

lemma within_bound_drop:
  "wf_sticky_state h st \<Longrightarrow> within_bound st \<Longrightarrow> within_bound (drop_entry h k st)"
  using entry_count_drop [of h st k] by (simp add: within_bound_def)

lemma within_bound_lookup:
  assumes "iteration it" "wf_sticky_state h st" "within_bound st"
  shows "within_bound (snd (sticky_lookup h it now a t k B st))"
proof -
  let ?k = "affinity_map_key_of a t k"
  let ?st = "counted it now (shard_index_for_key h st ?k) st"
  have "within_bound ?st"
    using assms shard_index_less by (intro within_bound_counted) (auto simp: within_bound_def)
  moreover have "wf_sticky_state h ?st" using assms(1,2) by (rule counted_wf)
  ultimately show ?thesis
    by (auto simp: sticky_lookup_eq [OF assms(1,2)] Let_def within_bound_put within_bound_drop
        split: option.splits)
qed

lemma within_bound_bind:
  assumes "iteration it" "wf_sticky_state h st" "within_bound st"
  shows "within_bound (sticky_bind h it now a t k b st)"
proof -
  let ?k = "affinity_map_key_of a t k"
  let ?st = "put_entry h ?k \<lparr>ae_backend = b, ae_expires_at = now + sc_ttl (st_config st)\<rparr> st"
  have wf: "wf_sticky_state h ?st" using assms(2) by (rule put_entry_wf)
  have "shard_index_for_key h st ?k < length (shards ?st)"
    using shard_index_less [OF assms(2)] by (simp add: put_entry_def Let_def)
  moreover have "entry_count ?st \<le> sc_max_entries (st_config ?st) + Suc (slack ?st)"
    using entry_count_put(1) [OF assms(2)] assms(3) by (simp add: within_bound_def) (meson Suc_le_mono le_trans)
  ultimately have "within_bound (counted it now (shard_index_for_key h st ?k) ?st)"
    by (rule within_bound_counted [OF assms(1) wf])
  with assms(3) show ?thesis by (simp add: sticky_bind_eq [OF assms(2)])
qed

lemma within_bound_remove:
  "wf_sticky_state h st \<Longrightarrow> within_bound st \<Longrightarrow> within_bound (sticky_remove h a t k st)"
  by (simp add: sticky_remove_eq within_bound_drop)

section \<open>Runs\<close>

text \<open>
  The calls on the store, and a thread that panics while it holds the lock of a shard, which
  poisons it.
\<close>

datatype sticky_op =
  OpLookup instant string transport_kind string "string set"
| OpBind instant string transport_kind string string
| OpRemove string transport_kind string
| OpGenerate "nat option"
| OpPoison nat

fun sticky_step :: "key_hash \<Rightarrow> iter_order \<Rightarrow> sticky_op \<Rightarrow> sticky_session_state \<Rightarrow> sticky_session_state" where
  "sticky_step h it (OpLookup now a t k B) st = snd (sticky_lookup h it now a t k B st)"
| "sticky_step h it (OpBind now a t k b) st = sticky_bind h it now a t k b st"
| "sticky_step h it (OpRemove a t k) st = sticky_remove h a t k st"
| "sticky_step h it (OpGenerate clock) st = snd (generate_affinity_key clock st)"
| "sticky_step h it (OpPoison i) st = set_shard i ((shards st ! i)\<lparr>poisoned := True\<rparr>) st"

definition sticky_run ::
    "key_hash \<Rightarrow> iter_order \<Rightarrow> sticky_op list \<Rightarrow> sticky_session_state \<Rightarrow> sticky_session_state" where
  "sticky_run h it ops st = fold (sticky_step h it) ops st"

definition sticky_inv :: "key_hash \<Rightarrow> sticky_session_config \<Rightarrow> sticky_session_state \<Rightarrow> bool" where
  "sticky_inv h cfg st \<longleftrightarrow> wf_sticky_state h st \<and> within_bound st \<and> st_config st = cfg"

lemma wf_sticky_state_new: "wf_sticky_state h (sticky_state_new cfg)"
  by (simp add: wf_sticky_state_def sticky_state_new_def sticky_shard_new_def hm.wf_empty)
     (simp add: hm_empty_def)

lemma lock_guards_replicate: "lock_guards (replicate n sticky_shard_new) = replicate n hm_empty"
  by (induction n) (simp_all add: sticky_shard_new_def)

lemma sticky_inv_new: "sticky_inv h cfg (sticky_state_new cfg)"
proof -
  have "entry_count (sticky_state_new cfg) = 0"
    by (simp add: entry_count_def sticky_state_new_def lock_guards_replicate hm_empty_def sum_list_replicate)
  then show ?thesis
    by (simp add: sticky_inv_def wf_sticky_state_new within_bound_def) (simp add: sticky_state_new_def)
qed

lemma lock_guards_poison:
  "i < length ss \<Longrightarrow>
   sum_list (map length (lock_guards (ss[i := (ss ! i)\<lparr>poisoned := True\<rparr>]))) \<le> sum_list (map length (lock_guards ss))"
proof (induction ss arbitrary: i)
  case (Cons s ss)
  then show ?case by (cases i) auto
qed simp

lemma poison_inv:
  assumes "sticky_inv h cfg st"
  shows "sticky_inv h cfg (set_shard i ((shards st ! i)\<lparr>poisoned := True\<rparr>) st)"
proof (cases "i < length (shards st)")
  case True
  let ?st = "set_shard i ((shards st ! i)\<lparr>poisoned := True\<rparr>) st"
  have "entry_count ?st \<le> entry_count st"
    using lock_guards_poison [OF True] by (simp add: entry_count_def set_shard_def)
  moreover have "slack ?st = slack st"
    by (rule slack_cong) (simp add: map_op_counter_set_shard)
  moreover have "wf_sticky_state h ?st"
    using assms by (intro wf_set_shard) (auto simp: sticky_inv_def wf_sticky_state_def)
  ultimately show ?thesis using assms by (auto simp: sticky_inv_def within_bound_def intro: le_trans)
next
  case False
  then have "set_shard i ((shards st ! i)\<lparr>poisoned := True\<rparr>) st = st"
    by (simp add: set_shard_def list_update_beyond)
  with assms show ?thesis by simp
qed

lemma sticky_step_inv:
  assumes "iteration it" "sticky_inv h cfg st"
  shows "sticky_inv h cfg (sticky_step h it op st)"
proof (cases op)
  case (OpGenerate clock)
  have "wf_sticky_state h (st\<lparr>key_counter := c\<rparr>) = wf_sticky_state h st"
    "within_bound (st\<lparr>key_counter := c\<rparr>) = within_bound st" for c
    by (simp_all add: wf_sticky_state_def within_bound_def entry_count_def slack_def)
  with OpGenerate assms(2) show ?thesis
    by (simp add: sticky_inv_def generate_affinity_key_def)
next
  case (OpPoison i)
  with assms(2) show ?thesis by (simp add: poison_inv)
qed (use assms in \<open>auto simp: sticky_inv_def sticky_lookup_wf sticky_bind_wf sticky_remove_wf
       within_bound_lookup within_bound_bind within_bound_remove\<close>)

lemma sticky_run_inv:
  "iteration it \<Longrightarrow> sticky_inv h cfg st \<Longrightarrow> sticky_inv h cfg (sticky_run h it ops st)"
  by (induction ops arbitrary: st) (simp_all add: sticky_run_def sticky_step_inv)

end
