(* ===== verification/Sticky_Sessions.thy ===== *)
theory Sticky_Sessions
  imports Sticky_Bound
begin

text \<open>
  Properties of the sticky session store (\<open>StickySessionState\<close> in \<open>src/router.rs\<close>): what a
  lookup answers, what binding and removing do, isolation of clients, the cleanup and its
  cadence, and the bound on the memory it takes.
\<close>

section \<open>A store for the witnesses\<close>

definition demo_config :: "nat \<Rightarrow> sticky_session_config" where
  "demo_config limit =
     \<lparr>sc_enabled = True, sc_cookie_name = ''nmt_affinity'', sc_header_name = ''x-nmt-affinity-key'',
      sc_ttl = 600, sc_max_entries = limit, sc_cookie_secure = False\<rparr>"

definition demo_store :: "nat \<Rightarrow> sticky_session_state" where
  "demo_store limit = sticky_state_new (demo_config limit)"

definition demo_hash :: key_hash where
  "demo_hash key = of_nat (length (amk_affinity_key key))"

lemma demo_store_facts [simp]:
  "wf_sticky_state h (demo_store m)" "sc_max_entries (st_config (demo_store m)) = m"
  "sc_ttl (st_config (demo_store m)) = 600" "entry_count (demo_store m) = 0"
  by (simp_all add: demo_store_def wf_sticky_state_new)
     (simp_all add: sticky_state_new_def demo_config_def entry_count_def lock_guards_replicate
       hm_empty_def sum_list_replicate)

lemma demo_store_healthy [simp]: "\<not> poisoned (shards (demo_store m) ! shard_index_for_key h (demo_store m) k)"
  using shard_index_less [OF demo_store_facts(1), of h m k]
  by (simp add: demo_store_def sticky_state_new_def) (simp add: sticky_shard_new_def)

section \<open>Lookups\<close>

lemma entry_count_counted:
  assumes "iteration it" "wf_sticky_state h st" "entry_count st \<le> sc_max_entries (st_config st)"
  shows "entry_count (counted it now i st) \<le> sc_max_entries (st_config st)"
  using assms by (simp add: counted_def cleanup_count [OF assms(1) count_op_wf [OF assms(2)]])

text \<open>Binding a key in a store that has room for it.\<close>

lemma sticky_bind_room:
  fixes k :: string
  assumes "iteration it" "wf_sticky_state h st"
    and "\<not> poisoned (shards st ! shard_index_for_key h st (affinity_map_key_of a t k))"
    and "entry_count st < sc_max_entries (st_config st)" "0 < sc_ttl (st_config st)"
  shows "entry_count (sticky_bind h it now a t k b st) \<le> sc_max_entries (st_config st)"
    and "binding h (sticky_bind h it now a t k b st) (affinity_map_key_of a t k)
           = Some \<lparr>ae_backend = b, ae_expires_at = now + sc_ttl (st_config st)\<rparr>"
proof -
  let ?k = "affinity_map_key_of a t k"
  let ?e = "\<lparr>ae_backend = b, ae_expires_at = now + sc_ttl (st_config st)\<rparr>"
  let ?p = "put_entry h ?k ?e st"
  have wf: "wf_sticky_state h ?p" using assms(2) by (rule put_entry_wf)
  have count: "entry_count ?p \<le> sc_max_entries (st_config ?p)"
    using entry_count_put(1) [OF assms(2), of ?k ?e] assms(4) by simp
  show "entry_count (sticky_bind h it now a t k b st) \<le> sc_max_entries (st_config st)"
    using assms(3) entry_count_counted [OF assms(1) wf count] by (simp add: sticky_bind_eq [OF assms(2)])
  have "live_count now ?p \<le> sc_max_entries (st_config ?p)"
    using live_le_entry [of now ?p] count by simp
  then show "binding h (sticky_bind h it now a t k b st) ?k = Some ?e"
    using assms(3,5) binding_counted_live [OF assms(1) wf, of now ?k ?e]
    by (simp add: sticky_bind_eq [OF assms(2)] binding_put_entry [OF assms(2)])
qed

text \<open>A lookup only ever answers a backend of the pool to which the key is bound with an
  expiry in the future, and it moves that expiry to a full lifetime from now.\<close>

theorem sticky_lookup_sound:
  assumes "iteration it" and "wf_sticky_state h st"
    and "sticky_lookup h it now a t k allowed st = (Some b, st')"
  shows "b \<in> allowed
    \<and> (\<exists>e. binding h st (affinity_map_key_of a t k) = Some e \<and> ae_backend e = b \<and> now < ae_expires_at e)
    \<and> binding h st' (affinity_map_key_of a t k)
        = Some \<lparr>ae_backend = b, ae_expires_at = now + sc_ttl (st_config st)\<rparr>"
  using sticky_lookup_hit [OF assms] by auto

text \<open>While the store has room, a client that is bound to a backend gets that backend from
  every lookup before its binding expires, as long as the backend stays in the pool.\<close>

theorem bind_then_lookup:
  assumes "iteration it" and "wf_sticky_state h st"
    and "\<not> poisoned (shards st ! shard_index_for_key h st (affinity_map_key_of a t k))"
    and "entry_count st < sc_max_entries (st_config st)"
    and "now' < now + sc_ttl (st_config st)" and "b \<in> allowed" and "now \<le> now'"
  shows "fst (sticky_lookup h it now' a t k allowed (sticky_bind h it now a t k b st)) = Some b"
proof -
  let ?st = "sticky_bind h it now a t k b st"
  have ttl: "0 < sc_ttl (st_config st)" using assms(5,7) by simp
  note room = sticky_bind_room [OF assms(1-4) ttl, of now b]
  have "live_count now' ?st \<le> sc_max_entries (st_config ?st)"
    using live_le_entry [of now' ?st] room(1) by simp
  from sticky_lookup_live [OF assms(1) sticky_bind_wf [OF assms(1,2)] this room(2)] assms(5,6)
  show ?thesis by simp
qed

theorem bind_then_lookup_witness:
  "fst (sticky_lookup demo_hash (\<lambda>m. m) 500 ''app'' Http1 ''k1'' {''10.0.0.1:80''}
     (sticky_bind demo_hash (\<lambda>m. m) 100 ''app'' Http1 ''k1'' ''10.0.0.1:80'' (demo_store 2))) = Some ''10.0.0.1:80''"
  by (rule bind_then_lookup) (simp_all add: iteration_id)

definition demo_bound :: sticky_session_state where
  "demo_bound = sticky_bind demo_hash (\<lambda>m. m) 100 ''app'' Http1 ''k1'' ''10.0.0.1:80'' (demo_store 2)"

lemma demo_bound_facts [simp]:
  "wf_sticky_state demo_hash demo_bound" "sc_ttl (st_config demo_bound) = 600"
  "sc_max_entries (st_config demo_bound) = 2" "entry_count demo_bound \<le> 2"
  "binding demo_hash demo_bound (affinity_map_key_of ''app'' Http1 ''k1'')
     = Some \<lparr>ae_backend = ''10.0.0.1:80'', ae_expires_at = 700\<rparr>"
  using sticky_bind_room [OF iteration_id demo_store_facts(1) [of demo_hash 2],
      where a = "''app''" and t = Http1 and k = "''k1''" and now = 100 and b = "''10.0.0.1:80''"]
  by (simp_all add: demo_bound_def sticky_bind_wf iteration_id)

lemma demo_bound_live [simp]: "live_count now demo_bound \<le> 2"
  using live_le_entry [of now demo_bound] demo_bound_facts(4) by linarith

theorem sticky_lookup_sound_witness:
  "binding demo_hash (snd (sticky_lookup demo_hash (\<lambda>m. m) 500 ''app'' Http1 ''k1'' {''10.0.0.1:80''} demo_bound))
     (affinity_map_key_of ''app'' Http1 ''k1'') = Some \<lparr>ae_backend = ''10.0.0.1:80'', ae_expires_at = 1100\<rparr>"
proof -
  have "fst (sticky_lookup demo_hash (\<lambda>m. m) 500 ''app'' Http1 ''k1'' {''10.0.0.1:80''} demo_bound) = Some ''10.0.0.1:80''"
    using sticky_lookup_live [OF iteration_id demo_bound_facts(1), of 500 "''app''" Http1 "''k1''" _ "{''10.0.0.1:80''}"]
    by simp
  then obtain st' where "sticky_lookup demo_hash (\<lambda>m. m) 500 ''app'' Http1 ''k1'' {''10.0.0.1:80''} demo_bound
      = (Some ''10.0.0.1:80'', st')" by (cases "sticky_lookup demo_hash (\<lambda>m. m) 500 ''app'' Http1 ''k1'' {''10.0.0.1:80''} demo_bound") simp
  with sticky_lookup_sound [OF iteration_id demo_bound_facts(1) this] show ?thesis by simp
qed

section \<open>Removing and isolation\<close>

text \<open>A removed key is bound to nothing: a lookup answers nothing until the key is bound
  again, and no other key is touched by the removal.\<close>

theorem sticky_remove_forgets:
  assumes "iteration it" and "wf_sticky_state h st"
  shows "fst (sticky_lookup h it now a t k allowed (sticky_remove h a t k st)) = None
    \<and> (j \<noteq> affinity_map_key_of a t k \<longrightarrow> binding h (sticky_remove h a t k st) j = binding h st j)"
proof -
  have "fst (sticky_lookup h it now a t k allowed (sticky_remove h a t k st)) \<noteq> Some b" for b
    using sticky_lookup_hit [OF assms(1) sticky_remove_wf [OF assms(2)], of now a t k allowed a t k b]
      sticky_remove_binding [OF assms(2), of a t k "affinity_map_key_of a t k"]
    by (metis option.distinct(1) prod.collapse)
  then have "fst (sticky_lookup h it now a t k allowed (sticky_remove h a t k st)) = None"
    by (metis option.exhaust)
  then show ?thesis by (simp add: sticky_remove_binding [OF assms(2)])
qed

theorem sticky_remove_forgets_witness:
  "fst (sticky_lookup demo_hash (\<lambda>m. m) 500 ''app'' Http1 ''k1'' {''10.0.0.1:80''}
     (sticky_remove demo_hash ''app'' Http1 ''k1'' demo_bound)) = None"
  using sticky_remove_forgets [OF iteration_id demo_bound_facts(1)] by blast

text \<open>No call made for one client, not even one that triggers a global cleanup, changes the
  backend or the expiry another client is bound to; at most it forgets that binding.\<close>

theorem other_clients_isolated:
  assumes "iteration it" and "wf_sticky_state h st" and "j \<noteq> affinity_map_key_of a t k"
    and "st' \<in> {snd (sticky_lookup h it now a t k allowed st), sticky_bind h it now a t k b st,
                sticky_remove h a t k st}"
    and "binding h st' j = Some e"
  shows "binding h st j = Some e"
  using assms(3-5) sticky_lookup_binding_other [OF assms(1-3)] sticky_bind_binding [OF assms(1,2)]
    sticky_remove_binding [OF assms(2)]
  by (auto split: if_splits)

theorem other_clients_isolated_witness:
  "binding demo_hash demo_bound (affinity_map_key_of ''app'' Http1 ''k1'') \<noteq> None"
proof -
  let ?j = "affinity_map_key_of ''app'' Http1 ''k1''"
  have "?j \<noteq> affinity_map_key_of ''app'' Ws ''k1''" by simp
  moreover have "binding demo_hash (sticky_remove demo_hash ''app'' Ws ''k1'' demo_bound) ?j
      = Some \<lparr>ae_backend = ''10.0.0.1:80'', ae_expires_at = 700\<rparr>"
    by (simp add: sticky_remove_binding)
  ultimately show ?thesis
    using other_clients_isolated [OF iteration_id demo_bound_facts(1)] by blast
qed

section \<open>Cleanup\<close>

lemma one_multiple_in_window: "0 < n \<Longrightarrow> length (filter (\<lambda>i. (c + i) mod n = 0) [0..<n]) = (1 :: nat)"
proof -
  assume n: "0 < n"
  let ?m = "(n - c mod n) mod n"
  have "(c + i) mod n = 0 \<longleftrightarrow> i = ?m" if "i < n" for i
  proof (cases "c mod n = 0")
    case True
    with that n show ?thesis by (simp add: mod_add_left_eq [symmetric])
  next
    case False
    define r where "r = c mod n"
    have r: "0 < r" "r < n" using False n by (simp_all add: r_def)
    have "(c + i) mod n = (r + i) mod n" by (simp add: r_def mod_add_left_eq)
    also have "\<dots> = (if r + i < n then r + i else r + i - n)"
      using r that by (simp add: mod_if [of "r + i"] )
    finally show ?thesis using r that by (auto simp: r_def [symmetric])
  qed
  then have "filter (\<lambda>i. (c + i) mod n = 0) [0..<n] = filter (\<lambda>i. i = ?m) [0..<n]"
    by (intro filter_cong) auto
  also have "length (filter (\<lambda>i. i = ?m) [0..<n]) = 1"
    using n by (simp add: distinct_length_filter)
  finally show ?thesis .
qed

text \<open>A global cleanup leaves exactly the live entries when they fit into \<open>max_entries\<close> and
  exactly \<open>max_entries\<close> of them otherwise.\<close>

theorem cleanup_leaves:
  assumes "iteration it" and "wf_sticky_state h st"
  shows "entry_count (cleanup_global it now st) = min (live_count now st) (sc_max_entries (st_config st))"
  using assms by (rule cleanup_count)

theorem cleanup_leaves_witness: "entry_count (cleanup_global (\<lambda>m. m) 800 demo_bound) \<le> 2"
  by (simp add: cleanup_leaves [OF iteration_id demo_bound_facts(1)])

text \<open>C15. A cleanup never alters an entry and drops every expired one; of the live entries it
  evicts those that expire first, so no evicted entry would have outlived one that is kept.\<close>

theorem cleanup_evicts_in_expiry_order:
  assumes "iteration it" and "wf_sticky_state h st"
    and "binding h (cleanup_global it now st) k' = Some e'"
  shows "binding h st k' = Some e' \<and> now < ae_expires_at e'
    \<and> (\<forall>k e. binding h st k = Some e \<and> now < ae_expires_at e
          \<and> binding h (cleanup_global it now st) k = None \<longrightarrow> ae_expires_at e \<le> ae_expires_at e')"
  using cleanup_keeps_only_live [OF assms] cleanup_evicts_first_expiring [OF assms(1,2) _ _ _ assms(3)]
  by blast

theorem cleanup_evicts_in_expiry_order_witness:
  "binding demo_hash demo_bound (affinity_map_key_of ''app'' Http1 ''k1'')
     = Some \<lparr>ae_backend = ''10.0.0.1:80'', ae_expires_at = 700\<rparr>"
proof -
  have "binding demo_hash (cleanup_global (\<lambda>m. m) 500 demo_bound) (affinity_map_key_of ''app'' Http1 ''k1'')
      = Some \<lparr>ae_backend = ''10.0.0.1:80'', ae_expires_at = 700\<rparr>"
    by (rule cleanup_keeps_live [OF iteration_id demo_bound_facts(1)]) simp_all
  from cleanup_evicts_in_expiry_order [OF iteration_id demo_bound_facts(1) this] show ?thesis by blast
qed

text \<open>Of any 128 consecutive operations of a shard exactly one asks for a global cleanup, also
  when the 64-bit operation counter wraps around in between.\<close>

theorem cleanup_cadence: "length (filter id (cleanup_flags 128 s)) = 1"
proof -
  have "length (filter (\<lambda>i. (c + i) mod 128 = 0) [0..<128]) = 1" for c :: nat
    by (rule one_multiple_in_window) simp
  then show ?thesis by (simp add: cleanup_flags_eq filter_map comp_def)
qed

text \<open>Whatever the sequence of calls, also with panics that poison shards, the store never
  holds more than \<open>max_entries\<close> entries plus 127 for each of its 64 shards.\<close>

theorem sticky_memory_bounded:
  assumes "iteration it"
  shows "entry_count (sticky_run h it ops (sticky_state_new cfg)) \<le> sc_max_entries cfg + 8128"
proof -
  have "sticky_inv h cfg (sticky_run h it ops (sticky_state_new cfg))"
    using assms sticky_inv_new by (rule sticky_run_inv)
  then show ?thesis
    using slack_le [of "sticky_run h it ops (sticky_state_new cfg)"]
    by (auto simp: sticky_inv_def within_bound_def wf_sticky_state_def STICKY_SHARD_COUNT_def)
qed

theorem sticky_memory_bounded_witness:
  "entry_count (sticky_run demo_hash rev [OpBind 0 ''app'' Ws ''k'' ''b'', OpPoison 3] (sticky_state_new (demo_config 2)))
     \<le> 8130"
  using sticky_memory_bounded [OF iteration_rev, of demo_hash _ "demo_config 2"] by (simp add: demo_config_def)

section \<open>The store against an unbounded map\<close>

text \<open>
  The store as a specification: one map from keys to backends with an expiry, that never evicts,
  never fails and is never poisoned. The implementation may forget bindings; it never answers
  anything the specification would not answer.
\<close>

type_synonym affinity_spec = "affinity_map_key \<rightharpoonup> affinity_entry"

fun spec_step :: "duration \<Rightarrow> sticky_op \<Rightarrow> affinity_spec \<Rightarrow> string option \<times> affinity_spec" where
  "spec_step ttl (OpLookup now a t k allowed) m =
     (let key = affinity_map_key_of a t k
      in case m key of
           None \<Rightarrow> (None, m)
         | Some e \<Rightarrow>
             if now < ae_expires_at e \<and> ae_backend e \<in> allowed
             then (Some (ae_backend e), m(key \<mapsto> e\<lparr>ae_expires_at := now + ttl\<rparr>))
             else (None, m(key := None)))"
| "spec_step ttl (OpBind now a t k b) m =
     (None, m(affinity_map_key_of a t k \<mapsto> \<lparr>ae_backend = b, ae_expires_at = now + ttl\<rparr>))"
| "spec_step ttl (OpRemove a t k) m = (None, m(affinity_map_key_of a t k := None))"
| "spec_step ttl (OpGenerate clock) m = (None, m)"
| "spec_step ttl (OpPoison i) m = (None, m)"

fun sticky_answer :: "key_hash \<Rightarrow> iter_order \<Rightarrow> sticky_op \<Rightarrow> sticky_session_state \<Rightarrow> string option" where
  "sticky_answer h it (OpLookup now a t k allowed) st = fst (sticky_lookup h it now a t k allowed st)"
| "sticky_answer h it op st = None"

fun sticky_answers :: "key_hash \<Rightarrow> iter_order \<Rightarrow> sticky_op list \<Rightarrow> sticky_session_state \<Rightarrow> string option list" where
  "sticky_answers h it [] st = []"
| "sticky_answers h it (op # ops) st =
     sticky_answer h it op st # sticky_answers h it ops (sticky_step h it op st)"

fun spec_answers :: "duration \<Rightarrow> sticky_op list \<Rightarrow> affinity_spec \<Rightarrow> string option list" where
  "spec_answers ttl [] m = []"
| "spec_answers ttl (op # ops) m = fst (spec_step ttl op m) # spec_answers ttl ops (snd (spec_step ttl op m))"

text \<open>The implementation knows at most what the specification knows.\<close>

definition forgets :: "key_hash \<Rightarrow> sticky_session_state \<Rightarrow> affinity_spec \<Rightarrow> bool" where
  "forgets h st m \<longleftrightarrow> (\<forall>j e. binding h st j = Some e \<longrightarrow> m j = Some e)"

lemma binding_poison:
  "wf_sticky_state h st \<Longrightarrow> binding h (set_shard i ((shards st ! i)\<lparr>poisoned := True\<rparr>) st) j = Some e \<Longrightarrow>
   binding h st j = Some e"
  by (simp add: binding_set_shard split: if_splits)

lemma sticky_simulation:
  assumes "iteration it" "wf_sticky_state h st" "forgets h st m"
  defines "ttl \<equiv> sc_ttl (st_config st)"
  shows "forgets h (sticky_step h it op st) (snd (spec_step ttl op m))"
    and "sticky_answer h it op st = Some b \<Longrightarrow> fst (spec_step ttl op m) = Some b"
proof -
  have known: "binding h st j = Some e \<Longrightarrow> m j = Some e" for j e using assms(3) by (simp add: forgets_def)
  show "sticky_answer h it op st = Some b \<Longrightarrow> fst (spec_step ttl op m) = Some b"
  proof (cases op)
    case (OpLookup now a t k allowed)
    assume "sticky_answer h it op st = Some b"
    with OpLookup obtain st' where "sticky_lookup h it now a t k allowed st = (Some b, st')"
      by (cases "sticky_lookup h it now a t k allowed st") auto
    from sticky_lookup_hit [OF assms(1,2) this] OpLookup show ?thesis
      by (auto simp: Let_def dest!: known)
  qed auto
  show "forgets h (sticky_step h it op st) (snd (spec_step ttl op m))"
    unfolding forgets_def
  proof (intro allI impI)
    fix j e assume b: "binding h (sticky_step h it op st) j = Some e"
    show "snd (spec_step ttl op m) j = Some e"
    proof (cases op)
      case (OpLookup now a t k allowed)
      show ?thesis
      proof (cases "j = affinity_map_key_of a t k")
        case True
        obtain r st' where l: "sticky_lookup h it now a t k allowed st = (r, st')" by fastforce
        with OpLookup b True sticky_lookup_miss [OF assms(1,2), of now a t k allowed st'] obtain x where "r = Some x"
          by (cases r) auto
        with l sticky_lookup_hit [OF assms(1,2), of now a t k allowed x st'] OpLookup b True show ?thesis
          by (auto simp: Let_def ttl_def dest: known)
      next
        case False
        with OpLookup b sticky_lookup_binding_other [OF assms(1,2) False] known show ?thesis
          by (auto simp: Let_def split: option.splits)
      qed
    next
      case (OpBind now a t k backend)
      with b sticky_bind_binding [OF assms(1,2), of now a t k backend j e] known show ?thesis
        by (auto simp: ttl_def split: if_splits)
    next
      case (OpRemove a t k)
      with b known show ?thesis by (auto simp: sticky_remove_binding [OF assms(2)] split: if_splits)
    next
      case (OpGenerate clock)
      with b known show ?thesis
        by (auto simp: generate_affinity_key_def binding_def shard_index_for_key_def)
    next
      case (OpPoison i)
      with b known binding_poison [OF assms(2)] show ?thesis by auto
    qed
  qed
qed

lemma sticky_answers_sound:
  assumes "iteration it" "sticky_inv h cfg st" "forgets h st m"
  shows "list_all2 (\<lambda>r s. r = None \<or> r = s) (sticky_answers h it ops st) (spec_answers (sc_ttl cfg) ops m)"
  using assms(2,3)
proof (induction ops arbitrary: st m)
  case (Cons op ops)
  from Cons.prems have wf: "wf_sticky_state h st" and ttl: "sc_ttl (st_config st) = sc_ttl cfg"
    by (auto simp: sticky_inv_def)
  note sim = sticky_simulation [OF assms(1) wf Cons.prems(2), of op, unfolded ttl]
  from Cons.IH [OF sticky_step_inv [OF assms(1) Cons.prems(1)] sim(1)] sim(2) show ?case
    by (cases "sticky_answer h it op st") auto
qed simp

text \<open>C3. The store refines an unbounded map with expiries: over any sequence of calls, cleanups
  and poisoned locks included, each lookup answers nothing or exactly what the map answers.\<close>

theorem sticky_store_refines_map:
  assumes "iteration it"
  shows "list_all2 (\<lambda>answer spec. answer = None \<or> answer = spec)
    (sticky_answers h it ops (sticky_state_new cfg)) (spec_answers (sc_ttl cfg) ops Map.empty)"
proof (rule sticky_answers_sound [OF assms sticky_inv_new])
  have "binding h (sticky_state_new cfg) j = None" for j
    using shard_index_less [OF wf_sticky_state_new, of h cfg j]
    by (simp add: binding_def Let_def sticky_state_new_def) (simp add: sticky_shard_new_def hm_empty_def hm_get_def)
  then show "forgets h (sticky_state_new cfg) Map.empty" by (simp add: forgets_def)
qed

theorem sticky_store_refines_map_witness:
  "list_all2 (\<lambda>answer spec. answer = None \<or> answer = spec)
    (sticky_answers demo_hash rev
       [OpBind 0 ''app'' Ws ''k'' ''b'', OpLookup 10 ''app'' Ws ''k'' {''b''}, OpPoison 1] (sticky_state_new (demo_config 2)))
    [None, Some ''b'', None]"
  using sticky_store_refines_map [OF iteration_rev, of demo_hash
      "[OpBind 0 ''app'' Ws ''k'' ''b'', OpLookup 10 ''app'' Ws ''k'' {''b''}, OpPoison 1]" "demo_config 2"]
  by (simp add: demo_config_def)

end
