(* ===== verification/Upstream_Choice.thy ===== *)
theory Upstream_Choice
  imports Request_Handling Sticky_Sessions
begin

text \<open>
  Properties of \<open>upstream_peer\<close>, \<open>fail_to_connect\<close>, \<open>response_filter\<close> and
  \<open>upstream_request_filter\<close>: where a request is sent and how, and what is tried next.
\<close>

section \<open>The steps\<close>

lemma upstream_peer_Inr:
  assumes "upstream_peer h it now now' select new_peer R ctx = (Inr peer, R', ctx')"
  obtains p addr where "cx_resolved_pool ctx = Some p" "ctx' = ctx"
    "select_address h it now now' select R ctx p = (Some addr, R')"
    "peer = (apply_upstream_timeouts (ro_timeouts R) (new_peer addr (rp_secure p) (rp_verify_hostname p)))
              \<lparr>hp_http_version := (if rp_is_http2 p then (2, 2) else (1, 1))\<rparr>"
  using assms by (auto simp: upstream_peer_def Let_def split: option.splits prod.splits)

lemma select_address_sticky:
  assumes "ro_sticky R = Some st" "cx_app_name ctx = Some app" "cx_affinity_key ctx = Some key"
  shows "select_address h it now now' select R ctx p =
    (let r = sticky_choose (sticky_lookup h it now app (rp_transport p) key)
               (sticky_bind h it now' app (rp_transport p) key)
               (select (rp_lb p) key) (rp_backends p) st
     in (fst r, R\<lparr>ro_sticky := Some (snd r)\<rparr>))"
  using assms by (simp add: select_address_def Let_def split: prod.splits)

lemma select_address_plain:
  "ro_sticky R = None \<or> cx_affinity_key ctx = None \<Longrightarrow>
   select_address h it now now' select R ctx p = (select (rp_lb p) [], R)"
  by (auto simp: select_address_def split: option.splits)

section \<open>The peer\<close>

text \<open>The address is a backend of the pool that the client is bound to, or the choice of the load balancer.\<close>

lemma select_address_source:
  assumes "select_address h it now now' select R ctx p = (Some addr, R')"
    and "iteration it" and "\<And>st. ro_sticky R = Some st \<Longrightarrow> wf_sticky_state h st"
  shows "addr \<in> rp_backends p \<or> (\<exists>key. select (rp_lb p) key = Some addr)"
proof (cases "\<exists>st app key. ro_sticky R = Some st \<and> cx_app_name ctx = Some app \<and> cx_affinity_key ctx = Some key")
  case True
  then obtain st app key where s: "ro_sticky R = Some st" "cx_app_name ctx = Some app" "cx_affinity_key ctx = Some key"
    by blast
  have "sticky_ok h it st" using assms(2,3) s(1) by (simp add: sticky_ok_def)
  from sticky.choose_source [OF this, of now app "rp_transport p" key now' "select (rp_lb p) key" "rp_backends p" addr]
  show ?thesis using assms(1) by (auto simp: select_address_sticky [OF s] Let_def prod_eq_iff)
qed (use assms(1) in \<open>auto simp: select_address_def split: option.splits\<close>)

text \<open>C16. A request is sent to a backend of its pool or to the one the load balancer of that pool
  selects, over TLS exactly when the pool is secure, with the pool's name to verify, with HTTP/2
  exactly for an HTTP/2 pool, and under the configured timeouts.\<close>

theorem upstream_peer_of_pool:
  assumes "upstream_peer h it now now' select new_peer R ctx = (Inr peer, R', ctx')"
    and "cx_resolved_pool ctx = Some p"
    and "iteration it" and "\<And>st. ro_sticky R = Some st \<Longrightarrow> wf_sticky_state h st"
    and "\<And>a t n. hp_address (new_peer a t n) = a \<and> hp_tls (new_peer a t n) = t \<and> hp_sni (new_peer a t n) = n"
  shows "(hp_address peer \<in> rp_backends p \<or> (\<exists>key. select (rp_lb p) key = Some (hp_address peer)))
    \<and> hp_tls peer = rp_secure p \<and> hp_sni peer = rp_verify_hostname p
    \<and> hp_http_version peer = (if rp_is_http2 p then (2, 2) else (1, 1))
    \<and> hp_connection_timeout peer = Some (unat (upstream_connect_timeout_ms (ro_timeouts R)) * 1000000)
    \<and> hp_total_connection_timeout peer = hp_connection_timeout peer
    \<and> hp_read_timeout peer = Some (unat (upstream_read_timeout_ms (ro_timeouts R)) * 1000000)
    \<and> hp_write_timeout peer = Some (unat (upstream_write_timeout_ms (ro_timeouts R)) * 1000000)"
proof -
  from assms(1) obtain addr where addr: "select_address h it now now' select R ctx p = (Some addr, R')"
    and peer: "peer = (apply_upstream_timeouts (ro_timeouts R) (new_peer addr (rp_secure p) (rp_verify_hostname p)))
      \<lparr>hp_http_version := (if rp_is_http2 p then (2, 2) else (1, 1))\<rparr>"
    by (rule upstream_peer_Inr) (use assms(2) in simp)
  have "addr \<in> rp_backends p \<or> (\<exists>key. select (rp_lb p) key = Some addr)"
    using addr assms(3,4) by (rule select_address_source)
  then show ?thesis
    by (simp add: peer apply_upstream_timeouts_def Let_def assms(5) duration_ms_def from_millis_def unat_ucast_u32)
qed

definition sample_ws_ctx :: "string list router_ctx" where
  "sample_ws_ctx = new_ctx\<lparr>cx_resolved_pool := Some sample_ws_pool\<rparr>"

theorem upstream_peer_of_pool_witness:
  "\<exists>peer R' ctx'. upstream_peer sample_hash (\<lambda>m. m) 0 0 sample_select sample_peer sample_router sample_ws_ctx
       = (Inr peer, R', ctx')
     \<and> hp_http_version peer = (1, 1) \<and> hp_read_timeout peer = Some 60000000000"
proof -
  have pool: "cx_resolved_pool sample_ws_ctx = Some sample_ws_pool" by (simp add: sample_ws_ctx_def)
  have wf: "ro_sticky sample_router = Some st \<Longrightarrow> wf_sticky_state sample_hash st" for st
    by (auto simp: sample_router_def router_new_def wf_sticky_state_new split: if_splits)
  have "select_address sample_hash (\<lambda>m. m) 0 0 sample_select sample_router sample_ws_ctx sample_ws_pool
      = (Some ''127.0.0.1:4001'', sample_router)"
    by (subst select_address_plain)
       (simp_all add: sample_ws_ctx_def new_ctx_def sample_select_def sample_ws_pool_def sample_pool_def)
  then obtain peer where peer: "upstream_peer sample_hash (\<lambda>m. m) 0 0 sample_select sample_peer sample_router
      sample_ws_ctx = (Inr peer, sample_router, sample_ws_ctx)"
    by (simp add: upstream_peer_def pool Let_def)
  from upstream_peer_of_pool [OF this pool iteration_id wf] show ?thesis
    using peer by (simp add: sample_peer_def sample_ws_pool_def)
      (simp add: sample_router_def router_new_def sample_timeouts_def)
qed

section \<open>Stickiness\<close>

text \<open>A client whose key is bound to a live backend of the pool is sent to that backend,
  whatever the load balancer would select, and its binding is extended.\<close>

theorem sticky_client_returns:
  assumes "iteration it" and "wf_sticky_state h st"
    and "ro_sticky R = Some st" and "cx_app_name ctx = Some app" and "cx_affinity_key ctx = Some key"
    and "cx_resolved_pool ctx = Some p"
    and "sticky_view h st app (rp_transport p) key = Some (backend, expires)"
    and "now < expires" and "backend \<in> rp_backends p"
    and "live_count now st \<le> sc_max_entries (st_config st)"
  shows "\<exists>st'. upstream_peer h it now now' select new_peer R ctx =
      (Inr ((apply_upstream_timeouts (ro_timeouts R) (new_peer backend (rp_secure p) (rp_verify_hostname p)))
              \<lparr>hp_http_version := (if rp_is_http2 p then (2, 2) else (1, 1))\<rparr>),
       R\<lparr>ro_sticky := Some st'\<rparr>, ctx)
    \<and> sticky_view h st' app (rp_transport p) key = Some (backend, now + sc_ttl (st_config st))"
proof -
  let ?k = "affinity_map_key_of app (rp_transport p) key"
  from assms(7) obtain e where e: "binding h st ?k = Some e" "ae_backend e = backend" "ae_expires_at e = expires"
    by (auto simp: sticky_view_def)
  obtain st' where l: "sticky_lookup h it now app (rp_transport p) key (rp_backends p) st = (Some backend, st')"
    using sticky_lookup_live [OF assms(1,2,10) e(1), of "rp_backends p"] assms(8,9) e(2,3)
    by (cases "sticky_lookup h it now app (rp_transport p) key (rp_backends p) st") auto
  have "select_address h it now now' select R ctx p = (Some backend, R\<lparr>ro_sticky := Some st'\<rparr>)"
    using l by (simp add: select_address_sticky [OF assms(3-5)] sticky_choose_def)
  moreover have "sticky_view h st' app (rp_transport p) key = Some (backend, now + sc_ttl (st_config st))"
    using sticky_lookup_hit [OF assms(1,2) l] by (auto simp: sticky_view_def)
  ultimately show ?thesis by (intro exI [of _ st']) (simp add: upstream_peer_def assms(6) Let_def)
qed

definition demo_pool :: "string list resolved_pool" where
  "demo_pool =
     \<lparr>rp_lb = \<lparr>lb_inner = [''10.0.0.2:80''], lb_health_check = None, lb_health_check_frequency = None\<rparr>,
      rp_secure = False, rp_verify_hostname = ''localhost'', rp_is_http2 = False, rp_transport = Http1,
      rp_backends = {''10.0.0.1:80'', ''10.0.0.2:80''}\<rparr>"

definition demo_ctx :: "string list router_ctx" where
  "demo_ctx = new_ctx\<lparr>cx_app_name := Some ''app'', cx_affinity_key := Some ''k1'',
     cx_resolved_pool := Some demo_pool, cx_selected_transport := Some Http1\<rparr>"

definition demo_router :: "string list router" where
  "demo_router = sample_router\<lparr>ro_sticky := Some demo_bound\<rparr>"

lemma demo_simps [simp]:
  "ro_sticky demo_router = Some demo_bound" "cx_app_name demo_ctx = Some ''app''"
  "cx_affinity_key demo_ctx = Some ''k1''" "cx_resolved_pool demo_ctx = Some demo_pool"
  "cx_selected_transport demo_ctx = Some Http1" "rp_transport demo_pool = Http1"
  "rp_backends demo_pool = {''10.0.0.1:80'', ''10.0.0.2:80''}" "\<not> rp_is_http2 demo_pool"
  "sample_select (rp_lb demo_pool) key = Some ''10.0.0.2:80''"
  by (simp_all add: demo_router_def demo_ctx_def demo_pool_def sample_select_def)

theorem sticky_client_returns_witness:
  "\<exists>peer R'. upstream_peer demo_hash (\<lambda>m. m) 500 500 sample_select sample_peer demo_router demo_ctx
      = (Inr peer, R', demo_ctx) \<and> hp_address peer = ''10.0.0.1:80''"
  using sticky_client_returns [OF iteration_id demo_bound_facts(1), of demo_router demo_ctx "''app''" "''k1''"
      demo_pool "''10.0.0.1:80''" 700 500 500 sample_select sample_peer]
  by (auto simp: sticky_view_def sample_peer_def apply_upstream_timeouts_def Let_def)

text \<open>Once an address is chosen for a client, its key is bound to that address with a full
  lifetime or to nothing, and what every other client is bound to has not changed or is gone.\<close>

theorem upstream_peer_binds:
  assumes "iteration it" and "wf_sticky_state h st"
    and "ro_sticky R = Some st" and "cx_app_name ctx = Some app" and "cx_affinity_key ctx = Some key"
    and "select_address h it now now' select R ctx p = (Some addr, R')"
  shows "\<exists>st'. ro_sticky R' = Some st' \<and> wf_sticky_state h st'
    \<and> (\<forall>v. sticky_view h st' app (rp_transport p) key = Some v \<longrightarrow>
          fst v = addr \<and> snd v \<in> {now + sc_ttl (st_config st), now' + sc_ttl (st_config st)})
    \<and> (\<forall>a t k v. (a, t, k) \<noteq> (app, rp_transport p, key) \<and> sticky_view h st' a t k = Some v \<longrightarrow>
          sticky_view h st a t k = Some v)"
proof -
  let ?l = "sticky_lookup h it now app (rp_transport p) key" and ?b = "sticky_bind h it now' app (rp_transport p) key"
  let ?sel = "select (rp_lb p) key"
  have ok: "sticky_ok h it st" using assms(1,2) by (simp add: sticky_ok_def)
  obtain st' where c: "sticky_choose ?l ?b ?sel (rp_backends p) st = (Some addr, st')"
    and R': "R' = R\<lparr>ro_sticky := Some st'\<rparr>"
    using assms(6) by (auto simp: select_address_sticky [OF assms(3-5)] Let_def prod_eq_iff)
  have "wf_sticky_state h st'"
    using sticky.choose_ok [OF ok, of now app "rp_transport p" key now' ?sel "rp_backends p"] c
    by (simp add: sticky_ok_def)
  moreover have "fst v = addr \<and> snd v \<in> {now + sc_ttl (st_config st), now' + sc_ttl (st_config st)}"
    if "sticky_view h st' app (rp_transport p) key = Some v" for v
    using sticky.choose_binds [OF ok c that] by blast
  moreover have "sticky_view h st a t k = Some v"
    if "(a, t, k) \<noteq> (app, rp_transport p, key)" "sticky_view h st' a t k = Some v" for a t k v
    using sticky.choose_other [OF ok that(1), of now now' ?sel "rp_backends p" v] that(2) c by simp
  ultimately show ?thesis using R' by auto
qed

theorem upstream_peer_binds_witness:
  "\<exists>R' st'. select_address demo_hash (\<lambda>m. m) 500 500 sample_select demo_router demo_ctx demo_pool
      = (Some ''10.0.0.1:80'', R') \<and> ro_sticky R' = Some st' \<and> wf_sticky_state demo_hash st'"
proof -
  have "fst (sticky_lookup demo_hash (\<lambda>m. m) 500 ''app'' Http1 ''k1'' (rp_backends demo_pool) demo_bound)
      = Some ''10.0.0.1:80''"
    using sticky_lookup_live [OF iteration_id demo_bound_facts(1), of 500 "''app''" Http1 "''k1''"] by simp
  then obtain s1 where "sticky_lookup demo_hash (\<lambda>m. m) 500 ''app'' Http1 ''k1'' (rp_backends demo_pool) demo_bound
      = (Some ''10.0.0.1:80'', s1)" by (metis prod.collapse)
  then obtain R' where "select_address demo_hash (\<lambda>m. m) 500 500 sample_select demo_router demo_ctx demo_pool
      = (Some ''10.0.0.1:80'', R')"
    by (simp add: select_address_sticky [of demo_router demo_bound demo_ctx "''app''" "''k1''"] sticky_choose_def Let_def)
  from this upstream_peer_binds [OF iteration_id demo_bound_facts(1) demo_simps(1-3) this] show ?thesis
    by auto
qed

section \<open>Failed connections\<close>

lemma fail_to_connect_sticky:
  assumes "ro_sticky R = Some st" "cx_app_name ctx = Some app" "cx_selected_transport ctx = Some t"
    and "cx_affinity_key ctx = Some key"
  shows "fail_to_connect h R ctx e =
    (if cx_sticky_retry_attempted ctx then e else e\<lparr>pe_retry := True\<rparr>,
     R\<lparr>ro_sticky := Some (sticky_remove h app t key st)\<rparr>,
     if cx_sticky_retry_attempted ctx then ctx else ctx\<lparr>cx_sticky_retry_attempted := True\<rparr>)"
  using assms by (simp add: fail_to_connect_def Let_def)

text \<open>C38. After a failed connection the binding of the client is gone: the next choice is the load
  balancer's, never the backend that has just failed out of the store.\<close>

theorem reconnect_uses_load_balancer:
  assumes "iteration it" and "wf_sticky_state h st"
    and "ro_sticky R = Some st" and "cx_app_name ctx = Some app" and "cx_affinity_key ctx = Some key"
    and "cx_resolved_pool ctx = Some p" and "cx_selected_transport ctx = Some (rp_transport p)"
    and "fail_to_connect h R ctx e = (e', R', ctx')"
  shows "cx_resolved_pool ctx' = Some p
    \<and> fst (select_address h it now now' select R' ctx' p) = select (rp_lb p) key"
proof -
  have ok: "sticky_ok h it st" using assms(1,2) by (simp add: sticky_ok_def)
  have R': "ro_sticky R' = Some (sticky_remove h app (rp_transport p) key st)"
    and ctx': "cx_app_name ctx' = Some app" "cx_affinity_key ctx' = Some key" "cx_resolved_pool ctx' = Some p"
    using assms(4-6,8) by (auto simp: fail_to_connect_sticky [OF assms(3,4,7,5)])
  from sticky.choose_after_remove [OF ok, of now app "rp_transport p" key now' "select (rp_lb p) key" "rp_backends p"]
  show ?thesis using ctx' by (simp add: select_address_sticky [OF R' ctx'(1,2)] Let_def prod_eq_iff)
qed

theorem reconnect_uses_load_balancer_witness:
  "\<exists>e' R' ctx'. fail_to_connect demo_hash demo_router demo_ctx (explain InternalError ''refused'') = (e', R', ctx')
     \<and> fst (select_address demo_hash (\<lambda>m. m) 500 500 sample_select R' ctx' demo_pool) = Some ''10.0.0.2:80''"
proof -
  obtain e' R' ctx' where f: "fail_to_connect demo_hash demo_router demo_ctx (explain InternalError ''refused'')
      = (e', R', ctx')" using prod_cases3 by blast
  have "cx_selected_transport demo_ctx = Some (rp_transport demo_pool)" by simp
  from reconnect_uses_load_balancer [OF iteration_id demo_bound_facts(1) demo_simps(1-4) this f] f show ?thesis
    by (metis demo_simps(9))
qed

text \<open>A series of failed connections of one request, each with the error Pingora hands over and the
  router as the attempt left it; the errors given back.\<close>

fun connect_failures ::
    "key_hash \<Rightarrow> ('lb router \<times> proxy_error) list \<Rightarrow> 'lb router_ctx \<Rightarrow> proxy_error list" where
  "connect_failures h [] ctx = []"
| "connect_failures h ((R, e) # rest) ctx =
     (let (e', R', ctx') = fail_to_connect h R ctx e in e' # connect_failures h rest ctx')"

lemma fail_to_connect_retry:
  "fail_to_connect h R ctx e = (e', R', ctx') \<Longrightarrow>
   (e' = e \<and> ctx' = ctx) \<or> (e' = e\<lparr>pe_retry := True\<rparr> \<and> \<not> cx_sticky_retry_attempted ctx
      \<and> ctx' = ctx\<lparr>cx_sticky_retry_attempted := True\<rparr>)"
  by (auto simp: fail_to_connect_def Let_def split: option.splits if_splits)

lemma connect_failures_count:
  "length (filter pe_retry (connect_failures h attempts ctx))
     \<le> length (filter (\<lambda>(R, e). pe_retry e) attempts) + (if cx_sticky_retry_attempted ctx then 0 else 1)"
proof (induction attempts arbitrary: ctx)
  case (Cons a rest)
  obtain R e where a: "a = (R, e)" by fastforce
  obtain e' R' ctx' where f: "fail_to_connect h R ctx e = (e', R', ctx')" using prod_cases3 by blast
  from fail_to_connect_retry [OF f] Cons.IH [of ctx'] show ?case by (auto simp: a f)
qed simp

text \<open>However many connection attempts of one request fail, the proxy itself asks for at most
  one retry.\<close>

theorem single_sticky_retry:
  assumes "list_all (\<lambda>(R, e). \<not> pe_retry e) attempts"
  shows "length (filter pe_retry (connect_failures h attempts ctx)) \<le> 1"
proof -
  have "filter (\<lambda>(R, e). pe_retry e) attempts = []"
    using assms by (auto simp: filter_empty_conv list_all_iff)
  with connect_failures_count [of h attempts ctx] show ?thesis by (simp split: if_splits)
qed

theorem single_sticky_retry_witness:
  "length (filter pe_retry (connect_failures demo_hash
     [(demo_router, explain InternalError ''a''), (demo_router, explain InternalError ''b'')] demo_ctx)) \<le> 1"
  by (rule single_sticky_retry) (simp add: explain_def)

section \<open>The cookie of a response\<close>

text \<open>What \<open>ResponseHeader::append_header\<close> promises: when it accepts a header it adds it at the end, and it
  accepts a \<open>Set-Cookie\<close> whose value consists of printable ASCII characters (32 to 126). It may refuse others.\<close>

definition printable :: "char \<Rightarrow> bool" where
  "printable c \<longleftrightarrow> 32 \<le> byte c \<and> byte c < 127"

definition appends_headers :: "(header_map \<Rightarrow> string \<Rightarrow> string \<Rightarrow> string + header_map) \<Rightarrow> bool" where
  "appends_headers append_header \<longleftrightarrow>
     (\<forall>hs n v hs'. append_header hs n v = Inr hs' \<longrightarrow> hs' = hs @ [(n, v)])
     \<and> (\<forall>hs v. list_all printable v \<longrightarrow> (\<exists>hs'. append_header hs ''set-cookie'' v = Inr hs'))"

text \<open>An implementation that refuses every other value.\<close>

definition strict_append :: "header_map \<Rightarrow> string \<Rightarrow> string \<Rightarrow> string + header_map" where
  "strict_append hs n v = (if list_all printable v then Inr (hs @ [(n, v)]) else Inl ''invalid header value'')"

lemma strict_append_appends: "appends_headers strict_append"
  by (auto simp: appends_headers_def strict_append_def)

lemma printable_alphanumeric: "is_ascii_alphanumeric c \<Longrightarrow> printable c"
  by (auto simp: printable_def ascii_class_defs byte_def)

lemma printable_safe_key: "is_cookie_safe_affinity_key k \<Longrightarrow> list_all printable k"
proof -
  have "printable c" if "is_ascii_alphanumeric c \<or> c = CHR ''.'' \<or> c = CHR ''_'' \<or> c = CHR ''-''" for c
    using that printable_alphanumeric by (elim disjE) (simp_all add: printable_def byte_def)
  then show "is_cookie_safe_affinity_key k \<Longrightarrow> list_all printable k"
    by (simp add: is_cookie_safe_affinity_key_def list_all_iff)
qed

lemma printable_to_dec: "list_all printable (to_dec n)"
  using to_dec_digits [of n] by (auto simp: list_all_iff printable_def ascii_class_defs byte_def)

lemma printable_cookie:
  assumes "list_all printable (sc_cookie_name cfg)" "is_cookie_safe_affinity_key key"
  shows "list_all printable (cookie_header_value cfg key)"
  using assms printable_safe_key [OF assms(2)] printable_to_dec
  by (simp add: cookie_header_value_def Let_def) (simp add: printable_def byte_def)

text \<open>C36. With sticky sessions on, every request that was let through has an affinity key that is safe:
  letters, digits, dot, underscore and dash only, at most 256 bytes, so no header or attribute can be
  injected through it. Its response gets at most one more header, the \<open>Set-Cookie\<close> with that key, and
  does get it when the configured cookie name consists of printable ASCII characters. With other cookie names
  Pingora may refuse the header; then the response filter fails with an internal error.\<close>

theorem response_sets_safe_cookie:
  assumes "request_filter L respond clock R s ds new_ctx = Ret (Inr False, R', ds', ctx')"
    and "ro_sticky R = Some st" and "\<And>n. clock = Some n \<Longrightarrow> n < 2 ^ 128"
    and "appends_headers append_header"
  shows "\<exists>key. cx_affinity_key ctx' = Some key \<and> is_cookie_safe_affinity_key key
    \<and> (case response_filter append_header R' headers ctx' of
         Inr headers' \<Rightarrow> headers' = headers @ [(''set-cookie'', cookie_header_value (st_config st) key)]
       | Inl e \<Rightarrow> pe_etype e = InternalError \<and> \<not> list_all printable (sc_cookie_name (st_config st)))"
  using assms(1)
proof (cases rule: request_filter_outcomes)
  case (limit status)
  with assms(1) show ?thesis
    by (auto simp: request_filter_limit reject_request_def Let_def split: option.splits)
next
  case unrouted
  with assms(1) show ?thesis by (simp add: request_filter_unrouted)
next
  case (no_pool route)
  with assms(1) request_filter_no_pool [OF no_pool, of respond clock ds] show ?thesis by auto
next
  case (pool route p)
  let ?k = "request_affinity_key L clock s st"
  have key: "cx_affinity_key ctx' = Some (fst ?k)" "cx_should_set_cookie ctx'" "ro_sticky R' = Some (snd ?k)"
    using assms(1,2) request_filter_pool [OF pool, of respond clock ds] by auto
  have cfg: "st_config (snd ?k) = st_config st"
    using request_affinity_key_state [of L clock s st] by auto
  have safe: "is_cookie_safe_affinity_key (fst ?k)" by (rule request_affinity_key_safe [OF assms(3)])
  have "case response_filter append_header R' headers ctx' of
         Inr headers' \<Rightarrow> headers' = headers @ [(''set-cookie'', cookie_header_value (st_config st) (fst ?k))]
       | Inl e \<Rightarrow> pe_etype e = InternalError \<and> \<not> list_all printable (sc_cookie_name (st_config st))"
  proof (cases "append_header headers ''set-cookie'' (cookie_header_value (st_config st) (fst ?k))")
    case (Inl e)
    then have "\<not> list_all printable (cookie_header_value (st_config st) (fst ?k))"
      using assms(4) unfolding appends_headers_def by (metis sum.distinct(1))
    with printable_cookie [OF _ safe] Inl show ?thesis by (auto simp: response_filter_def key cfg because_def)
  next
    case (Inr hs)
    with assms(4) show ?thesis by (simp add: response_filter_def key cfg appends_headers_def)
  qed
  with key(1) safe show ?thesis by blast
qed

theorem response_sets_safe_cookie_witness:
  "\<exists>R' ctx' key. response_filter strict_append (R' :: string list router) [] ctx'
       = Inr [(''set-cookie'', cookie_header_value sample_sticky key)] \<and> is_cookie_safe_affinity_key key"
proof -
  obtain R' ctx' where rf: "request_filter sample_lib (\<lambda>_. None) None sample_router sample_ws_request
      sample_downstream new_ctx
      = Ret (Inr False, R', apply_downstream_timeouts (ro_timeouts sample_router) sample_downstream, ctx')"
    using sample_ws_accepted by blast
  have st: "ro_sticky sample_router = Some (sticky_state_new sample_sticky)"
    by (simp add: sample_router_def router_new_def sample_sticky_def)
  have "list_all printable (sc_cookie_name sample_sticky)" by (simp add: sample_sticky_def) code_simp
  moreover have "st_config (sticky_state_new sample_sticky) = sample_sticky" by (simp add: sticky_state_new_def)
  ultimately show ?thesis
    using response_sets_safe_cookie [OF rf st _ strict_append_appends, of "[]"]
    by (cases "response_filter strict_append R' [] ctx'") auto
qed

lemma own_cookie_key:
  assumes "plain_cookie_name (sc_cookie_name (st_config st))" and "is_cookie_safe_affinity_key key"
    and "list_all (\<lambda>p. CHR '';'' \<notin> set p \<and> cookie_pair_value (sc_cookie_name (st_config st)) p = None) before"
    and "list_all (\<lambda>p. CHR '';'' \<notin> set p) after"
    and "header_text L s ''cookie''
      = Some (cookie_header (before @ cookie_pair_of (cookie_header_value (st_config st) key) # after))"
  shows "request_affinity_key L clock s st = (key, st)"
proof -
  let ?n = "sc_cookie_name (st_config st)"
  let ?own = "?n @ ''='' @ key"
  have own: "cookie_pair_of (cookie_header_value (st_config st) key) = ?own"
    using assms(1,2) by (rule cookie_pair_of_header_value)
  have "\<forall>p\<in>set (before @ ?own # after). CHR '';'' \<notin> set p"
    using assms(1-4) by (auto simp: list_all_iff plain_cookie_name_def dest: safe_key_byte(2))
  then have "extract_cookie_value L s ?n = find_map (cookie_pair_value ?n) (before @ ?own # after)"
    by (simp add: extract_cookie_value_def assms(5) own find_map_cookie_header(1))
  also have "\<dots> = Some key"
    using assms(3) by (simp add: find_map_skip list_all_iff cookie_pair_value_own [OF assms(1,2), simplified])
  finally show ?thesis by (simp add: request_affinity_key_def)
qed

text \<open>C37. When the configured cookie name is plain (it begins with an ASCII character other than white space and contains
  neither an equals sign nor a semicolon), a client that sends back the cookie it was given, after any
  other cookies under other names and before any others at all, is recognised by the same key, and no
  new key is drawn. The options also accept names that are not plain; with an equals sign or a semicolon in
  the name the client is not recognised by its cookie.\<close>

theorem cookie_round_trip:
  assumes "plain_cookie_name (sc_cookie_name (st_config st))" and "is_cookie_safe_affinity_key key"
    and "list_all (\<lambda>p. CHR '';'' \<notin> set p \<and> cookie_pair_value (sc_cookie_name (st_config st)) p = None) before"
    and "list_all (\<lambda>p. CHR '';'' \<notin> set p) after"
    and "header_text L s ''cookie''
      = Some (cookie_header (before @ cookie_pair_of (cookie_header_value (st_config st) key) # after))"
  shows "request_affinity_key L clock s st = (key, st)"
  using assms by (rule own_cookie_key)

theorem cookie_round_trip_witness:
  "request_affinity_key sample_lib None
     (sample_request ''/'' [(''cookie'', ''a=b; nmt_affinity=k1; c'')] False) (sticky_state_new sample_sticky)
   = (''k1'', sticky_state_new sample_sticky)"
proof (rule cookie_round_trip [where before = "[''a=b'']" and after = "[''c'']"])
  have n: "sc_cookie_name (st_config (sticky_state_new sample_sticky)) = ''nmt_affinity''"
    by (simp add: sticky_state_new_def sample_sticky_def)
  have "cookie_pair_value ''nmt_affinity'' ''a=b'' = None" by code_simp
  then show "list_all (\<lambda>p. CHR '';'' \<notin> set p \<and> cookie_pair_value
      (sc_cookie_name (st_config (sticky_state_new sample_sticky))) p = None) [''a=b'']" by (simp add: n)
  show plain: "plain_cookie_name (sc_cookie_name (st_config (sticky_state_new sample_sticky)))"
    unfolding n by code_simp
  show safe: "is_cookie_safe_affinity_key ''k1''" by code_simp
  show "header_text sample_lib (sample_request ''/'' [(''cookie'', ''a=b; nmt_affinity=k1; c'')] False) ''cookie''
      = Some (cookie_header ([''a=b''] @ cookie_pair_of (cookie_header_value
          (st_config (sticky_state_new sample_sticky)) ''k1'') # [''c'']))"
    unfolding cookie_pair_of_header_value [OF plain safe] n
    by (simp add: header_text_def sample_lib_def sample_request_def)
qed simp

end
