(* ===== verification/Rewriting.thy ===== *)
theory Rewriting
  imports Upstream_Choice
begin

text \<open>
  Properties of the host and path handling: the host a request is routed by, the segment it is
  routed by, the path it is forwarded with, and when routing panics.
\<close>

section \<open>Hosts\<close>

text \<open>A \<open>Host\<close> value: a name that is no IPv6 literal, and perhaps a port.\<close>

definition host_value :: "string \<Rightarrow> string \<Rightarrow> bool" where
  "host_value name port \<longleftrightarrow>
     name \<noteq> [] \<and> CHR '':'' \<notin> set name \<and> hd name \<noteq> CHR ''[''
     \<and> (port = [] \<or> hd port = CHR '':'' \<and> list_all is_ascii_digit (tl port))"

lemma extract_host_value:
  assumes "header_text L s ''host'' = Some (name @ port)" "host_value name port"
  shows "\<exists>host. extract_host L s = Ret (Some host) \<and> cow_str host = to_ascii_lowercase name"
proof -
  from assms(2) have n: "name \<noteq> []" "CHR '':'' \<notin> set name" "hd name \<noteq> CHR ''[''"
    by (simp_all add: host_value_def)
  then have "\<not> starts_with name ''[''" by (cases name) (auto simp: starts_with_single)
  moreover have "port = [] \<or> (\<exists>digits. port = CHR '':'' # digits \<and> list_all is_ascii_digit digits)"
    using assms(2) by (cases port) (auto simp: host_value_def)
  ultimately have "strip_port_str (name @ port) = Ret name"
    using strip_port_plain [OF n(1,3)] strip_port_none [OF n(2)] by auto
  from normalize_host_strip [OF this] obtain c where "normalize_host (name @ port) = Ret c"
    "cow_str c = to_ascii_lowercase name" by (cases "normalize_host (name @ port)") auto
  then show ?thesis by (simp add: extract_host_text [OF assms(1)])
qed

text \<open>The host a request is routed by does not depend on the letter case or on the port of its
  \<open>Host\<close> header: requests whose hosts differ only in these are routed alike.\<close>

theorem host_ignores_case_and_port:
  assumes "header_text L s ''host'' = Some (name @ port)" and "host_value name port"
    and "header_text L s' ''host'' = Some (name' @ port')" and "host_value name' port'"
    and "to_ascii_lowercase name = to_ascii_lowercase name'" and "req_path s = req_path s'"
    and "request_limit_rejection_status L s limits = None" and "request_limit_rejection_status L s' limits = None"
    and "ro_limits R = limits"
  shows "routed L R s route = routed L R s' route"
proof -
  obtain host host' where "extract_host L s = Ret (Some host)" "extract_host L s' = Ret (Some host')"
    "cow_str host = cow_str host'"
    using extract_host_value [OF assms(1,2)] extract_host_value [OF assms(3,4)] assms(5) by auto
  with assms(6-9) show ?thesis by (simp add: routed_def)
qed

theorem host_ignores_case_and_port_witness:
  "routed sample_lib sample_router (sample_request ''/'' [(''host'', ''Api.Example.COM:8080'')] False) (Some \<lparr>rr_app_name = ''api'', rr_path_rewrite_segment = None\<rparr>)
   = routed sample_lib sample_router (sample_request ''/'' [(''host'', ''api.example.com'')] False) (Some \<lparr>rr_app_name = ''api'', rr_path_rewrite_segment = None\<rparr>)"
proof (rule host_ignores_case_and_port)
  show "header_text sample_lib (sample_request ''/'' [(''host'', ''Api.Example.COM:8080'')] False) ''host''
      = Some (''Api.Example.COM'' @ '':8080'')"
    "header_text sample_lib (sample_request ''/'' [(''host'', ''api.example.com'')] False) ''host''
      = Some (''api.example.com'' @ [])"
    by (simp_all add: header_text_def sample_lib_def sample_request_def)
  show "host_value ''Api.Example.COM'' '':8080''" "host_value ''api.example.com'' []" by code_simp+
  show "to_ascii_lowercase ''Api.Example.COM'' = to_ascii_lowercase ''api.example.com''" by code_simp
qed (simp_all add: sample_router_def router_new_def sample_request_def request_header_count_def)

text \<open>A request whose \<open>Host\<close> header is text never makes the request filter panic, whatever its
  path, headers and limits are.\<close>

theorem request_filter_returns:
  assumes "header_text L s ''host'' = Some v" and "utf8 v"
  shows "\<exists>r. request_filter L respond clock R s ds ctx = Ret r"
proof -
  obtain h where "strip_port_str v = Ret h" using strip_port_returns [OF assms(2)] by blast
  then have "\<exists>c. extract_host L s = Ret c"
    by (auto simp: extract_host_text [OF assms(1)] normalize_host_def)
  then show ?thesis
    by (auto simp: request_filter_def Let_def case_prod_unfold split: option.splits)
qed

theorem request_filter_returns_witness:
  "\<exists>r. request_filter sample_lib (\<lambda>_. None) None sample_router sample_api_request sample_downstream new_ctx = Ret r"
proof (rule request_filter_returns)
  show "header_text sample_lib sample_api_request ''host'' = Some ''api.example.com''"
    by (simp add: header_text_def sample_lib_def sample_api_request_def sample_request_def)
  show "utf8 ''api.example.com''" by code_simp
qed

text \<open>C40. A request without a readable \<open>Host\<close> header panics the request filter: the code falls
  back to a header named \<open>:authority\<close>, which is not a header name (a colon is no token character),
  and \<open>HeaderName::from_static\<close> panics on such names.\<close>

theorem request_without_host_panics:
  assumes "request_limit_rejection_status L s (ro_limits R) = None"
    and "header_text L s ''host'' = None"
    and "\<And>name. CHR '':'' \<in> set name \<Longrightarrow> hl_from_static L name = None"
  shows "request_filter L respond clock R s ds ctx = Panic"
  using assms by (simp add: request_filter_def extract_host_def host_text_def Let_def)

theorem request_without_host_panics_witness:
  "request_filter sample_lib (\<lambda>_. None) None sample_router (sample_request ''/'' [] False) sample_downstream new_ctx
     = Panic"
proof (rule request_without_host_panics)
  show "request_limit_rejection_status sample_lib (sample_request ''/'' [] False) (ro_limits sample_router) = None"
    by (simp add: sample_defs router_new_def request_header_count_def)
qed (simp_all add: header_text_def sample_lib_def sample_request_def)

section \<open>Paths\<close>

lemma target_parts:
  assumes "CHR ''?'' \<notin> set path" "query = [] \<or> hd query = CHR ''?''"
  shows "target_path (path @ query) = path" "target_query (path @ query) = query"
proof -
  have "takeWhile (\<lambda>c. c \<noteq> CHR ''?'') (path @ query) = path @ takeWhile (\<lambda>c. c \<noteq> CHR ''?'') query"
    "dropWhile (\<lambda>c. c \<noteq> CHR ''?'') (path @ query) = dropWhile (\<lambda>c. c \<noteq> CHR ''?'') query"
    using assms(1) by (auto intro!: takeWhile_append2 dropWhile_append2)
  with assms(2) show "target_path (path @ query) = path" "target_query (path @ query) = query"
    by (cases query; simp add: target_path_def target_query_def)+
qed

text \<open>C34. The path rewrite is total on text and does exactly this: a path \<open>/seg\<close> or \<open>/seg/...\<close> loses
  its first segment (an empty rest becomes \<open>/\<close>), the query stays, and any other path, such as one
  whose first segment only begins with \<open>seg\<close>, is left alone.\<close>

theorem strip_first_path_segment_exact:
  assumes "utf8 (path @ query)" and "utf8 seg"
    and "CHR ''?'' \<notin> set path" and "query = [] \<or> hd query = CHR ''?''"
  shows "map_rust (map_option cow_str) (strip_first_path_segment (path @ query) seg) =
    Ret (if \<exists>rest. path = CHR ''/'' # seg @ rest \<and> (rest = [] \<or> hd rest = CHR ''/'')
         then Some ((if length path = length seg + 1 then ''/'' else drop (length seg + 1) path) @ query)
         else None)"
  by (auto simp: strip_first_path_segment_spec [OF assms(1,2)] rewrite_spec_def
      target_parts [OF assms(3,4)] Let_def)

theorem strip_first_path_segment_exact_witness:
  "map_rust (map_option cow_str) (strip_first_path_segment ''/auth/login?x=1'' ''auth'') = Ret (Some ''/login?x=1'')"
proof -
  have "utf8 (''/auth/login'' @ ''?x=1'')" "utf8 ''auth''" by code_simp+
  from strip_first_path_segment_exact [OF this] show ?thesis by auto
qed

text \<open>Routing by path and rewriting agree on ordinary paths: the segment found in
  \<open>/seg\<close> or \<open>/seg/...\<close> is \<open>seg\<close>, and the upstream gets the path without it.\<close>

theorem segment_then_strip:
  assumes "seg \<noteq> []" and "CHR ''/'' \<notin> set seg" and "CHR ''?'' \<notin> set (seg @ rest)"
    and "rest = [] \<or> hd rest = CHR ''/''" and "query = [] \<or> hd query = CHR ''?''"
    and "utf8 (''/'' @ seg @ rest @ query)" and "utf8 seg"
  shows "extract_first_path_segment (''/'' @ seg @ rest) = Some seg
    \<and> map_rust (map_option cow_str) (strip_first_path_segment (''/'' @ seg @ rest @ query) seg)
        = Ret (Some ((if rest = [] then ''/'' else rest) @ query))"
proof
  show "extract_first_path_segment (''/'' @ seg @ rest) = Some seg"
    using assms(1,2,4) by (simp add: extract_first_path_segment_slash extract_first_path_segment_segment)
  have "target_path ((''/'' @ seg @ rest) @ query) = ''/'' @ seg @ rest"
    "target_query ((''/'' @ seg @ rest) @ query) = query"
    using assms(3,5) by (intro target_parts; simp)+
  with strip_first_path_segment_spec [OF assms(6,7)] assms(4)
  show "map_rust (map_option cow_str) (strip_first_path_segment (''/'' @ seg @ rest @ query) seg)
      = Ret (Some ((if rest = [] then ''/'' else rest) @ query))"
    by (auto simp: rewrite_spec_def Let_def)
qed

theorem segment_then_strip_witness:
  "extract_first_path_segment ''/auth/x/y'' = Some ''auth''
   \<and> map_rust (map_option cow_str) (strip_first_path_segment ''/auth/x/y?q'' ''auth'') = Ret (Some ''/x/y?q'')"
proof -
  have "utf8 (''/'' @ ''auth'' @ ''/x/y'' @ ''?q'')" "utf8 ''auth''" by code_simp+
  from segment_then_strip [OF _ _ _ _ _ this] show ?thesis by simp
qed

text \<open>They disagree on paths with several leading slashes: \<open>//seg/...\<close> is routed to the
  application of \<open>seg\<close>, but its path is not rewritten.\<close>

theorem double_slash_not_rewritten:
  assumes "seg \<noteq> []" and "CHR ''/'' \<notin> set seg" and "CHR ''?'' \<notin> set (seg @ rest)"
    and "rest = [] \<or> hd rest = CHR ''/''"
    and "utf8 (''//'' @ seg @ rest)" and "utf8 seg"
  shows "extract_first_path_segment (''//'' @ seg @ rest) = Some seg
    \<and> strip_first_path_segment (''//'' @ seg @ rest) seg = Ret None"
proof
  show "extract_first_path_segment (''//'' @ seg @ rest) = Some seg"
    using assms(1,2,4) by (simp add: extract_first_path_segment_slash extract_first_path_segment_segment)
  have "target_path ((''//'' @ seg @ rest) @ []) = ''//'' @ seg @ rest"
    using assms(3) by (intro target_parts) simp_all
  moreover have "CHR ''/'' # seg @ rest \<noteq> seg @ t" for t
    using assms(1,2) by (cases seg) auto
  ultimately show "strip_first_path_segment (''//'' @ seg @ rest) seg = Ret None"
    using strip_first_path_segment_spec [OF assms(5,6)] by (auto simp: rewrite_spec_def)
qed

theorem double_slash_not_rewritten_witness:
  "extract_first_path_segment ''//auth/x'' = Some ''auth'' \<and> strip_first_path_segment ''//auth/x'' ''auth'' = Ret None"
proof -
  have "utf8 (''//'' @ ''auth'' @ ''/x'')" "utf8 ''auth''" by code_simp+
  from double_slash_not_rewritten [OF _ _ _ _ this] show ?thesis by simp
qed

text \<open>C35. The upstream gets the rewritten path and query exactly when the route asks for a rewrite
  that applies, an unbuildable URI is an internal error, and a request routed by its host or by
  default keeps its URI; none of it panics.\<close>

theorem upstream_request_rewritten:
  assumes "\<And>seg. cx_path_rewrite_segment ctx = Some seg \<Longrightarrow> utf8 seg"
    and "\<And>pq. path_and_query uri = Some pq \<Longrightarrow> utf8 pq"
  shows "upstream_request_filter path_and_query build uri ctx =
    Ret (case (cx_path_rewrite_segment ctx, path_and_query uri) of
           (Some seg, Some pq) \<Rightarrow>
             (case rewrite_spec pq seg of
                Some new \<Rightarrow> (case build (cow_str new) of
                               Inr uri' \<Rightarrow> Inr uri'
                             | Inl e \<Rightarrow> Inl (because InternalError ''failed to rewrite upstream uri'' e))
              | None \<Rightarrow> Inr uri)
         | _ \<Rightarrow> Inr uri)"
proof (cases "cx_path_rewrite_segment ctx = None \<or> path_and_query uri = None")
  case False
  then obtain seg pq where s: "cx_path_rewrite_segment ctx = Some seg" "path_and_query uri = Some pq" by auto
  with assms have u: "utf8 pq" "utf8 seg" by auto
  show ?thesis
    using s by (auto simp: upstream_request_filter_def strip_first_path_segment_spec [OF u]
        split: option.splits sum.splits)
qed (auto simp: upstream_request_filter_def split: option.splits)

theorem upstream_request_rewritten_witness:
  "upstream_request_filter Some Inr ''/auth?x'' (new_ctx\<lparr>cx_path_rewrite_segment := Some ''auth''\<rparr> :: string list router_ctx)
     = Ret (Inr ''/?x'')"
proof -
  have "utf8 ''auth''" "utf8 ''/auth?x''" by code_simp+
  then show ?thesis
    by (subst upstream_request_rewritten)
       (auto simp: rewrite_spec_def target_path_def target_query_def Let_def simp del: utf8.simps)
qed

end
