(* ===== verification/Proxy_Operation.thy ===== *)
theory Proxy_Operation
  imports Proxy_Props Rewriting
begin

text \<open>
  Properties of the proxy object: its pools, its upstream updates, start and stop, and the routes
  of its applications.
\<close>

section \<open>A proxy for the witnesses\<close>

definition sample_parsed :: proxy_options_parsed where
  "sample_parsed =
     \<lparr>po_listen = ''127.0.0.1:0'', po_tls = None,
      po_applications = [\<lparr>a_name = ''app'', a_routing = Subdomain ''Api.example.com'', a_sni = None\<rparr>],
      po_health_check_interval_ms = 5000,
      po_sticky_sessions = \<lparr>ss_enabled = False, ss_cookie_name = ''nmt_affinity'',
        ss_header_name = ''x-nmt-affinity-key'', ss_ttl_ms = 600000, ss_max_entries = 20000\<rparr>,
      po_limits = Disabled,
      po_timeouts = \<lparr>downstream_header_timeout_ms = 10000, downstream_body_idle_timeout_ms = 60000,
        upstream_connect_timeout_ms = 5000, upstream_read_timeout_ms = 60000, upstream_write_timeout_ms = 60000,
        downstream_keep_alive_timeout_seconds = 75\<rparr>\<rparr>"

lemma sample_parse: "parse_proxy_options demo_options = Inr sample_parsed"
  by (simp add: parse_proxy_options_def demo_options_def sample_parsed_def parse_application_options_def
      parse_application_sni_def parse_sticky_session_options_def parse_limits_options_def
      parse_timeout_options_def timeout_default_defs validate_applications_def require_routing_name_def Let_def)

definition sample_env :: "(string, string list) update_env" where
  "sample_env =
     \<lparr>ue_net = \<lparr>nl_resolve = (\<lambda>h p. Inr [h]), nl_addr_text = id, nl_try_from_iter = Inr\<rparr>,
      ue_orders = \<lparr>set_order = id, transport_order = id\<rparr>, ue_pool_order = id\<rparr>"

definition sample_upstream :: upstream_options where
  "sample_upstream = PortUpstream \<lparr>o_type = ''port'', o_transport = ''http'', o_secure = False,
     o_hostname = ''10.0.0.1'', o_port = 3000\<rparr>"

definition sample_world :: "string list world" where
  "sample_world =
    \<lparr>w_inner = \<lparr>pi_options = sample_parsed, pi_state = Stopped, pi_listen_address = None,
                    pi_start_notifier = None, pi_stop_notifier = None, pi_server = server_new,
                    pi_router = router_update (build_router_config sample_parsed hm_empty)
                      (router_new router_config_default (sticky_config_of sample_parsed) (po_limits sample_parsed) (po_timeouts sample_parsed)),
                    pi_upstreams_by_app = initial_upstreams (po_applications sample_parsed),
                    pi_pools = hm_empty\<rparr>, w_start_channels = [], w_stop_channels = []\<rparr>"

lemma sample_new: "proxy_new demo_options = Inr sample_world"
  by (simp add: proxy_new_def sample_parse sample_world_def)

definition sample_app :: application where
  "sample_app = \<lparr>a_name = ''app'', a_routing = Subdomain ''Api.example.com'', a_sni = None\<rparr>"

definition sample_port :: port_upstream where
  "sample_port = \<lparr>pu_transport = Http1, pu_secure = False, pu_hostname = ''10.0.0.1'', pu_port = 3000\<rparr>"

lemma sample_parse_upstream: "parse_port_upstream sample_upstream = Inr sample_port"
  by (simp add: sample_upstream_def parse_transport_def sample_port_def)

lemma sample_env_ok: "env_ok sample_env"
  by (simp add: env_ok_def sample_env_def orders_ok_def iteration_def)

section \<open>Pools\<close>

text \<open>C26. The pools built for an application are those of its set of upstreams, whatever order the
  hash maps are visited in: one pool for each transport that has an upstream and none for the
  others, secure when its upstreams are, with the addresses its upstreams resolve to.\<close>

theorem pools_of_upstreams:
  assumes "orders_ok orders" and "hm_wf upstreams"
    and "rebuild_app_pools N orders app upstreams interval = Inr (new_pools, removed)"
  shows "(hm_get new_pools t = None \<longleftrightarrow> upstreams_of upstreams t = {})
    \<and> (t \<in> set removed \<longleftrightarrow> upstreams_of upstreams t = {})
    \<and> (\<forall>p. hm_get new_pools t = Some p \<longrightarrow>
          (\<forall>u\<in>upstreams_of upstreams t. pu_secure u = pc_secure p)
          \<and> (if pc_secure p then verify_hostname_for_secure_upstream app = Inr (pc_verify_hostname p)
             else pc_verify_hostname p = [])
          \<and> pc_backends p = nl_addr_text N ` resolved_addrs N (upstreams_of upstreams t)
          \<and> pc_backends p \<noteq> {}
          \<and> lb_health_check_frequency (pc_lb p) = Some (unat interval * 1000000))"
  using rebuild_app_pools_Inr [OF assms, of t] by (auto simp: pool_spec_def)

lemma sample_rebuild:
  "\<exists>r. rebuild_app_pools (ue_net sample_env) (ue_orders sample_env) app (hs_insert sample_port hm_empty) i = Inr r"
  by (simp add: rebuild_app_pools_def sample_env_def sample_port_def hs_insert_def hs_contains_def hm_empty_def
      hm_get_def hm_insert_def by_transport_def push_upstream_def build_pool_def Let_def)

lemma sample_set: "hm_wf (hs_insert sample_port hm_empty)"
  "upstreams_of (hs_insert sample_port hm_empty) Http1 = {sample_port}"
  "upstreams_of (hs_insert sample_port hm_empty) Ws = {}"
  "upstreams_of (hs_insert sample_port hm_empty) Http2 = {}"
  by (simp add: hm_wf_sets hm.wf_empty)
     (auto simp: upstreams_of_def hs_insert_def hs_contains_def hm.get_insert hm.get_empty sample_port_def split: if_splits)

theorem pools_of_upstreams_witness:
  "\<exists>new_pools removed. rebuild_app_pools (ue_net sample_env) (ue_orders sample_env) sample_app
      (hs_insert sample_port hm_empty) 5000 = Inr (new_pools, removed)
    \<and> hm_get new_pools Http1 \<noteq> None \<and> Ws \<in> set removed"
proof -
  obtain new_pools removed where r: "rebuild_app_pools (ue_net sample_env) (ue_orders sample_env) sample_app
      (hs_insert sample_port hm_empty) 5000 = Inr (new_pools, removed)"
    using sample_rebuild by (metis prod.exhaust)
  have "orders_ok (ue_orders sample_env)" using sample_env_ok by (simp add: env_ok_def)
  note pools_of_upstreams [OF this sample_set(1) r]
  from this [of Http1] this [of Ws] r show ?thesis by (simp add: sample_set)
qed

definition pool_buildable :: "('addr, 'lb) net_lib \<Rightarrow> application \<Rightarrow> port_upstream set \<Rightarrow> bool" where
  "pool_buildable N app U \<longleftrightarrow>
     (\<forall>u\<in>U. \<forall>v\<in>U. pu_secure u = pu_secure v)
     \<and> (\<forall>u\<in>U. pu_secure u \<longrightarrow> (\<exists>h. verify_hostname_for_secure_upstream app = Inr h))
     \<and> (\<forall>u\<in>U. \<exists>found. nl_resolve N (pu_hostname u) (pu_port u) = Inr found)
     \<and> resolved_addrs N U \<noteq> {}"

lemma resolve_upstreams_ok:
  "\<forall>u\<in>set us. \<exists>found. nl_resolve N (pu_hostname u) (pu_port u) = Inr found \<Longrightarrow>
   \<exists>addrs. resolve_upstreams N us acc = Inr addrs"
  by (induction us arbitrary: acc) auto

lemma build_pool_ok:
  assumes "us \<noteq> []" "pool_buildable N app (set us)"
    and "\<And>addrs. addrs \<noteq> [] \<Longrightarrow> \<exists>lb. nl_try_from_iter N addrs = Inr lb"
  shows "\<exists>p. build_pool N app i us = Inr p"
proof -
  have hd: "hd us \<in> set us" using assms(1) by simp
  note b = assms(2) [unfolded pool_buildable_def]
  note agree = conjunct1 [OF b] and name = conjunct1 [OF conjunct2 [OF b]]
  note found = conjunct1 [OF conjunct2 [OF conjunct2 [OF b]]]
    and some = conjunct2 [OF conjunct2 [OF conjunct2 [OF b]]]
  obtain addrs where addrs: "resolve_upstreams N us [] = Inr addrs"
    using resolve_upstreams_ok [OF found] by blast
  have "addrs \<noteq> []" using resolve_upstreams_set [OF addrs] some by auto
  with assms(3) obtain lb where lb: "nl_try_from_iter N addrs = Inr lb" by blast
  obtain v where v: "(if pu_secure (hd us) then verify_hostname_for_secure_upstream app else Inr []) = Inr v"
    using bspec [OF name hd] by (cases "pu_secure (hd us)") auto
  have same: "(\<exists>u\<in>set us. pu_secure u \<noteq> pu_secure (hd us)) = False"
    using agree hd by blast
  show ?thesis
    unfolding build_pool_def Let_def same if_False v and_then.simps addrs
    using lb \<open>addrs \<noteq> []\<close> by simp
qed

text \<open>C27. Rebuilding the pools succeeds exactly when, for each transport that has upstreams, they are
  all secure or all insecure, secure ones have a name to verify, every host name resolves, and at
  least one address comes out; Pingora accepts any non-empty list of addresses.\<close>

theorem rebuild_succeeds_iff:
  assumes "orders_ok orders" and "hm_wf upstreams"
    and "\<And>addrs. addrs \<noteq> [] \<Longrightarrow> \<exists>lb. nl_try_from_iter N addrs = Inr lb"
  shows "(\<exists>r. rebuild_app_pools N orders app upstreams interval = Inr r) \<longleftrightarrow>
    (\<forall>t. upstreams_of upstreams t \<noteq> {} \<longrightarrow> pool_buildable N app (upstreams_of upstreams t))"
proof
  assume "\<exists>r. rebuild_app_pools N orders app upstreams interval = Inr r"
  then obtain new_pools removed where r: "rebuild_app_pools N orders app upstreams interval = Inr (new_pools, removed)"
    by auto
  show "\<forall>t. upstreams_of upstreams t \<noteq> {} \<longrightarrow> pool_buildable N app (upstreams_of upstreams t)"
  proof (intro allI impI)
    fix t assume "upstreams_of upstreams t \<noteq> {}"
    with rebuild_app_pools_Inr [OF assms(1,2) r, of t] obtain p
      where "pool_spec N app interval (upstreams_of upstreams t) p" by auto
    then show "pool_buildable N app (upstreams_of upstreams t)"
      by (auto simp: pool_spec_def pool_buildable_def split: if_splits)
  qed
next
  let ?us = "map fst (set_order orders upstreams)"
  let ?gs = "transport_order orders (by_transport ?us)"
  assume all: "\<forall>t. upstreams_of upstreams t \<noteq> {} \<longrightarrow> pool_buildable N app (upstreams_of upstreams t)"
  note g = rebuild_groups [OF assms(1,2)]
  have "\<exists>p. build_pool N app interval l = Inr p" if "(t, l) \<in> set ?gs" for t l
  proof -
    have l: "l = filter (\<lambda>u. pu_transport u = t) ?us" "l \<noteq> []" using that g(2) [of t l] by auto
    then have "set l = upstreams_of upstreams t" using g(3) [of t] by simp
    with l all have "pool_buildable N app (set l)" by (metis set_empty)
    then show ?thesis by (rule build_pool_ok [OF l(2) _ assms(3)])
  qed
  then obtain m where "build_pools N app interval ?gs hm_empty = Inr m"
    using build_pools_ok [of ?gs N app interval hm_empty] by auto
  then show "\<exists>r. rebuild_app_pools N orders app upstreams interval = Inr r"
    by (simp add: rebuild_app_pools_def Let_def)
qed

theorem rebuild_succeeds_iff_witness:
  "pool_buildable (ue_net sample_env) sample_app (upstreams_of (hs_insert sample_port hm_empty) Http1)"
proof -
  have o: "orders_ok (ue_orders sample_env)" using sample_env_ok by (simp add: env_ok_def)
  have "\<exists>lb. nl_try_from_iter (ue_net sample_env) addrs = Inr lb" for addrs by (simp add: sample_env_def)
  from iffD1 [OF rebuild_succeeds_iff [OF o sample_set(1) this] sample_rebuild]
  have "\<forall>t. upstreams_of (hs_insert sample_port hm_empty) t \<noteq> {} \<longrightarrow>
      pool_buildable (ue_net sample_env) sample_app (upstreams_of (hs_insert sample_port hm_empty) t)" .
  from spec [OF this, of Http1] show ?thesis by (simp add: sample_set(2))
qed

section \<open>Upstream options\<close>

text \<open>An upstream is accepted exactly when it is a port upstream with a known transport, a
  non-empty host name and a port between 1 and 65535; what is accepted is kept unchanged, so no
  port is truncated.\<close>

theorem parse_port_upstream_accepts:
  "parse_port_upstream opts = Inr u \<longleftrightarrow>
   (\<exists>p. opts = PortUpstream p \<and> o_type p = ''port''
      \<and> (o_transport p, pu_transport u) \<in> {(''http'', Http1), (''http2'', Http2), (''ws'', Ws)}
      \<and> 1 \<le> unat (o_port p) \<and> unat (o_port p) \<le> 65535 \<and> o_hostname p \<noteq> []
      \<and> pu_secure u = o_secure p \<and> pu_hostname u = o_hostname p \<and> unat (pu_port u) = unat (o_port p))"
proof (cases opts)
  case (PortUpstream p)
  have port: "o_port p = 0 \<or> 65535 < o_port p \<longleftrightarrow> \<not> (1 \<le> unat (o_port p) \<and> unat (o_port p) \<le> 65535)"
    by (auto simp: word_less_nat_alt unat_eq_zero Suc_le_eq unat_gt_0)
  have cast: "unat (ucast (o_port p) :: u16) = unat (o_port p)" if "unat (o_port p) \<le> 65535"
    using that by (simp add: unsigned_ucast_eq take_bit_nat_eq_self_iff)
  have eq: "\<lparr>pu_transport = t, pu_secure = s, pu_hostname = h, pu_port = n\<rparr> = u \<longleftrightarrow>
      pu_transport u = t \<and> pu_secure u = s \<and> pu_hostname u = h \<and> unat (pu_port u) = unat n" for t s h n
    by (cases u) (auto simp: word_unat_eq_iff)
  show ?thesis
    using cast by (auto simp: PortUpstream parse_transport_def result_inv port eq split: if_splits)
qed auto

section \<open>Completed calls\<close>

text \<open>C2. After any sequence of completed calls on a new proxy its parts agree: the pools are exactly
  those of the (application, transport) pairs that have upstreams, the router is configured from
  them, and either the proxy is stopped, without an address and without a single background
  service, or it is running with the HTTP service and exactly one health check per pool.\<close>

theorem completed_calls_consistent:
  assumes "proxy_new options = Inr w" and "iteration it" and "list_all call_ok calls"
    and "w_inner (api_run it calls w) = p"
  shows "(\<forall>app t. hm_get (pi_pools p) (app, t) \<noteq> None \<longleftrightarrow>
        (\<exists>us. hm_get (pi_upstreams_by_app p) app = Some us \<and> upstreams_of us t \<noteq> {}))
    \<and> ro_config (pi_router p) = build_router_config (pi_options p) (pi_pools p)
    \<and> (pi_state p = Stopped \<and> address (api_run it calls w) = None \<and> sv_view (pi_server p) = Map.empty
       \<or> (\<exists>a. pi_state p = Running \<and> address (api_run it calls w) = Some (address_of_bound a)
            \<and> services_match a (pi_pools p) (sv_view (pi_server p))))"
proof -
  from api_run_keeps [OF proxy_new_Inr(2) [OF assms(1,2)] proxy_new_Inr(1) [OF assms(1)] assms(3)]
  have s: "settled it (api_run it calls w)" and wf: "wf_inner p" by (simp_all add: assms(4))
  from s have "pi_state p = Stopped \<and> address (api_run it calls w) = None \<and> sv_view (pi_server p) = Map.empty
       \<or> (\<exists>a. pi_state p = Running \<and> address (api_run it calls w) = Some (address_of_bound a)
            \<and> services_match a (pi_pools p) (sv_view (pi_server p)))"
    by (auto simp: settled_def address_def Let_def assms(4))
  then show ?thesis using wf_inner_pools [OF wf] by blast
qed

definition sample_os :: "(nat, nat) os_lib" where
  "sample_os =
     \<lparr>os_bind = (\<lambda>_. Inr 3), os_local_addr = (\<lambda>_. Inr \<lparr>bl_hostname = ''127.0.0.1'', bl_port = 40000\<rparr>),
      os_set_nonblocking = (\<lambda>_. Inr ()), os_tls_intermediate = (\<lambda>_ _. Inr 0), os_enable_h2 = id\<rparr>"

theorem completed_calls_consistent_witness:
  "ro_config (pi_router (w_inner (api_run (\<lambda>m. m)
      [CallAdd sample_env ''app'' sample_upstream, CallStart sample_os (\<lambda>m. m), CallStop] sample_world)))
   = build_router_config (pi_options (w_inner (api_run (\<lambda>m. m)
      [CallAdd sample_env ''app'' sample_upstream, CallStart sample_os (\<lambda>m. m), CallStop] sample_world)))
      (pi_pools (w_inner (api_run (\<lambda>m. m)
      [CallAdd sample_env ''app'' sample_upstream, CallStart sample_os (\<lambda>m. m), CallStop] sample_world)))"
  using completed_calls_consistent [OF sample_new iteration_id _ refl,
      of "[CallAdd sample_env ''app'' sample_upstream, CallStart sample_os (\<lambda>m. m), CallStop]"]
  by (simp add: sample_env_ok iteration_id)

section \<open>Updates of the upstreams\<close>

text \<open>C29. An update that is rejected leaves the whole proxy as it was; adding an upstream that is
  there and removing one that is not are rejected with their own codes.\<close>

theorem rejected_update_changes_nothing:
  "(add_upstream E app opts w = (Inl e, w') \<longrightarrow> w' = w)
   \<and> (remove_upstream E app opts w = (Inl e, w') \<longrightarrow> w' = w)
   \<and> (parse_port_upstream opts = Inr u \<and> find_upstreams app (w_inner w) = Inr (a, us) \<longrightarrow>
        (if hs_contains us u
         then \<exists>e. add_upstream E app opts w = (Inl e, w) \<and> err_code e = Some UPSTREAM_ALREADY_EXISTS
         else \<exists>e. remove_upstream E app opts w = (Inl e, w) \<and> err_code e = Some UPSTREAM_NOT_FOUND))"
proof (intro conjI impI)
  show "add_upstream E app opts w = (Inl e, w') \<Longrightarrow> w' = w"
    by (auto simp: add_upstream_def dest: finish_update_Inl split: sum.splits)
  show "remove_upstream E app opts w = (Inl e, w') \<Longrightarrow> w' = w"
    by (auto simp: remove_upstream_def dest: finish_update_Inl split: sum.splits)
qed (auto simp: add_upstream_def remove_upstream_def add_upstream_check_def remove_upstream_check_def
    finish_update_def settle_deferred_def deferred_generic_def)

lemma sample_find: "find_upstreams ''app'' (w_inner sample_world)
    = Inr (\<lparr>a_name = ''app'', a_routing = Subdomain ''Api.example.com'', a_sni = None\<rparr>, hm_empty)"
  by (simp add: find_upstreams_def sample_world_def sample_parsed_def hm_get_initial_upstreams)

theorem rejected_update_changes_nothing_witness:
  "\<exists>e. remove_upstream sample_env ''app'' sample_upstream sample_world = (Inl e, sample_world)
     \<and> err_code e = Some ''UpstreamNotFound''"
  using rejected_update_changes_nothing [of sample_env "''app''" sample_upstream sample_world]
    sample_parse_upstream sample_find
  by (auto simp: hs_contains_def hm.get_empty UPSTREAM_NOT_FOUND_def)

lemma updated_upstreams:
  assumes "updated E app current us w w'"
  shows "hm_get (pi_upstreams_by_app (w_inner w)) app = Some current"
    and "pi_upstreams_by_app (w_inner w') = hm_insert app us (pi_upstreams_by_app (w_inner w))"
  using assms
  by (auto simp: updated_def commit_upstreams_def Let_def split: if_splits prod.splits)

lemma hs_contains_simps [simp]:
  "hs_contains (hs_insert u us) v \<longleftrightarrow> v = u \<or> hs_contains us v"
  "hs_contains (hm_remove u us) v \<longleftrightarrow> v \<noteq> u \<and> hs_contains us v"
  by (auto simp: hs_contains_def hs_insert_def hm.get_insert hm.get_remove)

text \<open>C28. Adding an upstream and removing it again gives back the same upstreams of every
  application, and the same pairs of application and transport with a pool.\<close>

theorem add_then_remove:
  assumes "wf_inner (w_inner w)" and "env_ok E" and "env_ok E'"
    and "add_upstream E app opts w = (Inr (), w1)" and "remove_upstream E' app opts w1 = (Inr (), w2)"
  shows "(\<forall>app' u. (case hm_get (pi_upstreams_by_app (w_inner w2)) app' of Some us \<Rightarrow> hs_contains us u | None \<Rightarrow> False)
             \<longleftrightarrow> (case hm_get (pi_upstreams_by_app (w_inner w)) app' of Some us \<Rightarrow> hs_contains us u | None \<Rightarrow> False))
    \<and> (\<forall>app' t. hm_get (pi_pools (w_inner w2)) (app', t) = None \<longleftrightarrow> hm_get (pi_pools (w_inner w)) (app', t) = None)"
proof -
  from assms(4) obtain u current where u: "parse_port_upstream opts = Inr u" "\<not> hs_contains current u"
    and up1: "updated E app current (hs_insert u current) w w1" by (rule add_upstream_Inr)
  from assms(5) obtain v current' where v: "parse_port_upstream opts = Inr v" "hs_contains current' v"
    and up2: "updated E' app current' (hm_remove v current') w1 w2" by (rule remove_upstream_Inr)
  note m1 = updated_upstreams [OF up1] and m2 = updated_upstreams [OF up2]
  have cur: "v = u" "current' = hs_insert u current" using u(1) v(1) m1 m2(1) by (auto simp: hm.get_insert)
  have get: "hm_get (pi_upstreams_by_app (w_inner w2)) app' =
      (if app' = app then Some (hm_remove u (hs_insert u current))
       else hm_get (pi_upstreams_by_app (w_inner w)) app')" for app'
    by (simp add: m1 m2 cur hm.get_insert)
  have same: "upstreams_of (hm_remove u (hs_insert u current)) t = upstreams_of current t" for t
    using u(2) by (auto simp: upstreams_of_def)
  have wf2: "wf_inner (w_inner w2)"
    using add_upstream_wf [OF assms(2,1), of app opts] remove_upstream_wf [OF assms(3), of w1 app opts] assms(4,5)
    by simp
  have pool: "hm_get (pi_pools p) (app', t) = None \<longleftrightarrow>
      (case hm_get (pi_upstreams_by_app p) app' of None \<Rightarrow> True | Some us \<Rightarrow> upstreams_of us t = {})"
    if "wf_inner p" for p :: "'a proxy_inner" and app' t
  proof -
    from that have "case hm_get (pi_upstreams_by_app p) app' of
        None \<Rightarrow> hm_get (pi_pools p) (app', t) = None
      | Some us \<Rightarrow> hm_wf us \<and> (hm_get (pi_pools p) (app', t) = None \<longleftrightarrow> upstreams_of us t = {})"
      by (simp add: wf_inner_def pools_match_def)
    then show ?thesis by (cases "hm_get (pi_upstreams_by_app p) app'") simp_all
  qed
  have "hm_get (pi_pools (w_inner w2)) (app', t) = None \<longleftrightarrow> hm_get (pi_pools (w_inner w)) (app', t) = None" for app' t
    by (simp add: pool [OF wf2] pool [OF assms(1)] get m1(1) same)
  moreover have "(case hm_get (pi_upstreams_by_app (w_inner w2)) app' of Some us \<Rightarrow> hs_contains us x | None \<Rightarrow> False)
      \<longleftrightarrow> (case hm_get (pi_upstreams_by_app (w_inner w)) app' of Some us \<Rightarrow> hs_contains us x | None \<Rightarrow> False)" for app' x
    using u(2) by (auto simp: get m1(1))
  ultimately show ?thesis by blast
qed

lemma finish_update_ok:
  "hm_get (pi_upstreams_by_app (w_inner w)) app \<noteq> None \<Longrightarrow> \<exists>w'. finish_update app (Inr c) w = (Inr (), w')"
  by (cases c) (auto simp: finish_update_def commit_upstreams_def Let_def split: prod.splits)

lemma sample_added: "\<exists>w1. add_upstream sample_env ''app'' sample_upstream sample_world = (Inr (), w1)"
proof -
  let ?a = "\<lparr>a_name = ''app'', a_routing = Subdomain ''Api.example.com'', a_sni = None\<rparr>"
  obtain r where r: "rebuild_change sample_env ?a (hs_insert sample_port hm_empty) 5000 = Inr r"
    using sample_rebuild [of ?a 5000] by (auto simp: rebuild_change_def)
  have i: "po_health_check_interval_ms (pi_options (w_inner sample_world)) = 5000"
    by (simp add: sample_world_def sample_parsed_def)
  have "and_then (add_upstream_check ''app'' sample_port (w_inner sample_world)) (add_upstream_plan sample_env sample_port)
      = Inr r"
    by (simp add: add_upstream_check_def sample_find hs_contains_def hm.get_empty add_upstream_plan_def i r)
       (simp add: sample_port_def)
  moreover have "hm_get (pi_upstreams_by_app (w_inner sample_world)) ''app'' \<noteq> None"
    by (simp add: sample_world_def sample_parsed_def hm_get_initial_upstreams)
  ultimately show ?thesis using finish_update_ok by (simp add: add_upstream_def sample_parse_upstream)
qed

lemma updated_options: "updated E app current us w w' \<Longrightarrow> pi_options (w_inner w') = pi_options (w_inner w)"
  by (auto simp: updated_def commit_upstreams_def Let_def split: if_splits prod.splits)

lemma sample_removed:
  assumes "add_upstream sample_env ''app'' sample_upstream sample_world = (Inr (), w1)"
  shows "\<exists>w2. remove_upstream sample_env ''app'' sample_upstream w1 = (Inr (), w2)"
proof -
  from assms obtain u current where u: "parse_port_upstream sample_upstream = Inr u"
    and up: "updated sample_env ''app'' current (hs_insert u current) sample_world w1" by (rule add_upstream_Inr)
  have eq: "u = sample_port" "current = hm_empty"
    using u sample_parse_upstream updated_upstreams(1) [OF up]
    by (auto simp: sample_world_def sample_parsed_def hm_get_initial_upstreams)
  have f: "find_upstreams ''app'' (w_inner w1)
      = Inr (\<lparr>a_name = ''app'', a_routing = Subdomain ''Api.example.com'', a_sni = None\<rparr>, hs_insert sample_port hm_empty)"
  proof -
    have "hm_get (pi_upstreams_by_app (w_inner w1)) ''app'' = Some (hs_insert sample_port hm_empty)"
      unfolding updated_upstreams(2) [OF up] by (simp add: eq hm.get_insert)
    moreover have "po_applications (pi_options (w_inner w1)) = [\<lparr>a_name = ''app'', a_routing = Subdomain ''Api.example.com'', a_sni = None\<rparr>]"
      unfolding updated_options [OF up] by (simp add: sample_world_def sample_parsed_def)
    ultimately show ?thesis by (simp add: find_upstreams_def)
  qed
  have empty: "hm_remove sample_port (hs_insert sample_port hm_empty) = hm_empty"
    by (simp add: hs_insert_def hs_contains_def hm_remove_def hm_insert_def hm_empty_def hm_get_def)
  obtain c where "rebuild_change sample_env a hm_empty i = Inr c" for a i
    by (simp add: rebuild_change_def rebuild_app_pools_def sample_env_def by_transport_def hm_empty_def Let_def)
  then have "and_then (remove_upstream_check ''app'' sample_port (w_inner w1)) (remove_upstream_plan sample_env sample_port)
      = Inr c"
    by (simp add: remove_upstream_check_def f remove_upstream_plan_def empty)
  moreover have "hm_get (pi_upstreams_by_app (w_inner w1)) ''app'' \<noteq> None"
    unfolding updated_upstreams(2) [OF up] by (simp add: hm.get_insert)
  ultimately show ?thesis using finish_update_ok by (simp add: remove_upstream_def sample_parse_upstream)
qed

lemma sample_updated:
  assumes "add_upstream sample_env ''app'' sample_upstream sample_world = (Inr (), w1)"
  shows "pi_options (w_inner w1) = sample_parsed" "ro_limits (pi_router (w_inner w1)) = Disabled"
    and "hm_get (pi_pools (w_inner w1)) (''app'', Http1) \<noteq> None"
    and "hm_get (pi_pools (w_inner w1)) (''app'', Http2) = None"
proof -
  from assms obtain u current where u: "parse_port_upstream sample_upstream = Inr u"
    and up: "updated sample_env ''app'' current (hs_insert u current) sample_world w1" by (rule add_upstream_Inr)
  have eq: "u = sample_port" "current = hm_empty"
    using u sample_parse_upstream updated_upstreams(1) [OF up]
    by (auto simp: sample_world_def sample_parsed_def hm_get_initial_upstreams)
  show "pi_options (w_inner w1) = sample_parsed" unfolding updated_options [OF up] by (simp add: sample_world_def)
  have "ro_limits (pi_router (w_inner w1)) = ro_limits (pi_router (w_inner sample_world))"
    using up by (auto simp: updated_def commit_upstreams_def router_update_def Let_def split: if_splits prod.splits)
  then show "ro_limits (pi_router (w_inner w1)) = Disabled"
    by (simp add: sample_world_def router_update_def router_new_def sample_parsed_def)
  have wf: "wf_inner (w_inner w1)"
    using add_upstream_wf [OF sample_env_ok proxy_new_Inr(1) [OF sample_new], of "''app''" sample_upstream] assms by simp
  have "hm_get (pi_upstreams_by_app (w_inner w1)) ''app'' = Some (hs_insert sample_port hm_empty)"
    unfolding updated_upstreams(2) [OF up] by (simp add: eq hm.get_insert)
  with wf have "hm_get (pi_pools (w_inner w1)) (''app'', t) = None
      \<longleftrightarrow> upstreams_of (hs_insert sample_port hm_empty) t = {}" for t
    unfolding wf_inner_def pools_match_def by (auto split: option.splits)
  then show "hm_get (pi_pools (w_inner w1)) (''app'', Http1) \<noteq> None"
    "hm_get (pi_pools (w_inner w1)) (''app'', Http2) = None"
    using sample_set by auto
qed

theorem add_then_remove_witness:
  "\<exists>w1 w2. add_upstream sample_env ''app'' sample_upstream sample_world = (Inr (), w1)
     \<and> remove_upstream sample_env ''app'' sample_upstream w1 = (Inr (), w2)
     \<and> (\<forall>app' t. hm_get (pi_pools (w_inner w2)) (app', t) = None)"
proof -
  obtain w1 where w1: "add_upstream sample_env ''app'' sample_upstream sample_world = (Inr (), w1)"
    using sample_added by blast
  obtain w2 where w2: "remove_upstream sample_env ''app'' sample_upstream w1 = (Inr (), w2)"
    using sample_removed [OF w1] by blast
  have "pi_pools (w_inner sample_world) = hm_empty" by (simp add: sample_world_def)
  with add_then_remove [OF proxy_new_Inr(1) [OF sample_new] sample_env_ok sample_env_ok w1 w2] w1 w2
  show ?thesis by (simp add: hm.get_empty)
qed

section \<open>Start and stop\<close>

text \<open>C10. Starting a stopped proxy whose listener can be set up makes it report the bound address;
  starting it once more is refused with \<open>AlreadyStarted\<close> and changes nothing; stopping it then ends
  every service that was running, exactly once each, leaves none, and withdraws the address.\<close>

theorem start_then_stop:
  assumes "settled it w" and "wf_inner (w_inner w)" and "iteration po" and "pi_state (w_inner w) = Stopped"
    and "build_start_resources S (po_listen (pi_options (w_inner w))) (po_tls (pi_options (w_inner w)))
           = Inr (fd, tls, bound)"
    and "start S po it w = (r1, w1)" and "stop it w1 = (r2, w2)"
  shows "r1 = Some (Inr ()) \<and> address w1 = Some (address_of_bound bound)
    \<and> (\<exists>e. start S po it w1 = (Some (Inl e), w1) \<and> err_code e = Some ALREADY_STARTED)
    \<and> r2 = Some (Inr ()) \<and> address w2 = None \<and> pi_state (w_inner w2) = Stopped
    \<and> sv_view (pi_server (w_inner w2)) = Map.empty
    \<and> sv_ended (pi_server (w_inner w2)) = sv_running (pi_server (w_inner w1)) + sv_ended (pi_server (w_inner w1))"
proof -
  have "hm_wf (pi_pools (w_inner w))" using assms(2) by (simp add: wf_inner_def)
  from start_success [OF assms(1,4,3) this assms(5)] assms(6)
  have r1: "r1 = Some (Inr ())" and run: "pi_state (w_inner w1) = Running"
    and addr: "pi_listen_address (w_inner w1) = Some bound" by auto
  have s1: "settled it w1" using start_keeps [OF assms(1-3), of S] assms(6) by simp
  have ok: "order_ok it (pi_server (w_inner w1))" using s1 by (simp add: settled_def Let_def)
  from stop_running [OF s1 run] assms(7)
  have r2: "r2 = Some (Inr ())" and st: "pi_state (w_inner w2) = Stopped" "pi_listen_address (w_inner w2) = None"
    and sv: "pi_server (w_inner w2) = stop_all it (pi_server (w_inner w1))" by auto
  show ?thesis
    using r1 run addr r2 st registry.stop_all_ends(1) [OF ok]
    by (simp add: address_def Let_def start_running sv registry.stop_all_view)
qed

lemma sample_setup:
  "build_start_resources sample_os listen None = Inr (3, None, \<lparr>bl_hostname = ''127.0.0.1'', bl_port = 40000\<rparr>)"
  by (simp add: build_start_resources_def sample_os_def map_err_def)

theorem start_then_stop_witness:
  "\<exists>w1 w2. start sample_os (\<lambda>m. m) (\<lambda>m. m) sample_world = (Some (Inr ()), w1)
     \<and> address w1 = Some \<lparr>pa_hostname = ''127.0.0.1'', pa_port = 40000\<rparr>
     \<and> stop (\<lambda>m. m) w1 = (Some (Inr ()), w2) \<and> address w2 = None"
proof -
  obtain r1 w1 where w1: "start sample_os (\<lambda>m. m) (\<lambda>m. m) sample_world = (r1, w1)" by fastforce
  obtain r2 w2 where w2: "stop (\<lambda>m. m) w1 = (r2, w2)" by fastforce
  have "po_tls (pi_options (w_inner sample_world)) = None" by (simp add: sample_world_def sample_parsed_def)
  with start_then_stop [OF proxy_new_Inr(2) [OF sample_new iteration_id] proxy_new_Inr(1) [OF sample_new]
      iteration_id proxy_new_Inr(3) [OF sample_new] _ w1 w2] w1 w2
  show ?thesis by (simp add: sample_setup address_of_bound_def)
qed

end
