(* ===== verification/Concurrent_Calls.thy ===== *)
theory Concurrent_Calls
  imports Lifecycle_Progress Proxy_Operation
begin

text \<open>
  What callers can rely on when they do not wait for one call before they make the next: the data
  agree at every moment, updates take effect one at a time, no background service is forgotten,
  no call fails for want of a notifier, and every call is answered.
\<close>

section \<open>A run of the samples\<close>

definition sample_envs :: "(nat, nat, string, string list) envs" where
  "sample_envs = {(sample_os, sample_env)}"

lemma sample_envs_ok: "envs_ok sample_envs" "sample_envs \<noteq> {}"
  using sample_env_ok by (simp_all add: envs_ok_def sample_envs_def)

lemma sample_started:
  "reachable sample_envs (\<lambda>m. m) (snd (enter (IssueStart (\<lambda>m. m)) sample_world), [fst (enter (IssueStart (\<lambda>m. m)) sample_world)])"
  by (rule reachable.move [OF reachable.new [OF sample_new]]) (metis append_Nil moves.call prod.collapse)

section \<open>Data and notifiers\<close>

text \<open>C4. At every moment of every interleaving of calls, the pools are exactly those of the pairs
  of application and transport that have upstreams, and the router is configured from them; the
  proxy reports an address exactly when it is running.\<close>

theorem interleaved_data_agree:
  assumes "reachable envs it (w, ts)" and "envs_ok envs"
  shows "(\<forall>app t. hm_get (pi_pools (w_inner w)) (app, t) \<noteq> None \<longleftrightarrow>
        (\<exists>us. hm_get (pi_upstreams_by_app (w_inner w)) app = Some us \<and> upstreams_of us t \<noteq> {}))
    \<and> ro_config (pi_router (w_inner w)) = build_router_config (pi_options (w_inner w)) (pi_pools (w_inner w))
    \<and> (address w \<noteq> None \<longleftrightarrow> pi_state (w_inner w) = Running)"
proof -
  have s: "state_ok (w_inner w)" "wf_inner (w_inner w)"
    using sane_reachable [OF assms] by (simp_all add: sane_def world_ok_def)
  have "address w \<noteq> None \<longleftrightarrow> pi_state (w_inner w) = Running"
    using s(1) by (auto simp: address_def Let_def state_ok_def)
  with wf_inner_pools [OF s(2)] show ?thesis by blast
qed

theorem interleaved_data_agree_witness:
  "address (snd (enter (IssueStart (\<lambda>m. m)) sample_world)) = None
   \<longleftrightarrow> pi_state (w_inner (snd (enter (IssueStart (\<lambda>m. m)) sample_world))) \<noteq> Running"
  using interleaved_data_agree [OF sample_started sample_envs_ok(1)] by blast

text \<open>C24. Whatever other calls are pending, the notifier a call needs is there: a \<open>start\<close> is only ever
  refused with \<open>AlreadyStarted\<close>, a \<open>stop\<close> is never refused, and one that joins another is never
  told that its channel was closed.\<close>

theorem notifiers_never_missing:
  assumes "reachable envs it (w, ts)" and "envs_ok envs"
  shows "(\<forall>e. fst (start_enter po w) = StartFail e \<longrightarrow> err_code e = Some ALREADY_STARTED)
    \<and> (\<forall>e. fst (stop_enter w) \<noteq> StopFail e)
    \<and> (\<forall>c. StopJoining c \<in> set ts \<longrightarrow> wait_for_stop_ready c w \<in> {None, Some (Inr ())})"
proof (intro conjI allI impI)
  have s: "state_ok (w_inner w)" "stop_channels_ok w" and t: "\<And>t. t \<in> set ts \<Longrightarrow> task_ok w t"
    using sane_reachable [OF assms] by (auto simp: sane_def world_ok_def)
  show "err_code e = Some ALREADY_STARTED" if "fst (start_enter po w) = StartFail e" for e
    using that s(1)
    by (cases "pi_state (w_inner w)"; cases "pi_start_notifier (w_inner w)")
       (auto simp: start_enter_def Let_def state_ok_def generic_error_def)
  show "fst (stop_enter w) \<noteq> StopFail e" for e
    using s(1) by (cases rule: stop_enter_cases [of w]) (auto simp: state_ok_def)
  show "wait_for_stop_ready c w \<in> {None, Some (Inr ())}" if "StopJoining c \<in> set ts" for c
    using t [OF that] s(2)
    by (cases "pi_stop_notifier (w_inner w) = Some c")
       (auto simp: stop_channels_ok_def wait_for_stop_ready_def Let_def)
qed

theorem notifiers_never_missing_witness:
  "\<forall>e. fst (stop_enter (snd (enter (IssueStart (\<lambda>m. m)) sample_world))) \<noteq> StopFail e"
  using notifiers_never_missing [OF sample_started sample_envs_ok(1)] by blast

section \<open>Updates one at a time\<close>

definition has_upstream :: "'lb proxy_inner \<Rightarrow> string \<Rightarrow> port_upstream \<Rightarrow> bool" where
  "has_upstream p app u \<longleftrightarrow>
     (case hm_get (pi_upstreams_by_app p) app of Some us \<Rightarrow> hs_contains us u | None \<Rightarrow> False)"

lemma hs_contains_next:
  "hs_contains (next_upstreams k u us) v \<longleftrightarrow> (if v = u then k = AddUpstream else hs_contains us v)"
  by (cases k) (auto simp: hs_contains_def hs_insert_def hm.get_insert hm.get_remove)

text \<open>C7. Updates that run concurrently take effect one at a time: when one commits, what it decided
  before it waited for name resolution is still true, it succeeds, and it changes the membership of
  its own upstream only. No update is lost.\<close>

theorem updates_serialised:
  assumes "reachable envs it (w, ts)" and "envs_ok envs"
    and "UpdateCommitting k app u change \<in> set ts"
    and "task_step S E it (UpdateCommitting k app u change) w = Some (t', w')"
  shows "(has_upstream (w_inner w) app u \<longleftrightarrow> k = RemoveUpstream)
    \<and> (\<forall>app' v. has_upstream (w_inner w') app' v \<longleftrightarrow>
          (if app' = app \<and> v = u then k = AddUpstream else has_upstream (w_inner w) app' v))
    \<and> (\<forall>r. t' = Done r \<longrightarrow> r = Inr ())"
proof -
  have fits: "change_fits k app u change (w_inner w)" and wf: "wf_inner (w_inner w)"
    using sane_reachable [OF assms(1,2)] assms(3) by (auto simp: sane_def world_ok_def)
  from fits have k: "has_upstream (w_inner w) app u \<longleftrightarrow> k = RemoveUpstream"
    by (auto simp: change_fits_def has_upstream_def)
  obtain services p where c: "commit_upstreams app change (w_inner w) = (Inr services, p)"
    and p: "\<exists>current. hm_get (pi_upstreams_by_app (w_inner w)) app = Some current
       \<and> hm_get (pi_upstreams_by_app p) = (hm_get (pi_upstreams_by_app (w_inner w)))(app \<mapsto> next_upstreams k u current)"
    by (rule commit_fits [OF fits wf])
  have w': "w_inner w' = p" "t' = Done r \<Longrightarrow> r = Inr ()" for r
    using assms(4) by (auto simp: c split: if_splits)
  have "has_upstream p app' v \<longleftrightarrow> (if app' = app \<and> v = u then k = AddUpstream else has_upstream (w_inner w) app' v)"
    for app' v
    using p by (cases "app' = app") (auto simp: has_upstream_def hs_contains_next)
  with k w' show ?thesis by simp
qed

lemma sample_committing:
  "\<exists>w change t' w'. reachable sample_envs (\<lambda>m. m) (w, [UpdateCommitting AddUpstream ''app'' sample_port change])
     \<and> task_step sample_os sample_env (\<lambda>m. m) (UpdateCommitting AddUpstream ''app'' sample_port change) w = Some (t', w')"
proof -
  obtain w1 where "add_upstream sample_env ''app'' sample_upstream sample_world = (Inr (), w1)"
    using sample_added by blast
  then have "finish_update ''app'' (and_then (add_upstream_check ''app'' sample_port (w_inner sample_world))
      (add_upstream_plan sample_env sample_port)) sample_world = (Inr (), w1)"
    by (simp add: add_upstream_def sample_parse_upstream)
  then obtain change where "and_then (add_upstream_check ''app'' sample_port (w_inner sample_world))
      (add_upstream_plan sample_env sample_port) = Inr change"
    by (cases "and_then (add_upstream_check ''app'' sample_port (w_inner sample_world))
      (add_upstream_plan sample_env sample_port)") (auto simp: finish_update_def)
  then obtain snapshot where s: "add_upstream_check ''app'' sample_port (w_inner sample_world) = Inr snapshot"
    "add_upstream_plan sample_env sample_port snapshot = Inr change"
    by (auto simp: result_inv)
  let ?L = "UpdateLocking AddUpstream ''app'' sample_port :: string list task"
  have env: "(sample_os, sample_env) \<in> sample_envs" by (simp add: sample_envs_def)
  have "reachable sample_envs (\<lambda>m. m) (sample_world, [] @ [?L])"
    by (rule reachable_call [OF reachable.new [OF sample_new], of "IssueUpdate AddUpstream ''app'' sample_upstream"])
       (simp add: sample_parse_upstream)
  then have "reachable sample_envs (\<lambda>m. m) (sample_world, [?L])" by simp
  from reachable_run [OF this env, of 0] s(1)
  have "reachable sample_envs (\<lambda>m. m) (sample_world, [UpdateRebuilding AddUpstream ''app'' sample_port snapshot])"
    by simp
  from reachable_run [OF this env, of 0] s(2)
  have "reachable sample_envs (\<lambda>m. m) (sample_world, [UpdateCommitting AddUpstream ''app'' sample_port change])"
    by simp
  moreover have "\<exists>t' w'. task_step sample_os sample_env (\<lambda>m. m)
      (UpdateCommitting AddUpstream ''app'' sample_port change) sample_world = Some (t', w')"
    by simp
  ultimately show ?thesis by blast
qed

theorem updates_serialised_witness: "\<exists>w :: string list world. has_upstream (w_inner w) ''app'' sample_port"
proof -
  obtain w change t' w' where
    "reachable sample_envs (\<lambda>m. m) (w, [UpdateCommitting AddUpstream ''app'' sample_port change])"
    "task_step sample_os sample_env (\<lambda>m. m) (UpdateCommitting AddUpstream ''app'' sample_port change) w = Some (t', w')"
    using sample_committing by blast
  note updates_serialised [OF this(1) sample_envs_ok(1) _ this(2)]
  then have "has_upstream (w_inner w') ''app'' sample_port" by simp
  then show ?thesis by blast
qed

section \<open>Every call is answered\<close>

text \<open>C6. Whatever calls are pending, they are all answered: without new calls only as many steps are
  possible as there is work left, and when no step is possible every call has its result. No
  interleaving of starts, stops and updates deadlocks.\<close>

theorem every_call_settles:
  assumes "reachable envs it (w, ts)" and "envs_ok envs" and "envs \<noteq> {}" and "iteration it"
    and "(runs envs it ^^ n) (w, ts) (w', ts')"
  shows "n \<le> effort (w, ts) \<and> ((\<forall>cfg. \<not> runs envs it (w', ts') cfg) \<longrightarrow> (\<forall>t\<in>set ts'. \<exists>r. t = Done r))"
proof -
  from runs_bounded [OF assms(5) sane_reachable [OF assms(1,2)] assms(4,2)]
  have "n + effort (w', ts') \<le> effort (w, ts)" "sane (w', ts')" by simp_all
  with stuck_is_done [OF _ assms(3)] show ?thesis by fastforce
qed

lemma sample_start_effort: "effort (snd (enter (IssueStart (\<lambda>m. m)) sample_world), [fst (enter (IssueStart (\<lambda>m. m)) sample_world)]) = 9"
  by (simp add: effort_def registered_def sample_world_def start_enter_def Let_def lb_tasks_def hm_empty_def server_new_def)

theorem every_call_settles_witness:
  "{n. \<exists>w ts. (runs sample_envs (\<lambda>m. m) ^^ n)
       (snd (enter (IssueStart (\<lambda>m. m)) sample_world), [fst (enter (IssueStart (\<lambda>m. m)) sample_world)]) (w, ts)} \<subseteq> {..9}"
  using every_call_settles [OF sample_started sample_envs_ok iteration_id] sample_start_effort by fastforce

section \<open>No service is forgotten\<close>

text \<open>The services a future still has to end, and all services a configuration accounts for.\<close>

fun pending :: "'lb task \<Rightarrow> 'lb service multiset" where
  "pending (Ending hs t) = mset hs + pending t"
| "pending _ = {#}"

definition accounted :: "'lb config \<Rightarrow> 'lb service multiset" where
  "accounted cfg = (let sv = pi_server (w_inner (fst cfg)) in
     sv_running sv + sum_list (map pending (snd cfg)) + sv_ended sv)"

lemma pending_ending [simp]: "pending (ending hs t) = mset hs + pending t"
  by (simp add: ending_def)

lemma cuts_balance:
  "hm_wf (sv_services sv) \<Longrightarrow>
   sv_running (snd (insert_handle n h sv)) + mset (fst (insert_handle n h sv)) = add_mset h (sv_running sv)"
  "hm_wf (sv_services sv) \<Longrightarrow>
   sv_running (snd (take_handle n sv)) + mset (fst (take_handle n sv)) = sv_running sv"
  "iteration it \<Longrightarrow> sv_running (snd (take_all it sv)) + mset (fst (take_all it sv)) = sv_running sv"
proof -
  show "hm_wf (sv_services sv) \<Longrightarrow>
     sv_running (snd (insert_handle n h sv)) + mset (fst (insert_handle n h sv)) = add_mset h (sv_running sv)"
    using handles_insert [of "sv_services sv" n h]
    by (auto simp: insert_handle_def sv_running_def simp del: mset_map split: option.splits)
  show "hm_wf (sv_services sv) \<Longrightarrow>
     sv_running (snd (take_handle n sv)) + mset (fst (take_handle n sv)) = sv_running sv"
    using handles_remove [of "sv_services sv" n]
    by (auto simp: take_handle_def sv_running_def simp del: mset_map split: option.splits)
  show "iteration it \<Longrightarrow> sv_running (snd (take_all it sv)) + mset (fst (take_all it sv)) = sv_running sv"
    by (simp add: take_all_def sv_running_def hm_empty_def iteration_def)
qed

lemma cuts_ended:
  "sv_ended (snd (insert_handle n h sv)) = sv_ended sv" "sv_ended (snd (take_handle n sv)) = sv_ended sv"
  "sv_ended (snd (take_all it sv)) = sv_ended sv"
  "sv_ended (end_service h sv) = add_mset h (sv_ended sv)" "sv_running (end_service h sv) = sv_running sv"
  "sv_services (end_service h sv) = sv_services sv"
  by (simp_all add: insert_handle_def take_handle_def take_all_def sv_ended_def end_service_def sv_running_def)

definition registry_ok :: "'lb world \<Rightarrow> bool" where
  "registry_ok w \<longleftrightarrow> hm_wf (sv_services (pi_server (w_inner w)))"

definition registry_keeps :: "'lb task \<Rightarrow> 'lb world \<Rightarrow> 'lb task \<Rightarrow> 'lb world \<Rightarrow> bool" where
  "registry_keeps t w t' w' \<longleftrightarrow> registry_ok w'
     \<and> sv_running (pi_server (w_inner w)) + pending t + sv_ended (pi_server (w_inner w))
       \<subseteq># sv_running (pi_server (w_inner w')) + pending t' + sv_ended (pi_server (w_inner w'))"

lemma registry_keeps_same:
  "registry_ok w \<Longrightarrow> pi_server (w_inner w') = pi_server (w_inner w) \<Longrightarrow> pending t \<subseteq># pending t' \<Longrightarrow>
   registry_keeps t w t' w'"
  by (simp add: registry_keeps_def registry_ok_def)

lemma on_registry_keeps:
  assumes "registry_ok w" "on_registry f t1 w = (t', w')" "pending t = {#}"
    and "\<And>sv. hm_wf (sv_services sv) \<Longrightarrow> sv_running sv \<subseteq># sv_running (snd (f sv)) + mset (fst (f sv))"
    and "\<And>sv. hm_wf (sv_services sv) \<Longrightarrow> hm_wf (sv_services (snd (f sv)))"
    and "\<And>sv. sv_ended (snd (f sv)) = sv_ended sv"
  shows "registry_keeps t w t' w'"
proof -
  let ?sv = "pi_server (w_inner w)"
  have w': "pi_server (w_inner w') = snd (f ?sv)" "pending t' = mset (fst (f ?sv)) + pending t1"
    using assms(2) by (auto simp: on_registry_eq)
  have wf: "hm_wf (sv_services ?sv)" using assms(1) by (simp add: registry_ok_def)
  have "sv_running ?sv + sv_ended ?sv \<subseteq># (sv_running (snd (f ?sv)) + mset (fst (f ?sv))) + sv_ended ?sv"
    using assms(4) [OF wf] by simp
  also have "\<dots> \<subseteq># (sv_running (snd (f ?sv)) + mset (fst (f ?sv))) + sv_ended ?sv + pending t1"
    by simp
  finally have "sv_running ?sv + sv_ended ?sv
      \<subseteq># (sv_running (snd (f ?sv)) + mset (fst (f ?sv))) + sv_ended ?sv + pending t1" .
  with assms(5) [OF wf] show ?thesis
    by (simp add: registry_keeps_def registry_ok_def w' assms(3,6) ac_simps)
qed

lemma cuts_keep:
  "hm_wf (sv_services sv) \<Longrightarrow> sv_running sv \<subseteq># sv_running (snd (insert_handle n h sv)) + mset (fst (insert_handle n h sv))"
  "hm_wf (sv_services sv) \<Longrightarrow> sv_running sv \<subseteq># sv_running (snd (take_handle n sv)) + mset (fst (take_handle n sv))"
  "iteration it \<Longrightarrow> sv_running sv \<subseteq># sv_running (snd (take_all it sv)) + mset (fst (take_all it sv))"
  "hm_wf (sv_services sv) \<Longrightarrow> hm_wf (sv_services (snd (insert_handle n h sv)))"
  "hm_wf (sv_services sv) \<Longrightarrow> hm_wf (sv_services (snd (take_handle n sv)))"
  "hm_wf (sv_services (snd (take_all it sv)))"
  by (simp_all add: cuts_balance) (simp_all add: insert_handle_def take_handle_def take_all_def hm.wf_rules)

lemma section_servers [simp]:
  "pi_server (w_inner (start_setup_failed err w)) = pi_server (w_inner w)"
  "pi_server (w_inner (snd (start_finish a w))) = pi_server (w_inner w)"
  "pi_server (w_inner (start_cancelled w)) = pi_server (w_inner w)"
  "pi_server (w_inner (stop_finish w)) = pi_server (w_inner w)"
  "pi_server (w_inner (snd (start_enter po w))) = pi_server (w_inner w)"
  "pi_server (w_inner (snd (stop_enter w))) = pi_server (w_inner w)"
  by (simp_all add: section_defs entry_defs split: proxy_state.split option.split)

lemma commit_server: "pi_server (snd (commit_upstreams app change p)) = pi_server p"
  by (simp add: commit_upstreams_def case_prod_unfold Let_def split: prod.split)

lemma task_step_registry:
  assumes "registry_ok w" "iteration it" "task_step S E it t w = Some (t', w')"
  shows "registry_keeps t w t' w'"
proof (cases t)
  case (StartSetup job)
  with assms show ?thesis
    by (cases "build_start_resources S (sj_listen job) (sj_tls job)") (auto intro!: registry_keeps_same)
next
  case (StartServices a tasks c)
  with assms show ?thesis
    by (cases tasks) (auto intro!: on_registry_keeps [OF assms(1)] cuts_keep simp: cuts_ended)
next
  case (StartFinishing a c)
  obtain r w1 where f: "start_finish a w = (r, w1)" by fastforce
  have "pi_server (w_inner w1) = pi_server (w_inner w)" using section_servers(2) [of a w] unfolding f by simp
  with f assms StartFinishing show ?thesis by (cases r) (auto intro!: registry_keeps_same)
next
  case (StartUndoing msg)
  with assms show ?thesis by (auto intro!: on_registry_keeps [OF assms(1)] cuts_keep simp: cuts_ended)
next
  case StopServices
  with assms show ?thesis by (auto intro!: on_registry_keeps [OF assms(1)] cuts_keep simp: cuts_ended)
next
  case (StopWaiting rx)
  with assms show ?thesis by (cases rx) (auto intro!: registry_keeps_same)
next
  case (UpdateLocking k app u)
  with assms show ?thesis by (cases "update_check k app u (w_inner w)") (auto intro!: registry_keeps_same)
next
  case (UpdateRebuilding k app u snapshot)
  with assms show ?thesis by (cases "update_plan E k u snapshot") (auto intro!: registry_keeps_same)
next
  case (UpdateCommitting k app u change)
  obtain r p where c: "commit_upstreams app change (w_inner w) = (r, p)" by fastforce
  with commit_server [of app change "w_inner w"] have "pi_server p = pi_server (w_inner w)" by simp
  with assms c UpdateCommitting show ?thesis
    by (cases r) (auto intro!: registry_keeps_same split: if_splits)
next
  case (UpdateServices ups names)
  show ?thesis
  proof (cases "ups = [] \<and> names = []")
    case True
    with assms UpdateServices show ?thesis by (auto intro!: registry_keeps_same)
  next
    case False
    with assms UpdateServices show ?thesis
      by (cases ups; cases names) (auto intro!: on_registry_keeps [OF assms(1)] cuts_keep simp: cuts_ended)
  qed
next
  case (Ending hs t1)
  with assms show ?thesis
    by (cases hs) (auto intro!: registry_keeps_same
        simp: registry_keeps_def registry_ok_def cuts_ended ac_simps)
qed (use assms in \<open>auto intro!: registry_keeps_same\<close>)

lemma enter_registry:
  assumes "registry_ok w" "enter c w = (t, w')"
  shows "registry_ok w' \<and> pi_server (w_inner w') = pi_server (w_inner w)"
proof -
  have "pi_server (w_inner w') = pi_server (w_inner w)"
  proof (cases c)
    case (IssueStart po)
    obtain e w1 where e: "start_enter po w = (e, w1)" by fastforce
    have "pi_server (w_inner w1) = pi_server (w_inner w)"
      using section_servers(5) [of po w] unfolding e by simp
    with assms(2) e IssueStart show ?thesis by (cases e) auto
  next
    case IssueStop
    obtain e w1 where e: "stop_enter w = (e, w1)" by fastforce
    have "pi_server (w_inner w1) = pi_server (w_inner w)"
      using section_servers(6) [of w] unfolding e by simp
    with assms(2) e IssueStop show ?thesis by (cases e) auto
  next
    case (IssueUpdate k app opts)
    with assms(2) show ?thesis by (auto split: sum.splits)
  qed
  with assms(1) show ?thesis by (simp add: registry_ok_def)
qed

lemma sum_list_update_mset:
  "i < length ts \<Longrightarrow> sum_list (map f (ts[i := t'])) + f (ts ! i) = sum_list (map f ts) + (f t' :: 'a multiset)"
proof (induction ts arbitrary: i)
  case (Cons t ts)
  show ?case
  proof (cases i)
    case (Suc j)
    with Cons show ?thesis by (simp add: add.assoc)
  qed (simp add: ac_simps)
qed simp

lemma moves_accounted:
  assumes "moves envs it cfg cfg'" "iteration it" "registry_ok (fst cfg)"
  shows "accounted cfg \<subseteq># accounted cfg' \<and> registry_ok (fst cfg')"
  using assms
proof (induction rule: moves.induct)
  case (call c w t w' ts)
  with enter_registry [of w c t w'] show ?case by (simp add: accounted_def Let_def add.assoc)
next
  case (step cfg cfg')
  from step show ?case
  proof (induction rule: runs.induct)
    case (run S E i ts w t' w')
    let ?sv = "pi_server (w_inner w)" and ?sv' = "pi_server (w_inner w')"
    have "registry_keeps (ts ! i) w t' w'"
      using run.prems run.hyps(4) by (intro task_step_registry) simp_all
    then have ok: "registry_ok w'"
      and le: "sv_running ?sv + pending (ts ! i) + sv_ended ?sv \<subseteq># sv_running ?sv' + pending t' + sv_ended ?sv'"
      by (simp_all add: registry_keeps_def)
    note sum = sum_list_update_mset [OF run.hyps(2), of pending t']
    have "(sv_running ?sv + sum_list (map pending ts) + sv_ended ?sv) + pending (ts ! i)
        = (sv_running ?sv + pending (ts ! i) + sv_ended ?sv) + sum_list (map pending ts)"
      by (simp add: ac_simps)
    also have "\<dots> \<subseteq># (sv_running ?sv' + pending t' + sv_ended ?sv') + sum_list (map pending ts)"
      using le by simp
    also have "\<dots> = sv_running ?sv' + (sum_list (map pending ts) + pending t') + sv_ended ?sv'"
      by (simp add: ac_simps)
    also have "\<dots> = sv_running ?sv' + (sum_list (map pending (ts[i := t'])) + pending (ts ! i)) + sv_ended ?sv'"
      by (simp only: sum)
    also have "\<dots> = (sv_running ?sv' + sum_list (map pending (ts[i := t'])) + sv_ended ?sv') + pending (ts ! i)"
      by (simp add: ac_simps)
    finally show ?case using ok by (simp add: accounted_def Let_def)
  qed
qed

lemma moves_star_accounted:
  assumes "(moves envs it)\<^sup>*\<^sup>* cfg cfg'" "iteration it" "registry_ok (fst cfg)"
  shows "accounted cfg \<subseteq># accounted cfg'"
proof -
  from assms(1) have "accounted cfg \<subseteq># accounted cfg' \<and> registry_ok (fst cfg')"
  proof induction
    case (step cfg1 cfg2)
    with moves_accounted [OF step.hyps(2) assms(2)] show ?case by (meson subset_mset.order_trans)
  qed (use assms(3) in simp)
  then show ?thesis ..
qed

lemma reachable_registry: "reachable envs it cfg \<Longrightarrow> iteration it \<Longrightarrow> registry_ok (fst cfg)"
proof (induction rule: reachable.induct)
  case (new options w)
  then show ?case by (auto simp: registry_ok_def proxy_new_def Let_def result_inv server_new_def hm.wf_empty)
next
  case (move cfg cfg')
  with moves_accounted [OF move.hyps(2)] show ?case by blast
qed

text \<open>C17. No background service is forgotten: whatever calls are made and however they interleave, a
  service that was once registered stays accounted for; it is registered, or a pending call is about
  to shut it down and await it, or it has been shut down and awaited.\<close>

theorem no_service_forgotten:
  assumes "reachable envs it cfg" and "iteration it" and "(moves envs it)\<^sup>*\<^sup>* cfg cfg'"
    and "service \<in># sv_running (pi_server (w_inner (fst cfg)))"
  shows "service \<in># sv_running (pi_server (w_inner (fst cfg')))
    \<or> (\<exists>t\<in>set (snd cfg'). service \<in># pending t)
    \<or> service \<in># sv_ended (pi_server (w_inner (fst cfg')))"
proof -
  have "service \<in># accounted cfg" using assms(4) by (simp add: accounted_def Let_def)
  with moves_star_accounted [OF assms(3,2) reachable_registry [OF assms(1,2)]]
  have "service \<in># accounted cfg'" by (rule mset_subset_eqD)
  moreover have "(\<exists>t\<in>set ts. x \<in># pending t) \<longleftrightarrow> x \<in># sum_list (map pending ts)" for ts x
    by (induction ts) auto
  ultimately show ?thesis by (auto simp: accounted_def Let_def)
qed

definition sample_bound :: bound_listen_address where
  "sample_bound = \<lparr>bl_hostname = ''127.0.0.1'', bl_port = 40000\<rparr>"

lemma sample_resources: "build_start_resources sample_os listen None = Inr (3, None, sample_bound)"
  by (simp add: build_start_resources_def map_err_def sample_os_def sample_bound_def)

lemma sample_registered:
  "\<exists>w ts. reachable sample_envs (\<lambda>m. m) (w, ts) \<and> MainHttp sample_bound \<in># sv_running (pi_server (w_inner w))"
proof -
  have env: "(sample_os, sample_env) \<in> sample_envs" by (simp add: sample_envs_def)
  define w1 where "w1 = snd (enter (IssueStart (\<lambda>m. m)) sample_world)"
  have e: "fst (enter (IssueStart (\<lambda>m. m)) sample_world)
      = StartSetup \<lparr>sj_listen = po_listen sample_parsed, sj_tls = None, sj_lb_tasks = [], sj_channel = 0\<rparr>"
    and sv: "pi_server (w_inner w1) = server_new"
    by (simp_all add: w1_def sample_world_def start_enter_def Let_def lb_tasks_def hm_empty_def sample_parsed_def)
  from reachable_run [OF sample_started env, of 0]
  have "reachable sample_envs (\<lambda>m. m) (w1, [StartServices sample_bound [] 0])"
    by (simp add: e sample_resources w1_def [symmetric] del: enter.simps)
  from reachable_run [OF this env, of 0]
  have "reachable sample_envs (\<lambda>m. m) (on_server (\<lambda>_. snd (insert_handle ''main_http'' (MainHttp sample_bound) server_new)) w1,
      [ending (fst (insert_handle ''main_http'' (MainHttp sample_bound) server_new)) (StartFinishing sample_bound 0)])"
    by (simp add: on_registry_eq sv)
  moreover have "MainHttp sample_bound \<in># sv_running (snd (insert_handle ''main_http'' (MainHttp sample_bound) server_new))"
    by (simp add: insert_handle_def sv_running_def server_new_def hm_empty_def hm_insert_def)
  ultimately show ?thesis by (intro exI conjI) (assumption, simp)
qed

theorem no_service_forgotten_witness:
  "\<exists>w ts. reachable sample_envs (\<lambda>m. m) (w, ts)
     \<and> (MainHttp sample_bound \<in># sv_running (pi_server (w_inner w))
        \<or> (\<exists>t\<in>set ts. MainHttp sample_bound \<in># pending t)
        \<or> MainHttp sample_bound \<in># sv_ended (pi_server (w_inner w)))"
proof -
  obtain w ts where r: "reachable sample_envs (\<lambda>m. m) (w, ts)"
    "MainHttp sample_bound \<in># sv_running (pi_server (w_inner w))"
    using sample_registered by blast
  note no_service_forgotten [OF r(1) iteration_id rtranclp.rtrancl_refl, unfolded fst_conv snd_conv, OF r(2)]
  with r(1) show ?thesis by blast
qed

end
