(* ===== verification/Call_Runs.thy ===== *)
theory Call_Runs
  imports Concurrent_Calls
begin

text \<open>
  The composed operations of \<open>Proxy\<close> and the interleaved runs of \<open>Lifecycle\<close> describe the same
  code: a call during which no other future moves is a run that ends with the result and the state
  of the composed operation.
\<close>

section \<open>A future that runs alone\<close>

inductive solo :: "('fd, 'tls) os_lib \<Rightarrow> ('addr, 'lb) update_env \<Rightarrow> 'lb service_iter
    \<Rightarrow> 'lb task \<Rightarrow> 'lb world \<Rightarrow> 'lb task \<Rightarrow> 'lb world \<Rightarrow> bool" for S E it where
  stay: "solo S E it t w t w"
| advance: "task_step S E it t w = Some (t1, w1) \<Longrightarrow> solo S E it t1 w1 t2 w2 \<Longrightarrow> solo S E it t w t2 w2"

lemma solo_trans: "solo S E it t w t1 w1 \<Longrightarrow> solo S E it t1 w1 t2 w2 \<Longrightarrow> solo S E it t w t2 w2"
  by (induction rule: solo.induct) (auto intro: solo.advance)

lemma solo_one: "task_step S E it t w = Some (t', w') \<Longrightarrow> solo S E it t w t' w'"
  by (rule solo.advance [OF _ solo.stay])

lemma takes_lock_holds: "takes_lock t \<Longrightarrow> \<not> holds_lock t"
  by (cases t) auto

lemma solo_moves:
  "solo S E it t w t' w' \<Longrightarrow> (S, E) \<in> envs \<Longrightarrow> \<not> list_ex holds_lock ts \<Longrightarrow>
   (moves envs it)\<^sup>*\<^sup>* (w, ts @ [t]) (w', ts @ [t'])"
proof (induction rule: solo.induct)
  case (advance t w t1 w1 t2 w2)
  have "runs envs it (w, ts @ [t]) (w1, (ts @ [t])[length ts := t1])"
    by (rule runs.run [OF advance.prems(1)]) (use advance in \<open>auto simp: takes_lock_holds\<close>)
  then have "moves envs it (w, ts @ [t]) (w1, ts @ [t1])" by (simp add: moves.step)
  with advance.IH [OF advance.prems] show ?case by (rule converse_rtranclp_into_rtranclp [rotated])
qed simp

text \<open>Handles taken out of the registry are ended one by one.\<close>

lemma on_server_on_server: "on_server f (on_server g w) = on_server (\<lambda>sv. f (g sv)) w"
  by (simp add: on_server_def on_inner_def)

lemma solo_ending: "solo S E it (ending hs t) w t (on_server (fold end_service hs) w)"
proof (induction hs arbitrary: w)
  case Nil
  show ?case by (simp add: ending_def on_server_def on_inner_def id_def solo.stay)
next
  case (Cons h hs)
  have "solo S E it (ending (h # hs) t) w (ending hs t) (on_server (end_service h) w)"
    by (rule solo_one) (simp add: ending_def)
  from solo_trans [OF this Cons.IH] show ?case by (simp add: on_server_on_server comp_def)
qed

lemma solo_registry:
  assumes "task_step S E it t w = Some (on_registry f t1 w)"
  shows "solo S E it t w t1 (on_server (\<lambda>sv. case f sv of (olds, sv) \<Rightarrow> fold end_service olds sv) w)"
proof -
  obtain olds sv where f: "f (pi_server (w_inner w)) = (olds, sv)" by fastforce
  have "solo S E it t w t1 (on_server (fold end_service olds) (on_server (\<lambda>_. sv) w))"
    by (rule solo.advance [OF _ solo_ending]) (simp add: assms on_registry_def f)
  then show ?thesis by (simp add: on_server_def on_inner_def f)
qed

lemma solo_upsert:
  "task_step S E it t w = Some (on_registry (insert_handle n h) t1 w) \<Longrightarrow>
   solo S E it t w t1 (on_server (upsert_service n h) w)"
  using solo_registry [of S E it t w "insert_handle n h" t1] by (simp add: server_cuts(1) [abs_def])

lemma solo_remove:
  "task_step S E it t w = Some (on_registry (take_handle n) t1 w) \<Longrightarrow>
   solo S E it t w t1 (on_server (remove_service n) w)"
  using solo_registry [of S E it t w "take_handle n" t1] by (simp add: server_cuts(2) [abs_def])

lemma solo_stop_all:
  "task_step S E it t w = Some (on_registry (take_all it) t1 w) \<Longrightarrow>
   solo S E it t w t1 (on_server (stop_all it) w)"
  using solo_registry [of S E it t w "take_all it" t1] by (simp add: server_cuts(3) [abs_def])

section \<open>start and stop\<close>

lemma solo_start_services:
  "solo S E it (StartServices a tasks c) w (StartFinishing a c) (start_main_http a (fold start_lb_task tasks w))"
proof (induction tasks arbitrary: w)
  case Nil
  show ?case by (simp add: start_main_http_def) (rule solo_upsert, simp)
next
  case (Cons x xs)
  have "solo S E it (StartServices a (x # xs) c) w (StartServices a xs c) (start_lb_task x w)"
    unfolding start_lb_task_def by (rule solo_upsert) (cases x, simp)
  from solo_trans [OF this Cons.IH] show ?case by simp
qed

lemma start_is_solo:
  assumes "start S po it w = (Some r, w')"
  shows "\<exists>t w1. enter (IssueStart po) w = (t, w1) \<and> solo S E it t w1 (Done r) w'"
proof -
  obtain e w1 where e: "start_enter po w = (e, w1)" by fastforce
  show ?thesis
  proof (cases e)
    case (StartFail err)
    with assms e show ?thesis by (auto simp: start_def intro: solo.stay)
  next
    case (StartJoin c)
    with assms e show ?thesis by (auto simp: start_def intro!: solo_one)
  next
    case (StartProceed job)
    have "solo S E it (StartSetup job) w1 (Done r) w'"
    proof (cases "build_start_resources S (sj_listen job) (sj_tls job)")
      case (Inl err)
      with assms e StartProceed show ?thesis by (auto simp: start_def intro!: solo_one)
    next
      case built: (Inr res)
      obtain fd tls a where res: "res = (fd, tls, a)" by (cases res) auto
      let ?w2 = "start_main_http a (fold start_lb_task (sj_lb_tasks job) w1)"
      have listening: "solo S E it (StartSetup job) w1 (StartServices a (sj_lb_tasks job) (sj_channel job)) w1"
        by (rule solo_one) (simp add: built res)
      obtain fin w3 where f: "start_finish a ?w2 = (fin, w3)" by fastforce
      have "solo S E it (StartFinishing a (sj_channel job)) ?w2 (Done r) w'"
      proof (cases fin)
        case (Inl msg)
        from assms e StartProceed built res f Inl
        have r: "r = Inl (from_reason msg)" "w' = start_cancelled (on_server (stop_all it) w3)"
          by (auto simp: start_def Let_def)
        have "solo S E it (StartFinishing a (sj_channel job)) ?w2 (StartUndoing msg) w3"
          by (rule solo_one) (simp add: f Inl)
        moreover have "solo S E it (StartUndoing msg) w3 (StartCancelling msg) (on_server (stop_all it) w3)"
          by (rule solo_stop_all) simp
        moreover have "solo S E it (StartCancelling msg) (on_server (stop_all it) w3) (Done r) w'"
          by (rule solo_one) (simp add: r)
        ultimately show ?thesis by (blast intro: solo_trans)
      next
        case (Inr u)
        from assms e StartProceed built res f Inr
        have r: "wait_for_start_ready (sj_channel job) w3 = Some r" "w' = w3"
          by (auto simp: start_def Let_def)
        have "solo S E it (StartFinishing a (sj_channel job)) ?w2 (StartWaiting (sj_channel job)) w3"
          by (rule solo_one) (simp add: f Inr)
        moreover have "solo S E it (StartWaiting (sj_channel job)) w3 (Done r) w'"
          by (rule solo_one) (simp add: r)
        ultimately show ?thesis by (rule solo_trans)
      qed
      with listening solo_start_services show ?thesis by (blast intro: solo_trans)
    qed
    with e StartProceed show ?thesis by simp
  qed
qed

lemma stop_is_solo:
  assumes "stop it w = (Some r, w')"
  shows "\<exists>t w1. enter IssueStop w = (t, w1) \<and> solo S E it t w1 (Done r) w'"
proof -
  obtain e w1 where e: "stop_enter w = (e, w1)" by fastforce
  show ?thesis
  proof (cases e)
    case (StopFail err)
    with assms e show ?thesis by (auto simp: stop_def intro: solo.stay)
  next
    case StopDone
    with assms e show ?thesis by (auto simp: stop_def intro: solo.stay)
  next
    case (StopJoin c)
    with assms e show ?thesis by (auto simp: stop_def intro!: solo_one)
  next
    case (StopProceed rx)
    with assms e have r: "r = Inr ()" "w' = stop_finish (on_server (stop_all it) w1)"
      and rx: "case rx of None \<Rightarrow> True | Some c \<Rightarrow> wait_for_start_ready c w1 \<noteq> None"
      by (auto simp: stop_def split: if_splits option.splits)
    have "solo S E it (StopWaiting rx) w1 StopServices w1"
      by (rule solo_one) (use rx in \<open>auto split: option.splits\<close>)
    moreover have "solo S E it StopServices w1 StopFinishing (on_server (stop_all it) w1)"
      by (rule solo_stop_all) simp
    moreover have "solo S E it StopFinishing (on_server (stop_all it) w1) (Done r) w'"
      by (rule solo_one) (simp add: r)
    ultimately show ?thesis using e StopProceed by (auto intro: solo_trans)
  qed
qed

section \<open>Updates\<close>

lemma solo_update_services:
  "solo S E it (UpdateServices ups names) w (Done (Inr ()))
     (on_server (\<lambda>sv. fold remove_service names
        (fold (\<lambda>(name, lb). upsert_service name (LbHealth lb)) ups sv)) w)"
proof (induction ups arbitrary: w)
  case Nil
  show ?case
  proof (induction names arbitrary: w)
    case Nil
    show ?case by (rule solo_one) (simp add: on_server_def on_inner_def)
  next
    case (Cons n names)
    have "solo S E it (UpdateServices [] (n # names)) w (UpdateServices [] names) (on_server (remove_service n) w)"
      by (rule solo_remove) simp
    from solo_trans [OF this Cons.IH] show ?case by (simp add: on_server_on_server)
  qed
next
  case (Cons x ups)
  have "solo S E it (UpdateServices (x # ups) names) w (UpdateServices ups names)
      (on_server (upsert_service (fst x) (LbHealth (snd x))) w)"
    by (rule solo_upsert) (cases x, simp)
  from solo_trans [OF this Cons.IH] show ?case by (simp add: on_server_on_server case_prod_unfold)
qed

lemma finish_update_is_solo:
  assumes "finish_update app (and_then (update_check k app u (w_inner w)) (update_plan E k u)) w = (r, w')"
  shows "solo S E it (UpdateLocking k app u) w (Done r) w'"
proof (cases "update_check k app u (w_inner w)")
  case (Inl err)
  with assms show ?thesis by (auto simp: finish_update_def intro!: solo_one)
next
  case (Inr snapshot)
  have lock: "solo S E it (UpdateLocking k app u) w (UpdateRebuilding k app u snapshot) w"
    by (rule solo_one) (simp add: Inr)
  have "solo S E it (UpdateRebuilding k app u snapshot) w (Done r) w'"
  proof (cases "update_plan E k u snapshot")
    case (Inl err)
    with assms Inr show ?thesis by (auto simp: finish_update_def intro!: solo_one)
  next
    case plan: (Inr change)
    have rebuild: "solo S E it (UpdateRebuilding k app u snapshot) w (UpdateCommitting k app u change) w"
      by (rule solo_one) (simp add: plan)
    obtain c p where c: "commit_upstreams app change (w_inner w) = (c, p)" by fastforce
    have "solo S E it (UpdateCommitting k app u change) w (Done r) w'"
    proof (cases c)
      case (Inl err)
      with assms Inr plan c show ?thesis by (auto simp: finish_update_def intro!: solo_one)
    next
      case ready: (Inr services)
      with assms Inr plan c have r: "r = Inr ()" "w' = on_server (apply_services services) (w\<lparr>w_inner := p\<rparr>)"
        by (auto simp: finish_update_def)
      show ?thesis
      proof (cases "sc_running services")
        case True
        have "solo S E it (UpdateCommitting k app u change) w
            (UpdateServices (sc_upsert services) (sc_remove services)) (w\<lparr>w_inner := p\<rparr>)"
          by (rule solo_one) (simp add: c ready True)
        from solo_trans [OF this solo_update_services] show ?thesis
          by (simp add: r apply_services_def [abs_def] True)
      next
        case False
        then show ?thesis
          by (intro solo_one) (simp add: c ready r apply_services_def [abs_def] on_server_def on_inner_def)
      qed
    qed
    with rebuild show ?thesis by (rule solo_trans)
  qed
  with lock show ?thesis by (rule solo_trans)
qed

lemma update_is_solo:
  "add_upstream E app opts w = (r, w') \<Longrightarrow>
     \<exists>t. enter (IssueUpdate AddUpstream app opts) w = (t, w) \<and> solo S E it t w (Done r) w'"
  "remove_upstream E app opts w = (r, w') \<Longrightarrow>
     \<exists>t. enter (IssueUpdate RemoveUpstream app opts) w = (t, w) \<and> solo S E it t w (Done r) w'"
proof -
  have fns: "update_check AddUpstream app u = add_upstream_check app u" "update_plan E AddUpstream u = add_upstream_plan E u"
    "update_check RemoveUpstream app u = remove_upstream_check app u" "update_plan E RemoveUpstream u = remove_upstream_plan E u"
    for u and E :: "('addr, 'lb) update_env" by (simp_all add: fun_eq_iff)
  note finish = finish_update_is_solo [of app AddUpstream _ w E r w' S it, unfolded fns]
    finish_update_is_solo [of app RemoveUpstream _ w E r w' S it, unfolded fns]
  show "\<exists>t. enter (IssueUpdate AddUpstream app opts) w = (t, w) \<and> solo S E it t w (Done r) w'"
    if "add_upstream E app opts w = (r, w')"
    using that finish(1) by (cases "parse_port_upstream opts") (auto simp: add_upstream_def intro: solo.stay)
  show "\<exists>t. enter (IssueUpdate RemoveUpstream app opts) w = (t, w) \<and> solo S E it t w (Done r) w'"
    if "remove_upstream E app opts w = (r, w')"
    using that finish(2) by (cases "parse_port_upstream opts") (auto simp: remove_upstream_def intro: solo.stay)
qed

section \<open>The refinement\<close>

lemma solo_call_moves:
  assumes "enter c w = (t, w1)" "solo S E it t w1 (Done r) w'" "(S, E) \<in> envs" "\<not> list_ex holds_lock ts"
  shows "(moves envs it)\<^sup>*\<^sup>* (w, ts) (w', ts @ [Done r])"
  by (rule converse_rtranclp_into_rtranclp [OF moves.call [OF assms(1)] solo_moves [OF assms(2-4)]])

text \<open>C18. The composed operations are what the interleaved ones do when nobody interferes: from any
  configuration in which no update holds the lock, a call of \<open>start\<close>, \<open>stop\<close>, \<open>add_upstream\<close> or
  \<open>remove_upstream\<close> can run to its end while the other futures rest, with the result and the state
  that the composed operation computes.\<close>

theorem composed_calls_are_runs:
  assumes "(S, E) \<in> envs" and "\<not> list_ex holds_lock ts"
    and "start S po it w = (Some r, w') \<or> stop it w = (Some r, w')
      \<or> add_upstream E app opts w = (r, w') \<or> remove_upstream E app opts w = (r, w')"
  shows "(moves envs it)\<^sup>*\<^sup>* (w, ts) (w', ts @ [Done r])"
proof -
  have "\<exists>c t w1. enter c w = (t, w1) \<and> solo S E it t w1 (Done r) w'"
    using assms(3) start_is_solo [of S po it w r w' E] stop_is_solo [of it w r w' S E]
      update_is_solo [of E app opts w r w' S it] by blast
  then show ?thesis using solo_call_moves assms(1,2) by blast
qed

theorem composed_calls_are_runs_witness:
  "\<exists>w1. (moves sample_envs (\<lambda>m. m))\<^sup>*\<^sup>* (sample_world, []) (w1, [Done (Inr ())])
     \<and> add_upstream sample_env ''app'' sample_upstream sample_world = (Inr (), w1)"
proof -
  obtain w1 where w1: "add_upstream sample_env ''app'' sample_upstream sample_world = (Inr (), w1)"
    using sample_added by blast
  have "(sample_os, sample_env) \<in> sample_envs" by (simp add: sample_envs_def)
  from composed_calls_are_runs [OF this, of "[]" "\<lambda>m. m" "\<lambda>m. m" sample_world "Inr ()" w1 "''app''" sample_upstream] w1
  show ?thesis by auto
qed

end
