(* ===== verification/Call_Races.thy ===== *)
theory Call_Races
  imports Call_Runs
begin

text \<open>
  Interleavings that the locks of \<open>src/proxy.rs\<close> do not exclude and that leave the proxy in a state
  its callers do not expect. Each is a run, built step by step.
\<close>

section \<open>Playing a script\<close>

datatype 'lb event = Call "'lb call" | Step nat

fun play_event ::
    "('fd, 'tls) os_lib \<Rightarrow> ('addr, 'lb) update_env \<Rightarrow> 'lb service_iter \<Rightarrow> 'lb event \<Rightarrow> 'lb config \<Rightarrow> 'lb config option" where
  "play_event S E it (Call c) (w, ts) = (case enter c w of (t, w') \<Rightarrow> Some (w', ts @ [t]))"
| "play_event S E it (Step i) (w, ts) =
     (if i < length ts \<and> (takes_lock (ts ! i) \<longrightarrow> \<not> list_ex holds_lock ts)
      then map_option (\<lambda>(t', w'). (w', ts[i := t'])) (task_step S E it (ts ! i) w)
      else None)"

fun play ::
    "('fd, 'tls) os_lib \<Rightarrow> ('addr, 'lb) update_env \<Rightarrow> 'lb service_iter \<Rightarrow> 'lb event list \<Rightarrow> 'lb config \<Rightarrow> 'lb config option" where
  "play S E it [] cfg = Some cfg"
| "play S E it (e # es) cfg = Option.bind (play_event S E it e cfg) (play S E it es)"

lemma play_event_moves: "play_event S E it e cfg = Some cfg' \<Longrightarrow> (S, E) \<in> envs \<Longrightarrow> moves envs it cfg cfg'"
proof (induction S E it e cfg rule: play_event.induct)
  case (1 S E it c w ts)
  then show ?case by (auto split: prod.splits intro: moves.call)
next
  case (2 S E it i w ts)
  then show ?case by (auto split: if_splits intro!: moves.step runs.run)
qed

lemma play_moves: "play S E it es cfg = Some cfg' \<Longrightarrow> (S, E) \<in> envs \<Longrightarrow> (moves envs it)\<^sup>*\<^sup>* cfg cfg'"
proof (induction es arbitrary: cfg)
  case (Cons e es)
  then obtain mid where "play_event S E it e cfg = Some mid" "play S E it es mid = Some cfg'"
    by (auto simp: bind_eq_Some_conv)
  with Cons play_event_moves show ?case by (metis converse_rtranclp_into_rtranclp)
qed simp

lemma iteration_small:
  assumes "iteration it"
  shows "it [] = []" and "it [x] = [x]"
  using assms unfolding iteration_def by (auto dest: spec [of _ "[]"] spec [of _ "[x]"])

lemma sample_world_resources:
  "build_start_resources sample_os (po_listen (pi_options (w_inner sample_world)))
     (po_tls (pi_options (w_inner sample_world))) = Inr (3, None, sample_bound)"
  by (simp add: sample_world_def sample_parsed_def sample_resources)

section \<open>A cancelled start that comes late\<close>

text \<open>
  A start is cancelled by a stop, the stop returns, a second start completes; then the first start
  reaches its last locked section.
\<close>

definition late_cancellation :: "'lb pool_iter \<Rightarrow> 'lb event list" where
  "late_cancellation po =
     [Call (IssueStart po), Step 0, Call IssueStop, Step 0, Step 0, Step 0, Step 0,
      Step 1, Step 1, Step 1,
      Call (IssueStart po), Step 2, Step 2, Step 2, Step 2,
      Step 0]"

lemma late_cancellation_run:
  assumes "proxy_new options = Inr w" and "iteration it" and "iteration po"
    and "build_start_resources S (po_listen (pi_options (w_inner w))) (po_tls (pi_options (w_inner w)))
           = Inr (fd, tls, a)"
  shows "\<exists>w'. play S E it (late_cancellation po) (w, []) = Some (w',
      [Done (Inl (from_reason ''Proxy start was cancelled while stopping'')), Done (Inr ()), Done (Inr ())])
    \<and> pi_state (w_inner w') = Stopped \<and> pi_listen_address (w_inner w') = None
    \<and> sv_services (pi_server (w_inner w')) = [(''main_http'', MainHttp a)]"
proof -
  have w: "pi_state (w_inner w) = Stopped" "pi_start_notifier (w_inner w) = None" "pi_stop_notifier (w_inner w) = None"
    "pi_server (w_inner w) = server_new" "pi_pools (w_inner w) = []" "w_start_channels w = []" "w_stop_channels w = []"
    using assms(1) by (auto simp: proxy_new_def Let_def result_inv hm_empty_def)
  note it = iteration_small [OF assms(2)] iteration_small [OF assms(3)]
  show ?thesis
    by (simp add: late_cancellation_def entry_defs section_defs w it assms(4) lb_tasks_def on_registry_def
        insert_handle_def take_all_def hm_get_def hm_insert_def hm_empty_def server_new_def ending_def
        end_service_def log_events_def on_server_def on_inner_def send_and_drop_def drop_sender_def
        wait_for_start_ready_def)
qed

text \<open>C20. A start that was cancelled can undo a later one: on any new proxy whose listener can be set up
  there is an interleaving of start, stop and start, each call made when the one before has returned
  or is under way, after which every call has its result, the second start was told that the proxy
  runs, and the HTTP service does run; but the proxy is marked as stopped, reports no address, and
  another stop returns without ending the service.\<close>

theorem late_cancellation_loses_listener:
  assumes "proxy_new options = Inr w" and "iteration it" and "(S, E) \<in> envs"
    and "build_start_resources S (po_listen (pi_options (w_inner w))) (po_tls (pi_options (w_inner w)))
           = Inr (fd, tls, a)"
  shows "\<exists>w' w''. (moves envs it)\<^sup>*\<^sup>* (w, [])
      (w', [Done (Inl (from_reason ''Proxy start was cancelled while stopping'')), Done (Inr ()), Done (Inr ())])
    \<and> pi_state (w_inner w') = Stopped \<and> address w' = None
    \<and> sv_view (pi_server (w_inner w')) ''main_http'' = Some (MainHttp a)
    \<and> stop it w' = (Some (Inr ()), w'') \<and> sv_view (pi_server (w_inner w'')) ''main_http'' = Some (MainHttp a)"
proof -
  obtain w' where w': "play S E it (late_cancellation (\<lambda>m. m)) (w, []) = Some (w',
      [Done (Inl (from_reason ''Proxy start was cancelled while stopping'')), Done (Inr ()), Done (Inr ())])"
    "pi_state (w_inner w') = Stopped" "sv_services (pi_server (w_inner w')) = [(''main_http'', MainHttp a)]"
    using late_cancellation_run [OF assms(1,2) iteration_id assms(4), of E] by blast
  from play_moves [OF w'(1) assms(3)] w'(2,3) stop_stopped [OF w'(2), of it] show ?thesis
    by (auto simp: address_def Let_def sv_view_def hm_get_def)
qed

theorem late_cancellation_loses_listener_witness:
  "\<exists>w'. (moves sample_envs (\<lambda>m. m))\<^sup>*\<^sup>* (sample_world, [])
      (w', [Done (Inl (from_reason ''Proxy start was cancelled while stopping'')), Done (Inr ()), Done (Inr ())])
    \<and> address w' = None \<and> sv_view (pi_server (w_inner w')) ''main_http'' = Some (MainHttp sample_bound)"
proof -
  have env: "(sample_os, sample_env) \<in> sample_envs" by (simp add: sample_envs_def)
  from late_cancellation_loses_listener [OF sample_new iteration_id env sample_world_resources] show ?thesis by metis
qed

section \<open>The first upstream of a new proxy\<close>

text \<open>What an \<open>addUpstream\<close> that succeeds on a new proxy reads and plans.\<close>

lemma remove_other_pools:
  "t \<notin> set removed \<Longrightarrow> fold (remove_pool app) removed ([], [((app, t), q)]) = ([], [((app, t), q)])"
  by (induction removed) (auto simp: remove_pool_def hm_get_def hm_remove_def)

lemma commit_first_pool:
  assumes "pi_pools p = []" "hm_get (pi_upstreams_by_app p) app \<noteq> None" "t \<notin> set removed"
  shows "commit_upstreams app (us, [(t, q)], removed) p =
    (Inr \<lparr>sc_running = (pi_state p = Running), sc_upsert = [(lb_service_name app t, pc_lb q)], sc_remove = []\<rparr>,
     p\<lparr>pi_upstreams_by_app := hm_insert app us (pi_upstreams_by_app p), pi_pools := [((app, t), q)],
       pi_router := router_update (build_router_config (pi_options p) [((app, t), q)]) (pi_router p)\<rparr>)"
  using assms by (simp add: commit_upstreams_def insert_pool_def hm_insert_def remove_other_pools)

lemma single_key: "distinct (map fst xs) \<Longrightarrow> (\<And>k. map_of xs k = None \<longleftrightarrow> k \<noteq> k0) \<Longrightarrow> \<exists>v. xs = [(k0, v)]"
proof -
  assume d: "distinct (map fst xs)" and k: "\<And>k. map_of xs k = None \<longleftrightarrow> k \<noteq> k0"
  have "fst ` set xs = {k0}" using k by (auto simp: map_of_eq_None_iff)
  then have "set (map fst xs) = {k0}" by simp
  with d have "map fst xs = [k0]"
    by (metis distinct_card card.empty card_insert_disjoint empty_iff finite.emptyI length_0_conv length_Suc_conv
        list.set_intros(1) One_nat_def singletonD)
  then show "\<exists>v. xs = [(k0, v)]" by (cases xs) auto
qed

lemma first_update:
  assumes "proxy_new options = Inr w" "env_ok E" "add_upstream E app opts w = (Inr (), w0)"
  obtains u snapshot us q removed where "parse_port_upstream opts = Inr u"
    "add_upstream_check app u (w_inner w) = Inr snapshot"
    "add_upstream_plan E u snapshot = Inr (us, [(pu_transport u, q)], removed)"
    "pu_transport u \<notin> set removed" "hm_get (pi_upstreams_by_app (w_inner w)) app \<noteq> None"
proof -
  from assms(3) obtain u where u: "parse_port_upstream opts = Inr u"
    and f: "finish_update app (and_then (add_upstream_check app u (w_inner w)) (add_upstream_plan E u)) w = (Inr (), w0)"
    by (auto simp: add_upstream_def split: sum.splits)
  from f obtain us nps removed where
    "and_then (add_upstream_check app u (w_inner w)) (add_upstream_plan E u) = Inr (us, nps, removed)"
    by (rule finish_update_Inr)
  then obtain snapshot where c: "add_upstream_check app u (w_inner w) = Inr snapshot"
    "add_upstream_plan E u snapshot = Inr (us, nps, removed)" by (auto simp: result_inv)
  have ok: "snapshot_ok AddUpstream app u snapshot (w_inner w)" using c(1) by (intro update_check_ok) simp
  note fits = update_plan_fits [of E AddUpstream u snapshot, simplified, OF c(2) ok assms(2) proxy_new_Inr(1) [OF assms(1)]]
  have "hm_get (pi_upstreams_by_app (w_inner w)) app = Some current \<Longrightarrow> current = hm_empty" for current
    using assms(1) by (auto simp: proxy_new_def Let_def result_inv hm_get_initial_upstreams split: if_splits)
  with fits have ch: "hm_get (pi_upstreams_by_app (w_inner w)) app = Some hm_empty" "us = hs_insert u hm_empty"
    "change_ok nps removed" "\<And>t. map_of nps t = None \<longleftrightarrow> upstreams_of us t = {}"
    by (auto simp: change_fits_def)
  have none: "\<not> hs_contains hm_empty x" for x :: port_upstream by (simp add: hs_contains_def hm.get_empty)
  have "upstreams_of us t = {} \<longleftrightarrow> t \<noteq> pu_transport u" for t
    using ch(2) none by (auto simp: upstreams_of_def)
  with ch(3,4) obtain q where q: "nps = [(pu_transport u, q)]"
    using single_key [of nps "pu_transport u"] by (auto simp: change_ok_def)
  with ch(3) have "pu_transport u \<notin> set removed" by (simp add: change_ok_def)
  with that u c ch(1) q show thesis by simp
qed

lemma find_upstreams_irrelevant:
  "find_upstreams app (p\<lparr>pi_server := x1\<rparr>) = find_upstreams app p"
  "find_upstreams app (p\<lparr>pi_state := x2\<rparr>) = find_upstreams app p"
  "find_upstreams app (p\<lparr>pi_listen_address := x3\<rparr>) = find_upstreams app p"
  "find_upstreams app (p\<lparr>pi_start_notifier := x4\<rparr>) = find_upstreams app p"
  "find_upstreams app (p\<lparr>pi_stop_notifier := x5\<rparr>) = find_upstreams app p"
  by (simp_all add: find_upstreams_def cong: option.case_cong)

lemma check_irrelevant [simp]:
  "add_upstream_check app u (p\<lparr>pi_server := x1\<rparr>) = add_upstream_check app u p"
  "add_upstream_check app u (p\<lparr>pi_state := x2\<rparr>) = add_upstream_check app u p"
  "add_upstream_check app u (p\<lparr>pi_listen_address := x3\<rparr>) = add_upstream_check app u p"
  "add_upstream_check app u (p\<lparr>pi_start_notifier := x4\<rparr>) = add_upstream_check app u p"
  "add_upstream_check app u (p\<lparr>pi_stop_notifier := x5\<rparr>) = add_upstream_check app u p"
  by (cases "find_upstreams app p"; simp add: add_upstream_check_def find_upstreams_irrelevant split: prod.split)+

lemma new_proxy_facts:
  assumes "proxy_new options = Inr w"
  shows "pi_state (w_inner w) = Stopped" "pi_start_notifier (w_inner w) = None" "pi_stop_notifier (w_inner w) = None"
    "pi_server (w_inner w) = server_new" "pi_pools (w_inner w) = []" "w_start_channels w = []" "w_stop_channels w = []"
  using assms by (auto simp: proxy_new_def Let_def result_inv hm_empty_def)

text \<open>What plays a script step by step.\<close>

lemmas run_simps =
  entry_defs section_defs lb_tasks_def on_registry_def insert_handle_def take_all_def hm_get_def [of "[]"]
  hm_get_def [of "[x]" for x] hm_insert_def server_new_def hm_empty_def ending_def end_service_def log_events_def
  on_server_def on_inner_def send_and_drop_def drop_sender_def wait_for_start_ready_def

section \<open>An update that overlaps a stop\<close>

text \<open>A start that completes and an update up to its commit; a stop; the rest of the update.\<close>

definition update_commits :: "'lb pool_iter \<Rightarrow> string \<Rightarrow> upstream_options \<Rightarrow> 'lb event list" where
  "update_commits po app opts =
     [Call (IssueStart po), Step 0, Step 0, Step 0, Step 0,
      Call (IssueUpdate AddUpstream app opts), Step 1, Step 1, Step 1]"

definition stop_overtakes :: "'lb event list" where
  "stop_overtakes = [Call IssueStop, Step 2, Step 2, Step 2, Step 2]"

definition update_ends :: "'lb event list" where
  "update_ends = [Step 1, Step 1]"

lemma update_over_stop_run:
  assumes "proxy_new options = Inr w" "iteration it" "iteration po" "env_ok E"
    and "build_start_resources S (po_listen (pi_options (w_inner w))) (po_tls (pi_options (w_inner w)))
           = Inr (fd, tls, a)"
    and "add_upstream E app opts w = (Inr (), w0)"
  shows "\<exists>u lb w1 w2 w3. parse_port_upstream opts = Inr u
    \<and> play S E it (update_commits po app opts) (w, [])
        = Some (w1, [Done (Inr ()), UpdateServices [(lb_service_name app (pu_transport u), lb)] []])
    \<and> pi_state (w_inner w1) = Running
    \<and> play S E it stop_overtakes (w1, [Done (Inr ()), UpdateServices [(lb_service_name app (pu_transport u), lb)] []])
        = Some (w2, [Done (Inr ()), UpdateServices [(lb_service_name app (pu_transport u), lb)] [], Done (Inr ())])
    \<and> pi_state (w_inner w2) = Stopped \<and> sv_services (pi_server (w_inner w2)) = []
    \<and> play S E it update_ends (w2, [Done (Inr ()), UpdateServices [(lb_service_name app (pu_transport u), lb)] [], Done (Inr ())])
        = Some (w3, [Done (Inr ()), Done (Inr ()), Done (Inr ())])
    \<and> pi_state (w_inner w3) = Stopped
    \<and> sv_services (pi_server (w_inner w3)) = [(lb_service_name app (pu_transport u), LbHealth lb)]"
proof -
  obtain u snapshot us q removed where up: "parse_port_upstream opts = Inr u"
    "add_upstream_check app u (w_inner w) = Inr snapshot"
    "add_upstream_plan E u snapshot = Inr (us, [(pu_transport u, q)], removed)"
    "pu_transport u \<notin> set removed" "hm_get (pi_upstreams_by_app (w_inner w)) app \<noteq> None"
    by (rule first_update [OF assms(1,4,6)])
  note it = iteration_small [OF assms(2)] iteration_small [OF assms(3)]
  show ?thesis
    by (simp add: update_commits_def stop_overtakes_def update_ends_def new_proxy_facts [OF assms(1)] it up
        commit_first_pool assms(5) run_simps)
qed

text \<open>C21. An update can outlive a stop. On any new proxy whose listener can be set up and on which
  \<open>addUpstream\<close> would succeed, let a start complete and an \<open>addUpstream\<close> run up to its commit; let a stop
  overtake it: the stop is answered, the proxy is stopped and no service is left. When the update then
  goes on, it starts the health check of its pool and succeeds as well. The stopped proxy now runs
  exactly this service, and another stop returns without ending it.\<close>

theorem update_outlives_stop:
  assumes "proxy_new options = Inr w" and "iteration it" and "iteration po" and "(S, E) \<in> envs" and "env_ok E"
    and "build_start_resources S (po_listen (pi_options (w_inner w))) (po_tls (pi_options (w_inner w)))
           = Inr (fd, tls, a)"
    and "add_upstream E app opts w = (Inr (), w0)"
  shows "\<exists>name lb w1 w2 w3 w4.
    play S E it (update_commits po app opts) (w, []) = Some (w1, [Done (Inr ()), UpdateServices [(name, lb)] []])
    \<and> pi_state (w_inner w1) = Running
    \<and> play S E it stop_overtakes (w1, [Done (Inr ()), UpdateServices [(name, lb)] []])
        = Some (w2, [Done (Inr ()), UpdateServices [(name, lb)] [], Done (Inr ())])
    \<and> pi_state (w_inner w2) = Stopped \<and> sv_view (pi_server (w_inner w2)) = Map.empty
    \<and> play S E it update_ends (w2, [Done (Inr ()), UpdateServices [(name, lb)] [], Done (Inr ())])
        = Some (w3, [Done (Inr ()), Done (Inr ()), Done (Inr ())])
    \<and> (moves envs it)\<^sup>*\<^sup>* (w, []) (w3, [Done (Inr ()), Done (Inr ()), Done (Inr ())])
    \<and> address w3 = None \<and> sv_view (pi_server (w_inner w3)) = [name \<mapsto> LbHealth lb]
    \<and> stop it w3 = (Some (Inr ()), w4) \<and> sv_view (pi_server (w_inner w4)) = [name \<mapsto> LbHealth lb]"
proof -
  obtain name lb w1 w2 w3 where run:
    "play S E it (update_commits po app opts) (w, []) = Some (w1, [Done (Inr ()), UpdateServices [(name, lb)] []])"
    "pi_state (w_inner w1) = Running"
    "play S E it stop_overtakes (w1, [Done (Inr ()), UpdateServices [(name, lb)] []])
        = Some (w2, [Done (Inr ()), UpdateServices [(name, lb)] [], Done (Inr ())])"
    "pi_state (w_inner w2) = Stopped" "sv_services (pi_server (w_inner w2)) = []"
    "play S E it update_ends (w2, [Done (Inr ()), UpdateServices [(name, lb)] [], Done (Inr ())])
        = Some (w3, [Done (Inr ()), Done (Inr ()), Done (Inr ())])"
    "pi_state (w_inner w3) = Stopped" "sv_services (pi_server (w_inner w3)) = [(name, LbHealth lb)]"
    using update_over_stop_run [OF assms(1-3,5-7)] by blast
  have "(moves envs it)\<^sup>*\<^sup>* (w, []) (w3, [Done (Inr ()), Done (Inr ()), Done (Inr ())])"
    using play_moves [OF run(1) assms(4)] play_moves [OF run(3) assms(4)] play_moves [OF run(6) assms(4)]
    by (meson rtranclp_trans)
  moreover obtain w4 where "stop it w3 = (Some (Inr ()), w4)" "pi_server (w_inner w4) = pi_server (w_inner w3)"
    using stop_stopped [OF run(7), of it] by auto
  moreover have "sv_view (pi_server (w_inner w2)) = Map.empty" "sv_view (pi_server (w_inner w3)) = [name \<mapsto> LbHealth lb]"
    using run(5,8) by (simp_all add: sv_view_def hm_get_def fun_eq_iff)
  moreover have "address w3 = None" using run(7) by (simp add: address_def Let_def)
  ultimately show ?thesis using run(1-4,6) by (metis (no_types))
qed

theorem update_outlives_stop_witness:
  "\<exists>name lb w3. (moves sample_envs (\<lambda>m. m))\<^sup>*\<^sup>* (sample_world, []) (w3, [Done (Inr ()), Done (Inr ()), Done (Inr ())])
    \<and> address w3 = None \<and> sv_view (pi_server (w_inner w3)) = [name \<mapsto> LbHealth lb]"
proof -
  have env: "(sample_os, sample_env) \<in> sample_envs" by (simp add: sample_envs_def)
  obtain w0 where w0: "add_upstream sample_env ''app'' sample_upstream sample_world = (Inr (), w0)"
    using sample_added by blast
  from update_outlives_stop [OF sample_new iteration_id iteration_id env sample_env_ok sample_world_resources w0]
  show ?thesis by (elim exE conjE) (intro exI conjI)
qed

section \<open>An update that overlaps a start\<close>

text \<open>A start up to its set-up, which has copied the pools by then; a whole update; the rest of the start.\<close>

definition start_begins :: "'lb pool_iter \<Rightarrow> 'lb event list" where
  "start_begins po = [Call (IssueStart po), Step 0]"

definition update_runs :: "string \<Rightarrow> upstream_options \<Rightarrow> 'lb event list" where
  "update_runs app opts = [Call (IssueUpdate AddUpstream app opts), Step 1, Step 1, Step 1]"

definition start_ends :: "'lb event list" where
  "start_ends = [Step 0, Step 0, Step 0]"

lemma update_in_start_run:
  assumes "proxy_new options = Inr w" "iteration it" "iteration po" "env_ok E"
    and "build_start_resources S (po_listen (pi_options (w_inner w))) (po_tls (pi_options (w_inner w)))
           = Inr (fd, tls, a)"
    and "add_upstream E app opts w = (Inr (), w0)" "parse_port_upstream opts = Inr u"
  shows "\<exists>q t w1 w2 w3.
      play S E it (start_begins po) (w, []) = Some (w1, [t]) \<and> pi_state (w_inner w1) = Starting
    \<and> play S E it (update_runs app opts) (w1, [t]) = Some (w2, [t, Done (Inr ())]) \<and> pi_state (w_inner w2) = Starting
    \<and> play S E it start_ends (w2, [t, Done (Inr ())]) = Some (w3, [Done (Inr ()), Done (Inr ())])
    \<and> pi_state (w_inner w3) = Running \<and> pi_listen_address (w_inner w3) = Some a
    \<and> hm_get (pi_pools (w_inner w3)) (app, pu_transport u) = Some q
    \<and> sv_services (pi_server (w_inner w3)) = [(''main_http'', MainHttp a)]"
proof -
  obtain u' snapshot us q removed where up: "parse_port_upstream opts = Inr u'"
    "add_upstream_check app u' (w_inner w) = Inr snapshot"
    "add_upstream_plan E u' snapshot = Inr (us, [(pu_transport u', q)], removed)"
    "pu_transport u' \<notin> set removed" "hm_get (pi_upstreams_by_app (w_inner w)) app \<noteq> None"
    by (rule first_update [OF assms(1,4,6)])
  have u: "u' = u" using up(1) assms(7) by simp
  note it = iteration_small [OF assms(2)] iteration_small [OF assms(3)]
  show "\<exists>q t w1 w2 w3.
      play S E it (start_begins po) (w, []) = Some (w1, [t]) \<and> pi_state (w_inner w1) = Starting
    \<and> play S E it (update_runs app opts) (w1, [t]) = Some (w2, [t, Done (Inr ())]) \<and> pi_state (w_inner w2) = Starting
    \<and> play S E it start_ends (w2, [t, Done (Inr ())]) = Some (w3, [Done (Inr ()), Done (Inr ())])
    \<and> pi_state (w_inner w3) = Running \<and> pi_listen_address (w_inner w3) = Some a
    \<and> hm_get (pi_pools (w_inner w3)) (app, pu_transport u) = Some q
    \<and> sv_services (pi_server (w_inner w3)) = [(''main_http'', MainHttp a)]"
    by (simp add: start_begins_def update_runs_def start_ends_def new_proxy_facts [OF assms(1)] it up [unfolded u]
        commit_first_pool assms(5) run_simps)
qed

text \<open>Called before the start or after it, the same update gets its health check.\<close>

lemma pool_checked:
  assumes "settled it w" "pi_state (w_inner w) = Running" "hm_get (pi_pools (w_inner w)) (app, t) = Some q"
  shows "sv_view (pi_server (w_inner w)) (lb_service_name app t) = Some (LbHealth (pc_lb q))"
  using assms by (auto simp: settled_def Let_def services_match_def)

lemma update_checked:
  assumes "proxy_new options = Inr w" "iteration it" "iteration po" "env_ok E"
    and "build_start_resources S (po_listen (pi_options (w_inner w))) (po_tls (pi_options (w_inner w)))
           = Inr (fd, tls, a)"
    and "add_upstream E app opts w = (Inr (), w0)" "parse_port_upstream opts = Inr u"
  shows "\<exists>lb w1 w2. start S po it w = (Some (Inr ()), w1) \<and> add_upstream E app opts w1 = (Inr (), w2)
      \<and> sv_view (pi_server (w_inner w2)) (lb_service_name app (pu_transport u)) = Some (LbHealth lb)"
    and "\<exists>lb w2. start S po it w0 = (Some (Inr ()), w2)
      \<and> sv_view (pi_server (w_inner w2)) (lb_service_name app (pu_transport u)) = Some (LbHealth lb)"
proof -
  obtain u' snapshot us q removed where up: "parse_port_upstream opts = Inr u'"
    "add_upstream_check app u' (w_inner w) = Inr snapshot"
    "add_upstream_plan E u' snapshot = Inr (us, [(pu_transport u', q)], removed)"
    "pu_transport u' \<notin> set removed" "hm_get (pi_upstreams_by_app (w_inner w)) app \<noteq> None"
    by (rule first_update [OF assms(1,4,6)])
  have u: "u' = u" using up(1) assms(7) by simp
  note new = new_proxy_facts [OF assms(1)]
  note s = proxy_new_Inr(2) [OF assms(1,2)] proxy_new_Inr(1) [OF assms(1)]
  note add_simps = add_upstream_def finish_update_def up [unfolded u] commit_first_pool new(5) hm_get_def [of "[x]" for x]
  have wf: "hm_wf (pi_pools (w_inner w))" using s(2) by (simp add: wf_inner_def)
  obtain chans sv where w1: "start S po it w = (Some (Inr ()),
     w\<lparr>w_inner := (w_inner w)\<lparr>pi_server := sv, pi_state := Running, pi_listen_address := Some a,
                                 pi_start_notifier := None\<rparr>, w_start_channels := chans\<rparr>)" (is "_ = (_, ?w1)")
    using start_success [OF s(1) new(1) assms(3) wf assms(5)] by blast
  obtain w2 where w2: "add_upstream E app opts ?w1 = (Inr (), w2)" "pi_state (w_inner w2) = Running"
    "hm_get (pi_pools (w_inner w2)) (app, pu_transport u) = Some q"
    by (simp add: add_simps)
  have "settled it w2"
    using add_keeps(1) [OF conjunct1 conjunct2, OF start_keeps start_keeps, OF s assms(3) s assms(3) assms(4), of app opts] w1 w2(1)
    by (metis snd_conv)
  from w1 w2(1) pool_checked [OF this w2(2,3)]
  show "\<exists>lb w1 w2. start S po it w = (Some (Inr ()), w1) \<and> add_upstream E app opts w1 = (Inr (), w2)
      \<and> sv_view (pi_server (w_inner w2)) (lb_service_name app (pu_transport u)) = Some (LbHealth lb)" by blast
  have w0: "pi_state (w_inner w0) = Stopped" "pi_options (w_inner w0) = pi_options (w_inner w)"
    "hm_get (pi_pools (w_inner w0)) (app, pu_transport u) = Some q"
    using assms(6) by (auto simp: add_simps new(1))
  have s0: "settled it w0" "wf_inner (w_inner w0)"
    using add_keeps(1) [OF s assms(4), of app opts] add_upstream_wf [OF assms(4) s(2), of app opts] assms(6) by simp_all
  have wf0: "hm_wf (pi_pools (w_inner w0))" using s0(2) by (simp add: wf_inner_def)
  from start_success [OF s0(1) w0(1) assms(3) wf0, unfolded w0(2), OF assms(5)] w0(3)
  show "\<exists>lb w2. start S po it w0 = (Some (Inr ()), w2)
      \<and> sv_view (pi_server (w_inner w2)) (lb_service_name app (pu_transport u)) = Some (LbHealth lb)"
    by (auto simp: services_match_def)
qed

text \<open>C23. An update that runs while the proxy is starting gets no health check. On any new proxy whose
  listener can be set up and on which \<open>addUpstream\<close> would succeed, let a start begin, then let the whole
  \<open>addUpstream\<close> run, then the rest of the start: both succeed, the proxy runs and has the new pool, but
  no service checks this pool. When the same \<open>addUpstream\<close> is called after the start has completed, or
  before it begins, the health check of the pool does run.\<close>

theorem update_in_start_unchecked:
  assumes "proxy_new options = Inr w" and "iteration it" and "iteration po" and "(S, E) \<in> envs" and "env_ok E"
    and "build_start_resources S (po_listen (pi_options (w_inner w))) (po_tls (pi_options (w_inner w)))
           = Inr (fd, tls, a)"
    and "add_upstream E app opts w = (Inr (), w0)" and "parse_port_upstream opts = Inr u"
    and "name = lb_service_name app (pu_transport u)"
  shows "(\<exists>t w1 w2 w3.
        play S E it (start_begins po) (w, []) = Some (w1, [t]) \<and> pi_state (w_inner w1) = Starting
      \<and> play S E it (update_runs app opts) (w1, [t]) = Some (w2, [t, Done (Inr ())]) \<and> pi_state (w_inner w2) = Starting
      \<and> play S E it start_ends (w2, [t, Done (Inr ())]) = Some (w3, [Done (Inr ()), Done (Inr ())])
      \<and> (moves envs it)\<^sup>*\<^sup>* (w, []) (w3, [Done (Inr ()), Done (Inr ())])
      \<and> address w3 = Some (address_of_bound a) \<and> hm_get (pi_pools (w_inner w3)) (app, pu_transport u) \<noteq> None
      \<and> sv_view (pi_server (w_inner w3)) name = None)
    \<and> (\<exists>w1 w2. start S po it w = (Some (Inr ()), w1) \<and> add_upstream E app opts w1 = (Inr (), w2)
        \<and> sv_view (pi_server (w_inner w2)) name \<noteq> None)
    \<and> (\<exists>w2. start S po it w0 = (Some (Inr ()), w2) \<and> sv_view (pi_server (w_inner w2)) name \<noteq> None)"
proof (intro conjI)
  note run = update_in_start_run [OF assms(1-3,5-8)]
  obtain q t w1 w2 w3 where p: "play S E it (start_begins po) (w, []) = Some (w1, [t])" "pi_state (w_inner w1) = Starting"
    "play S E it (update_runs app opts) (w1, [t]) = Some (w2, [t, Done (Inr ())])" "pi_state (w_inner w2) = Starting"
    "play S E it start_ends (w2, [t, Done (Inr ())]) = Some (w3, [Done (Inr ()), Done (Inr ())])"
    "pi_state (w_inner w3) = Running" "pi_listen_address (w_inner w3) = Some a"
    "hm_get (pi_pools (w_inner w3)) (app, pu_transport u) = Some q"
    "sv_services (pi_server (w_inner w3)) = [(''main_http'', MainHttp a)]"
    using run by blast
  have "(moves envs it)\<^sup>*\<^sup>* (w, []) (w3, [Done (Inr ()), Done (Inr ())])"
    using play_moves [OF p(1) assms(4)] play_moves [OF p(3) assms(4)] play_moves [OF p(5) assms(4)]
    by (meson rtranclp_trans)
  moreover have "name \<noteq> ''main_http''" unfolding assms(9) by (cases "pu_transport u") simp_all
  ultimately show "\<exists>t w1 w2 w3.
        play S E it (start_begins po) (w, []) = Some (w1, [t]) \<and> pi_state (w_inner w1) = Starting
      \<and> play S E it (update_runs app opts) (w1, [t]) = Some (w2, [t, Done (Inr ())]) \<and> pi_state (w_inner w2) = Starting
      \<and> play S E it start_ends (w2, [t, Done (Inr ())]) = Some (w3, [Done (Inr ()), Done (Inr ())])
      \<and> (moves envs it)\<^sup>*\<^sup>* (w, []) (w3, [Done (Inr ()), Done (Inr ())])
      \<and> address w3 = Some (address_of_bound a) \<and> hm_get (pi_pools (w_inner w3)) (app, pu_transport u) \<noteq> None
      \<and> sv_view (pi_server (w_inner w3)) name = None"
    using p by (intro exI [of _ t] exI [of _ w1] exI [of _ w2] exI [of _ w3])
      (simp add: address_def Let_def sv_view_def hm_get_def [of "[x]" for x])
  note checked = update_checked [OF assms(1-3,5-8)]
  show "\<exists>w1 w2. start S po it w = (Some (Inr ()), w1) \<and> add_upstream E app opts w1 = (Inr (), w2)
        \<and> sv_view (pi_server (w_inner w2)) name \<noteq> None"
    using checked(1) assms(9) by auto
  show "\<exists>w2. start S po it w0 = (Some (Inr ()), w2) \<and> sv_view (pi_server (w_inner w2)) name \<noteq> None"
    using checked(2) assms(9) by auto
qed

theorem update_in_start_unchecked_witness:
  "\<exists>w3. (moves sample_envs (\<lambda>m. m))\<^sup>*\<^sup>* (sample_world, []) (w3, [Done (Inr ()), Done (Inr ())])
    \<and> address w3 \<noteq> None \<and> hm_get (pi_pools (w_inner w3)) (''app'', Http1) \<noteq> None
    \<and> sv_view (pi_server (w_inner w3)) ''lb:app:http'' = None"
proof -
  have env: "(sample_os, sample_env) \<in> sample_envs" by (simp add: sample_envs_def)
  obtain w0 where w0: "add_upstream sample_env ''app'' sample_upstream sample_world = (Inr (), w0)"
    using sample_added by blast
  have name: "''lb:app:http'' = lb_service_name ''app'' (pu_transport sample_port)"
    and http: "pu_transport sample_port = Http1" by (simp_all add: sample_port_def)
  from update_in_start_unchecked [OF sample_new iteration_id iteration_id env sample_env_ok sample_world_resources w0
      sample_parse_upstream name]
  show ?thesis unfolding http by blast
qed

end
