(* ===== verification/Setup_Crash.thy ===== *)
theory Setup_Crash
  imports Concurrent_Calls
begin

text \<open>
  The set-up of the listener and the rebuilding of pools run as blocking tasks (\<open>spawn_blocking\<close>), and
  the code of \<open>src/proxy.rs\<close> handles the case that such a task panics or is dropped: the \<open>JoinError\<close> rejects
  the promise of the call and nothing else happens. The relation \<open>crashes\<close> is this step. For an update
  it is harmless; for a start, this theory follows what becomes of the proxy.
\<close>

section \<open>The crash\<close>

fun join_error :: "'lb task \<Rightarrow> string \<Rightarrow> napi_error option" where
  "join_error (StartSetup job) e =
     Some (from_reason (''Proxy start task failed during listener setup: '' @ e))"
| "join_error (UpdateRebuilding AddUpstream app u snapshot) e =
     Some (from_reason (''Upstream rebuild task failed while adding upstream: '' @ e))"
| "join_error (UpdateRebuilding RemoveUpstream app u snapshot) e =
     Some (from_reason (''Upstream rebuild task failed while removing upstream: '' @ e))"
| "join_error _ e = None"

inductive crashes :: "nat \<Rightarrow> 'lb config \<Rightarrow> 'lb config \<Rightarrow> bool" where
  crash: "i < length ts \<Longrightarrow> join_error (ts ! i) e = Some err \<Longrightarrow> crashes i (w, ts) (w, ts[i := Done (Inl err)])"

inductive_cases crashesE: "crashes i (w, ts) cfg'"

text \<open>An update that crashes releases its lock and leaves everything as it was.\<close>

lemma crashed_update_sane:
  assumes "crashes i (w, ts) cfg" "ts ! i = UpdateRebuilding k app u snapshot" "sane (w, ts)"
  shows "sane cfg"
proof -
  obtain err where cfg: "cfg = (w, ts[i := Done (Inl err)])" using assms(1) by (auto elim: crashesE)
  have keep: "t \<in> set (ts[i := Done (Inl err)])" if "t \<in> set ts" "t \<noteq> ts ! i" for t
  proof -
    from that obtain j where "j < length ts" "t = ts ! j" "j \<noteq> i" by (auto simp: in_set_conv_nth)
    then have "ts[i := Done (Inl err)] ! j = t" "j < length (ts[i := Done (Inl err)])" by simp_all
    then show ?thesis using nth_mem by blast
  qed
  have "\<not> starting c (ts ! i)" "\<not> stopping (ts ! i)" for c using assms(2) by simp_all
  then have "awaited_ok (w, ts[i := Done (Inl err)])"
    using assms(3) keep unfolding sane_def awaited_ok_def by (metis fst_conv snd_conv)
  moreover have "\<forall>t\<in>set (ts[i := Done (Inl err)]). task_ok w t"
    using assms(3) set_update_subset_insert [of ts i "Done (Inl err)"] by (auto simp: sane_def)
  moreover have "holds_lock (ts ! j)" if "j < length ts" "holds_lock (ts[i := Done (Inl err)] ! j)" for j
    using that by (cases "j = i") simp_all
  then have "one_holder (ts[i := Done (Inl err)])"
    using assms(3) by (simp add: sane_def one_holder_def)
  ultimately show ?thesis using assms(3) by (simp add: cfg sane_def)
qed

section \<open>A proxy whose start was lost\<close>

text \<open>Futures that neither start nor stop the proxy.\<close>

fun rests :: "'lb task \<Rightarrow> bool" where
  "rests (Done r) \<longleftrightarrow> True"
| "rests (UpdateLocking k app u) \<longleftrightarrow> True"
| "rests (UpdateRebuilding k app u snapshot) \<longleftrightarrow> True"
| "rests (UpdateCommitting k app u change) \<longleftrightarrow> True"
| "rests (UpdateServices ups names) \<longleftrightarrow> True"
| "rests (Ending hs t) \<longleftrightarrow> rests t"
| "rests _ \<longleftrightarrow> False"

text \<open>Futures that wait for a notification nobody is left to send.\<close>

fun stranded :: "'lb world \<Rightarrow> 'lb task \<Rightarrow> bool" where
  "stranded w (StartWaiting c) \<longleftrightarrow> pi_start_notifier (w_inner w) = Some c"
| "stranded w (StopWaiting rx) \<longleftrightarrow> rx \<noteq> None \<and> pi_start_notifier (w_inner w) = rx"
| "stranded w (StopJoining d) \<longleftrightarrow> pi_stop_notifier (w_inner w) = Some d"
| "stranded w _ \<longleftrightarrow> False"

definition halted :: "'lb world \<Rightarrow> 'lb task \<Rightarrow> bool" where
  "halted w t \<longleftrightarrow> stranded w t \<or> (\<exists>r. t = Done r)"

definition start_lost :: "'lb config \<Rightarrow> bool" where
  "start_lost cfg \<longleftrightarrow>
     (let w = fst cfg; p = w_inner w
      in pi_start_notifier p \<noteq> None \<and> start_channels_ok w \<and> stop_channels_ok w
         \<and> (pi_state p = Starting \<or> pi_state p = Stopping \<and> pi_stop_notifier p \<noteq> None)
         \<and> (\<forall>t\<in>set (snd cfg). rests t \<or> stranded w t))"

lemma halted_waits:
  assumes "start_lost (w, ts)" "halted w t"
  shows "task_step S E it t w = None"
proof (cases "stranded w t")
  case True
  have ok: "start_channels_ok w" "stop_channels_ok w" using assms(1) by (simp_all add: start_lost_def Let_def)
  show ?thesis
  proof (cases t)
    case (StopWaiting rx)
    with True ok show ?thesis
      by (cases rx) (auto simp: start_channels_ok_def wait_for_start_ready_def Let_def)
  qed (use True ok in \<open>auto simp: start_channels_ok_def stop_channels_ok_def wait_for_start_ready_def
        wait_for_stop_ready_def Let_def\<close>)
qed (use assms(2) in \<open>auto simp: halted_def\<close>)

text \<open>What the other futures do leaves the life cycle alone.\<close>

definition same_cycle :: "'lb world \<Rightarrow> 'lb world \<Rightarrow> bool" where
  "same_cycle w w' \<longleftrightarrow>
     pi_state (w_inner w') = pi_state (w_inner w)
     \<and> pi_start_notifier (w_inner w') = pi_start_notifier (w_inner w)
     \<and> pi_stop_notifier (w_inner w') = pi_stop_notifier (w_inner w)
     \<and> w_start_channels w' = w_start_channels w \<and> w_stop_channels w' = w_stop_channels w"

lemma same_cycle_refl [simp]: "same_cycle w w" "same_cycle w (on_server f w)"
  by (simp_all add: same_cycle_def)

lemma same_cycle_commit:
  "commit_upstreams app change (w_inner w) = (r, p) \<Longrightarrow> same_cycle w (w\<lparr>w_inner := p\<rparr>)"
  by (auto simp: same_cycle_def commit_upstreams_def Let_def split: prod.splits if_splits)

lemma same_cycle_stranded: "same_cycle w w' \<Longrightarrow> stranded w' t = stranded w t"
  by (cases t) (auto simp: same_cycle_def)

lemma same_cycle_lost:
  assumes "same_cycle w w'" "\<forall>t\<in>set ts'. rests t \<or> stranded w t" "start_lost (w, ts)"
  shows "start_lost (w', ts')"
  using assms same_cycle_stranded [OF assms(1)]
  by (simp add: start_lost_def Let_def same_cycle_def start_channels_ok_def stop_channels_ok_def)

lemma rests_ending [simp]: "rests (ending hs t) = rests t"
  by (simp add: ending_def)

lemma rests_step:
  assumes "rests t" "task_step S E it t w = Some (t', w')"
  shows "rests t' \<and> same_cycle w w'"
proof (cases t)
  case (UpdateCommitting k app u change)
  obtain r p where c: "commit_upstreams app change (w_inner w) = (r, p)" by fastforce
  with assms(2) UpdateCommitting same_cycle_commit [OF c] show ?thesis
    by (cases r) (auto split: if_splits)
next
  case (UpdateServices ups names)
  with assms(2) show ?thesis by (cases ups; cases names) (auto simp: on_registry_eq)
next
  case (Ending hs t1)
  with assms show ?thesis by (cases hs) auto
qed (use assms in \<open>auto split: sum.splits\<close>)

lemma lost_run:
  assumes "runs envs it (w, ts) (w', ts')" "start_lost (w, ts)"
  shows "start_lost (w', ts') \<and> length ts' = length ts
    \<and> (\<forall>j < length ts. halted w (ts ! j) \<longrightarrow> ts' ! j = ts ! j \<and> halted w' (ts ! j))"
  using assms(1)
proof (cases rule: runs.cases)
  case (run S E i t')
  have moving: "\<not> halted w (ts ! i)" using halted_waits [OF assms(2), of "ts ! i" S E it] run(5) by auto
  have "ts ! i \<in> set ts" using run(3) by simp
  with assms(2) moving have "rests (ts ! i)" by (auto simp: start_lost_def Let_def halted_def)
  note r = rests_step [OF this run(5)]
  have "\<forall>t\<in>set (ts[i := t']). rests t \<or> stranded w t"
    using assms(2) r set_update_subset_insert [of ts i t'] by (auto simp: start_lost_def Let_def)
  with same_cycle_lost [OF conjunct2 [OF r] _ assms(2)] have "start_lost (w', ts')" by (simp add: run(1))
  moreover have "ts[i := t'] ! j = ts ! j" if "halted w (ts ! j)" for j
    using moving that by (cases "j = i") auto
  ultimately show ?thesis using same_cycle_stranded [OF conjunct2 [OF r]] by (simp add: run(1) halted_def)
qed

text \<open>A call that starts or stops the proxy is turned away or joins the others that wait.\<close>

lemma lost_stop:
  assumes "start_lost (w, ts)" "enter IssueStop w = (t, w')"
  shows "stranded w' t \<and> start_lost (w', ts) \<and> (\<forall>t'. stranded w t' \<longrightarrow> stranded w' t')"
proof -
  have l: "pi_start_notifier (w_inner w) \<noteq> None" "stop_channels_ok w" "start_channels_ok w"
    "pi_state (w_inner w) = Starting \<or> pi_state (w_inner w) = Stopping \<and> pi_stop_notifier (w_inner w) \<noteq> None"
    "\<forall>t\<in>set ts. rests t \<or> stranded w t"
    using assms(1) by (simp_all add: start_lost_def Let_def)
  then obtain c where c: "pi_start_notifier (w_inner w) = Some c" by blast
  show ?thesis
  proof (cases "pi_state (w_inner w) = Stopping")
    case True
    with assms l(4) show ?thesis by (auto simp: stop_enter_def Let_def)
  next
    case False
    then have st: "pi_state (w_inner w) = Starting" using l(4) by blast
    note w' = assms(2) [unfolded enter.simps stop_enter_def Let_def, simplified st c, simplified]
    have keep: "stranded w t' \<Longrightarrow> stranded w' t'" for t'
      using w' l(2) by (cases t') (auto simp: c stop_channels_ok_def split: option.splits)
    have "start_channels_ok w'" "stop_channels_ok w'"
      using w' l(2,3) by (auto simp: start_channels_ok_def stop_channels_ok_def nth_append split: option.splits)
    with w' l(5) keep show ?thesis by (auto simp: start_lost_def Let_def c split: option.splits)
  qed
qed

lemma lost_call:
  assumes "start_lost (w, ts)" "enter c w = (t, w')"
  shows "start_lost (w', ts @ [t]) \<and> (\<forall>t'. halted w t' \<longrightarrow> halted w' t')
    \<and> (c = IssueStop \<longrightarrow> stranded w' t) \<and> (c = IssueStart po \<longrightarrow> halted w' t \<and> t \<noteq> Done (Inr ()))"
proof (cases c)
  case IssueStop
  with lost_stop [OF assms(1)] assms(2) show ?thesis by (auto simp: start_lost_def Let_def halted_def)
next
  case (IssueStart po')
  have "w' = w \<and> (stranded w t \<or> (\<exists>e. t = Done (Inl e)))"
    using assms IssueStart by (auto simp: start_lost_def start_enter_def Let_def)
  with assms(1) show ?thesis by (auto simp: IssueStart start_lost_def Let_def halted_def)
next
  case (IssueUpdate k app opts)
  with assms show ?thesis
    by (cases "parse_port_upstream opts") (auto simp: start_lost_def Let_def)
qed

lemma lost_move:
  assumes "moves envs it (w, ts) (w', ts')" "start_lost (w, ts)"
  shows "start_lost (w', ts') \<and> length ts \<le> length ts'
    \<and> (\<forall>j < length ts. halted w (ts ! j) \<longrightarrow> ts' ! j = ts ! j \<and> halted w' (ts ! j))"
  using assms(1)
proof (cases rule: moves.cases)
  case (call c t)
  with lost_call [OF assms(2) call(2)] show ?thesis by (simp add: nth_append)
next
  case step
  from lost_run [OF this assms(2)] show ?thesis by simp
qed

lemma lost_moves:
  "(moves envs it)\<^sup>*\<^sup>* (w, ts) (w', ts') \<Longrightarrow> start_lost (w, ts) \<Longrightarrow>
   start_lost (w', ts') \<and> length ts \<le> length ts'
   \<and> (\<forall>j < length ts. halted w (ts ! j) \<longrightarrow> ts' ! j = ts ! j \<and> halted w' (ts ! j))"
proof (induction rule: rtranclp_induct2)
  case (step w1 ts1 w2 ts2)
  note IH = step.IH [OF step.prems]
  from lost_move [OF step.hyps(2) conjunct1 [OF IH]] IH show ?case by (metis less_le_trans le_trans)
qed simp

lemma crash_loses_start:
  assumes "reachable envs it (w, ts)" "envs_ok envs" "crashes i (w, ts) cfg"
    and "pi_state (w_inner w) = Starting" "\<forall>j < length ts. j \<noteq> i \<longrightarrow> rests (ts ! j)"
  shows "start_lost cfg"
proof -
  obtain err where cfg: "cfg = (w, ts[i := Done (Inl err)])" using assms(3) by (auto elim: crashesE)
  have s: "state_ok (w_inner w)" "start_channels_ok w" "stop_channels_ok w"
    using sane_reachable [OF assms(1,2)] by (simp_all add: sane_def world_ok_def)
  have "rests (ts[i := Done (Inl err)] ! j)" if "j < length ts" for j
    using assms(5) that by (cases "j = i") simp_all
  then have "\<forall>t\<in>set (ts[i := Done (Inl err)]). rests t" by (metis in_set_conv_nth length_list_update)
  with s assms(4) show ?thesis by (simp add: cfg start_lost_def Let_def state_ok_def)
qed

section \<open>No way back\<close>

text \<open>C22. If the set-up task of a start panics, with no other start or stop under way, the proxy never
  leaves this start again: it reports no address for ever, no later \<open>start\<close> ever succeeds, and no
  later \<open>stop\<close> is ever answered, whatever calls are made and however they interleave.\<close>

theorem crashed_setup_blocks_proxy:
  assumes "reachable envs it (w, ts)" and "envs_ok envs" and "crashes i (w, ts) (w1, ts1)"
    and "pi_state (w_inner w) = Starting" and "\<forall>j < length ts. j \<noteq> i \<longrightarrow> rests (ts ! j)"
    and "(moves envs it)\<^sup>*\<^sup>* (w1, ts1) (w2, ts2)" and "enter c w2 = (t, w3)"
    and "(moves envs it)\<^sup>*\<^sup>* (w3, ts2 @ [t]) (w4, ts4)"
  shows "address w4 = None
    \<and> (c = IssueStart po \<longrightarrow> ts4 ! length ts2 \<noteq> Done (Inr ()))
    \<and> (c = IssueStop \<longrightarrow> ts4 ! length ts2 \<noteq> Done r)"
proof -
  have "start_lost (w2, ts2)"
    using lost_moves [OF assms(6)] crash_loses_start [OF assms(1-5)] by blast
  note call = lost_call [OF this assms(7), of po]
  note after = lost_moves [OF assms(8) conjunct1 [OF call]]
  have "pi_state (w_inner w4) \<noteq> Running" using after by (auto simp: start_lost_def Let_def)
  then have "address w4 = None" by (simp add: address_def Let_def)
  moreover have "ts4 ! length ts2 = t" if "halted w3 t" using after that by simp
  ultimately show ?thesis using call by (auto simp: halted_def)
qed

theorem crashed_setup_blocks_proxy_witness:
  "address (snd (enter IssueStop (snd (enter (IssueStart (\<lambda>m. m)) sample_world)))) = None
   \<and> fst (enter IssueStop (snd (enter (IssueStart (\<lambda>m. m)) sample_world))) \<noteq> Done (Inr ())"
proof -
  obtain job w where e: "enter (IssueStart (\<lambda>m. m)) sample_world = (StartSetup job, w)" "pi_state (w_inner w) = Starting"
    by (simp add: start_enter_def Let_def sample_world_def)
  have r: "reachable sample_envs (\<lambda>m. m) (w, [StartSetup job])" using sample_started e(1) by simp
  obtain err where c: "crashes 0 (w, [StartSetup job]) (w, [StartSetup job][0 := Done (Inl err)])"
    using crash [of 0 "[StartSetup job]"] by fastforce
  obtain t w3 where t: "enter IssueStop w = (t, w3)" by fastforce
  from crashed_setup_blocks_proxy [OF r sample_envs_ok(1) c e(2) _ rtranclp.rtrancl_refl t rtranclp.rtrancl_refl, of _ "Inr ()"]
  show ?thesis by (simp add: e(1) t del: enter.simps)
qed

end
