(* ===== verification/Sticky_Retention.thy ===== *)
theory Sticky_Retention
  imports Sticky_Sessions
begin

text \<open>
  What keeps a binding alive: as long as the store has room, the calls of other clients before its
  expiry leave it as it is.
\<close>

section \<open>Poisoned shards\<close>

text \<open>No call on the store changes which shards are poisoned.\<close>

definition poison_map :: "sticky_session_state \<Rightarrow> bool list" where
  "poison_map st = map poisoned (shards st)"

lemma poison_map_cleanup:
  assumes "iteration it" "wf_sticky_state h st"
  shows "poison_map (cleanup_global it now st) = poison_map st"
proof -
  have "list_all2 (\<lambda>s' s. poisoned s' = poisoned s) (shards (cleanup_global it now st)) (shards st)"
    by (rule list_all2_mono [OF cleanup_shards(1) [OF assms]]) (simp add: shard_le_def)
  then show ?thesis by (simp add: poison_map_def list_all2_conv_all_nth list_eq_iff_nth_eq)
qed

lemma poison_map_set_shard:
  "poisoned s = poisoned (shards st ! i) \<Longrightarrow> poison_map (set_shard i s st) = poison_map st"
  by (cases "i < length (shards st)")
     (simp_all add: poison_map_def set_shard_def map_update list_update_same_conv list_update_beyond)

lemma poison_map_simps [simp]:
  "poison_map (count_op i st) = poison_map st" "poison_map (put_entry h k e st) = poison_map st"
  "poison_map (drop_entry h k st) = poison_map st"
  by (simp_all add: count_op_def put_entry_def drop_entry_def Let_def should_cleanup_def poison_map_set_shard)

lemma poison_map_counted:
  "iteration it \<Longrightarrow> wf_sticky_state h st \<Longrightarrow> poison_map (counted it now i st) = poison_map st"
  by (simp add: counted_def poison_map_cleanup [OF _ count_op_wf])

lemma poison_map_lookup:
  "iteration it \<Longrightarrow> wf_sticky_state h st \<Longrightarrow> poison_map (snd (sticky_lookup h it now a t k B st)) = poison_map st"
  by (simp add: sticky_lookup_eq Let_def poison_map_counted split: option.split)

lemma poison_map_nth:
  "wf_sticky_state h st \<Longrightarrow> poison_map st ! shard_index_for_key h st k = poisoned (shards st ! shard_index_for_key h st k)"
  by (simp add: poison_map_def shard_index_less)

section \<open>What other clients do to a binding\<close>

text \<open>Calls that neither concern a key nor happen after \<open>t\<close>, and the entries they may add.\<close>

fun spares :: "affinity_map_key \<Rightarrow> instant \<Rightarrow> sticky_op \<Rightarrow> bool" where
  "spares key t (OpLookup now a tr k B) \<longleftrightarrow> affinity_map_key_of a tr k \<noteq> key \<and> now \<le> t"
| "spares key t (OpBind now a tr k b) \<longleftrightarrow> affinity_map_key_of a tr k \<noteq> key \<and> now \<le> t"
| "spares key t (OpRemove a tr k) \<longleftrightarrow> affinity_map_key_of a tr k \<noteq> key"
| "spares key t (OpGenerate clock) \<longleftrightarrow> True"
| "spares key t (OpPoison i) \<longleftrightarrow> False"

fun may_add :: "sticky_op \<Rightarrow> nat" where
  "may_add (OpBind now a tr k b) = 1"
| "may_add _ = 0"

lemma counted_count:
  assumes "iteration it" "wf_sticky_state h st"
  shows "entry_count (counted it now i st) \<le> entry_count st"
  using live_le_entry [of now st] cleanup_count [OF assms(1) count_op_wf [OF assms(2)], of now i]
  by (simp add: counted_def min_def)

lemma sticky_step_count:
  assumes "iteration it" "wf_sticky_state h st" "\<And>i. op \<noteq> OpPoison i"
  shows "entry_count (sticky_step h it op st) \<le> entry_count st + may_add op"
proof (cases op)
  case (OpLookup now a t k B)
  let ?st = "counted it now (shard_index_for_key h st (affinity_map_key_of a t k)) st"
  have "entry_count ?st \<le> entry_count st" using assms(1,2) by (rule counted_count)
  with OpLookup counted_wf [OF assms(1,2)] show ?thesis
    by (auto simp: sticky_lookup_eq [OF assms(1,2)] Let_def entry_count_put(2) split: option.splits
        intro: le_trans [OF entry_count_drop])
next
  case (OpBind now a t k b)
  then show ?thesis
    using le_trans [OF counted_count [OF assms(1) put_entry_wf [OF assms(2)]] entry_count_put(1) [OF assms(2)]]
    by (simp add: sticky_bind_eq [OF assms(2)])
next
  case (OpRemove a t k)
  then show ?thesis using entry_count_drop [OF assms(2)] by (simp add: sticky_remove_eq)
qed (use assms(3) in \<open>auto simp: generate_affinity_key_def entry_count_def\<close>)

lemma sticky_step_spares:
  assumes "iteration it" "wf_sticky_state h st" "spares key t op" "t < ae_expires_at e"
    and "entry_count st + may_add op \<le> sc_max_entries (st_config st)"
    and "binding h st key = Some e"
  shows "binding h (sticky_step h it op st) key = Some e"
proof (cases op)
  case (OpLookup now a tr k B)
  with assms(3) have other: "affinity_map_key_of a tr k \<noteq> key" "now < ae_expires_at e"
    using assms(4) by auto
  have "live_count now st \<le> sc_max_entries (st_config st)" using live_le_entry [of now st] assms(5) by simp
  from binding_counted_live [OF assms(1,2) this assms(6) other(2)] OpLookup other(1) show ?thesis
    by (auto simp: sticky_lookup_eq [OF assms(1,2)] Let_def binding_put_entry [OF counted_wf [OF assms(1,2)]]
        binding_drop_entry [OF counted_wf [OF assms(1,2)]] split: option.split)
next
  case (OpBind now a tr k b)
  with assms(3) have other: "affinity_map_key_of a tr k \<noteq> key" "now < ae_expires_at e"
    using assms(4) by auto
  let ?st = "put_entry h (affinity_map_key_of a tr k) \<lparr>ae_backend = b, ae_expires_at = now + sc_ttl (st_config st)\<rparr> st"
  have "entry_count ?st \<le> sc_max_entries (st_config ?st)"
    using entry_count_put(1) [OF assms(2)] assms(5) OpBind by (fastforce intro: le_trans)
  then have "live_count now ?st \<le> sc_max_entries (st_config ?st)" using live_le_entry le_trans by blast
  from binding_counted_live [OF assms(1) put_entry_wf [OF assms(2)] this _ other(2)] other(1) assms(6) OpBind
  show ?thesis by (auto simp: sticky_bind_eq [OF assms(2)] binding_put_entry [OF assms(2)])
next
  case (OpRemove a tr k)
  with assms(3,6) show ?thesis by (simp add: sticky_remove_binding [OF assms(2)])
next
  case (OpGenerate clock)
  with assms(6) show ?thesis by (simp add: generate_affinity_key_def binding_def shard_index_for_key_def)
qed (use assms(3) in simp)

lemma sticky_step_config [simp]: "st_config (sticky_step h it op st) = st_config st"
  by (cases op) (auto simp: generate_affinity_key_def set_shard_def)

lemma wf_key_counter [simp]: "wf_sticky_state h (st\<lparr>key_counter := c\<rparr>) = wf_sticky_state h st"
  by (simp add: wf_sticky_state_def)

lemma sticky_step_wf:
  "iteration it \<Longrightarrow> wf_sticky_state h st \<Longrightarrow> spares key t op \<Longrightarrow> wf_sticky_state h (sticky_step h it op st)"
  by (cases op) (auto simp: sticky_lookup_wf sticky_bind_wf sticky_remove_wf generate_affinity_key_def)

lemma sticky_run_spares:
  assumes "iteration it" "t < ae_expires_at e"
  shows "wf_sticky_state h st \<Longrightarrow> list_all (spares key t) ops \<Longrightarrow> binding h st key = Some e \<Longrightarrow>
    entry_count st + sum_list (map may_add ops) \<le> sc_max_entries (st_config st) \<Longrightarrow>
    wf_sticky_state h (sticky_run h it ops st) \<and> binding h (sticky_run h it ops st) key = Some e
    \<and> st_config (sticky_run h it ops st) = st_config st
    \<and> entry_count (sticky_run h it ops st) \<le> sc_max_entries (st_config st)"
proof (induction ops arbitrary: st)
  case Nil
  then show ?case by (simp add: sticky_run_def)
next
  case (Cons op ops)
  let ?st = "sticky_step h it op st"
  from Cons.prems(2) have op: "spares key t op" "\<And>i. op \<noteq> OpPoison i" by auto
  have "entry_count ?st \<le> entry_count st + may_add op"
    by (rule sticky_step_count [OF assms(1) Cons.prems(1) op(2)])
  with Cons.prems(4) have "entry_count ?st + sum_list (map may_add ops) \<le> sc_max_entries (st_config ?st)" by simp
  moreover have "binding h ?st key = Some e"
    using Cons.prems(3,4) by (intro sticky_step_spares [OF assms(1) Cons.prems(1) op(1) assms(2)]) simp_all
  ultimately show ?case
    using Cons.IH [OF sticky_step_wf [OF assms(1) Cons.prems(1) op(1)]] Cons.prems(2)
    by (simp add: sticky_run_def)
qed

end
