(* ===== verification/Session_Flow.thy ===== *)
theory Session_Flow
  imports Upstream_Choice Sticky_Retention
begin

text \<open>
  A client across two of its requests: \<open>request_filter\<close>, \<open>upstream_peer\<close> and \<open>response_filter\<close> of
  the first, whatever the store does for other clients in between, and the same callbacks of the
  second, which carries the cookie of the first response.
\<close>

section \<open>The first request\<close>

text \<open>What the filter leaves in the context and in the store when sticky sessions are on.\<close>

lemma request_filter_key:
  assumes "request_filter L respond clock R s ds new_ctx = Ret (Inr False, R', ds', ctx)"
    and "ro_sticky R = Some st"
  shows "cx_affinity_key ctx = Some (fst (request_affinity_key L clock s st))
    \<and> ro_sticky R' = Some (snd (request_affinity_key L clock s st)) \<and> cx_should_set_cookie ctx"
  using assms(1)
proof (cases rule: request_filter_outcomes)
  case (limit status)
  with assms(1) show ?thesis
    by (auto simp: request_filter_limit reject_request_def Let_def split: option.splits)
next
  case unrouted
  with assms(1) show ?thesis by (simp add: request_filter_unrouted)
next
  case (no_pool route)
  with assms(1) request_filter_no_pool [OF no_pool, of respond clock ds] show ?thesis by auto
next
  case (pool route p)
  with assms request_filter_pool [OF pool, of respond clock ds] show ?thesis by auto
qed

text \<open>The address chosen for a client is remembered for a full lifetime.\<close>

lemma select_address_remembers:
  assumes "iteration it" "wf_sticky_state h st" "ro_sticky R = Some st"
    and "cx_app_name ctx = Some app" "cx_affinity_key ctx = Some key"
    and "select_address h it now now' select R ctx p = (Some b, R2)"
    and "\<not> poisoned (shards st ! shard_index_for_key h st (affinity_map_key_of app (rp_transport p) key))"
    and "entry_count st < sc_max_entries (st_config st)" "0 < sc_ttl (st_config st)" "now \<le> now'"
  obtains st2 e where "R2 = R\<lparr>ro_sticky := Some st2\<rparr>" "wf_sticky_state h st2" "st_config st2 = st_config st"
    "binding h st2 (affinity_map_key_of app (rp_transport p) key) = Some e" "ae_backend e = b"
    "now + sc_ttl (st_config st) \<le> ae_expires_at e" "entry_count st2 \<le> Suc (entry_count st)"
proof -
  let ?t = "rp_transport p" let ?k = "affinity_map_key_of app ?t key"
  obtain r st1 where l: "sticky_lookup h it now app ?t key (rp_backends p) st = (r, st1)" by fastforce
  note st1 = sticky_lookup_wf [OF assms(1,2), of now app ?t key "rp_backends p", unfolded l, simplified]
    sticky_lookup_config [of h it now app ?t key "rp_backends p" st, unfolded l, simplified]
    sticky_step_count [OF assms(1,2), of "OpLookup now app ?t key (rp_backends p)", simplified, unfolded l, simplified]
    poison_map_lookup [OF assms(1,2), of now app ?t key "rp_backends p", unfolded l, simplified]
  note sel = assms(6) [unfolded select_address_sticky [OF assms(3-5)] sticky_choose_def l]
  show thesis
  proof (cases r)
    case (Some x)
    with sel have "x = b" "R2 = R\<lparr>ro_sticky := Some st1\<rparr>" by simp_all
    with sticky_lookup_hit [OF assms(1,2) l [unfolded Some]] st1 that [of st1] show thesis by auto
  next
    case None
    with sel obtain a where "select (rp_lb p) key = Some a" by (cases "select (rp_lb p) key") auto
    with sel None have R2: "R2 = R\<lparr>ro_sticky := Some (sticky_bind h it now' app ?t key b st1)\<rparr>" by auto
    have "poison_map st1 ! shard_index_for_key h st1 ?k = poison_map st ! shard_index_for_key h st ?k"
      using st1(1,4) assms(2) by (simp add: shard_index_for_key_def wf_sticky_state_def)
    then have "\<not> poisoned (shards st1 ! shard_index_for_key h st1 ?k)"
      using assms(7) by (simp add: poison_map_nth [OF st1(1)] poison_map_nth [OF assms(2)])
    note room = sticky_bind_room [OF assms(1) st1(1) this, of now' b, unfolded st1(2)]
    have "entry_count (sticky_bind h it now' app ?t key b st1) \<le> Suc (entry_count st)"
      using sticky_step_count [OF assms(1) st1(1), of "OpBind now' app ?t key b"] st1(3) by simp
    with that [OF R2] room(2) sticky_bind_wf [OF assms(1) st1(1)] st1(2,3) assms(8-10) show thesis by simp
  qed
qed

section \<open>The second request\<close>

text \<open>A client that is bound to a backend of its pool is sent there.\<close>

lemma select_address_bound:
  assumes "iteration it" "wf_sticky_state h st" "ro_sticky R = Some st"
    and "cx_app_name ctx = Some app" "cx_affinity_key ctx = Some key"
    and "binding h st (affinity_map_key_of app (rp_transport p) key) = Some e"
    and "now < ae_expires_at e" "ae_backend e \<in> rp_backends p"
    and "entry_count st \<le> sc_max_entries (st_config st)"
  shows "fst (select_address h it now now' select R ctx p) = Some (ae_backend e)"
proof -
  have "live_count now st \<le> sc_max_entries (st_config st)" using live_le_entry [of now st] assms(9) by simp
  from sticky_lookup_live [OF assms(1,2) this assms(6-8)] show ?thesis
    by (auto simp: select_address_sticky [OF assms(3-5)] Let_def sticky_choose_def split: prod.splits)
qed

lemma upstream_peer_address:
  assumes "upstream_peer h it now now' select new_peer R ctx = (Inr peer, R', ctx')"
    and "cx_resolved_pool ctx = Some p" and "\<And>a t n. hp_address (new_peer a t n) = a"
  shows "select_address h it now now' select R ctx p = (Some (hp_address peer), R') \<and> ctx' = ctx"
  using assms by (auto simp: upstream_peer_def apply_upstream_timeouts_def Let_def split: option.splits prod.splits)

section \<open>The session\<close>

text \<open>C8. A client that sends its cookie back is served by the same backend. The first request is let
  through, sent to a backend, and answered with a cookie; other clients use the store; the client
  sends the cookie back, after others of other names and before any, before its binding expires, to the
  same application and transport. Then the second request goes to the backend of the first, whatever the load balancer
  would select. This holds if the backend is still in the pool, the store has had room for every
  binding made meanwhile, no shard of it was poisoned before or is poisoned meanwhile, and the
  configured cookie name is plain: it begins with an ASCII character other than white space and
  contains neither an equals sign nor a semicolon (the options also accept other names).\<close>

theorem returning_client_same_backend:
  assumes first: "request_filter L respond clock R s ds new_ctx = Ret (Inr False, R1, ds1, ctx)"
      "upstream_peer h it now now' select new_peer R1 ctx = (Inr peer, R2, ctx1)"
      "response_filter append_header R2 headers ctx1 = Inr (headers @ [(''set-cookie'', cookie)])"
    and between: "ro_sticky R2 = Some st2" "ro_sticky R3 = Some (sticky_run h it ops st2)"
      "list_all (spares (affinity_map_key_of app (rp_transport p) key) later) ops"
    and second: "header_text L s' ''cookie'' = Some (cookie_header (before @ cookie_pair_of cookie # after))"
      "request_filter L respond' clock' R3 s' ds' new_ctx = Ret (Inr False, R4, ds4, ctx')"
      "upstream_peer h it later later' select' new_peer R4 ctx' = (Inr peer', R5, ctx'')"
    and pools: "cx_app_name ctx = Some app" "cx_affinity_key ctx = Some key" "cx_resolved_pool ctx = Some p"
      "cx_app_name ctx' = Some app" "cx_resolved_pool ctx' = Some p'" "rp_transport p' = rp_transport p"
      "hp_address peer \<in> rp_backends p'"
    and store: "ro_sticky R = Some st" "wf_sticky_state h st" "\<forall>sh\<in>set (shards st). \<not> poisoned sh"
      "entry_count st + sum_list (map may_add ops) < sc_max_entries (st_config st)"
    and time: "now \<le> now'" "later < now + sc_ttl (st_config st)" "now \<le> later" "\<And>n. clock = Some n \<Longrightarrow> n < 2 ^ 128"
    and cookies: "plain_cookie_name (sc_cookie_name (st_config st))"
      "list_all (\<lambda>c. CHR '';'' \<notin> set c \<and> cookie_pair_value (sc_cookie_name (st_config st)) c = None) before"
      "list_all (\<lambda>c. CHR '';'' \<notin> set c) after"
    and libs: "iteration it" "\<And>a t n. hp_address (new_peer a t n) = a" "\<And>hs n v hs'. append_header hs n v = Inr hs' \<Longrightarrow> hs' = hs @ [(n, v)]"
  shows "hp_address peer' = hp_address peer"
proof -
  let ?k = "affinity_map_key_of app (rp_transport p) key" and ?ttl = "sc_ttl (st_config st)"
  note filter1 = request_filter_key [OF first(1) store(1)]
  obtain c where st1: "ro_sticky R1 = Some (st\<lparr>key_counter := c\<rparr>)"
    using filter1 request_affinity_key_state [of L clock s st] by auto
  let ?st1 = "st\<lparr>key_counter := c\<rparr>"
  have key: "is_cookie_safe_affinity_key key"
    using filter1 request_affinity_key_safe [OF time(4)] pools(2) by auto
  have healthy: "\<not> poisoned (shards ?st1 ! shard_index_for_key h ?st1 ?k)"
    using store(3) shard_index_less [of h ?st1 ?k] store(2) by simp
  note up1 = upstream_peer_address [OF first(2) pools(3) libs(2)]
  obtain e where st2: "wf_sticky_state h st2" "st_config st2 = st_config st" "binding h st2 ?k = Some e"
    "ae_backend e = hp_address peer" "now + ?ttl \<le> ae_expires_at e" "entry_count st2 \<le> Suc (entry_count st)"
    by (rule select_address_remembers [OF libs(1) _ st1 pools(1,2) conjunct1 [OF up1] healthy])
       (use store(2,4) time(1-3) between(1) in \<open>auto simp: entry_count_def\<close>)
  have "cookie = cookie_header_value (st_config st) key"
    using first(3) up1 filter1 pools(2) between(1) st2(2)
    by (auto simp: response_filter_def split: sum.splits dest: libs(3))
  let ?st3 = "sticky_run h it ops st2"
  have st3: "wf_sticky_state h ?st3" "binding h ?st3 ?k = Some e" "st_config ?st3 = st_config st"
    "entry_count ?st3 \<le> sc_max_entries (st_config st)"
    using sticky_run_spares [OF libs(1) _ st2(1) between(3) st2(3)] st2(2,5,6) store(4) time(2) by auto
  have own: "request_affinity_key L clock' s' ?st3 = (key, ?st3)"
    by (rule own_cookie_key [where before = before and after = after])
       (use cookies key second(1) st3(3) \<open>cookie = _\<close> in simp_all)
  note filter2 = request_filter_key [OF second(2) between(2), unfolded own fst_conv snd_conv]
  have "select_address h it later later' select' R4 ctx' p' = (Some (hp_address peer'), R5)"
    using upstream_peer_address [OF second(3) pools(5) libs(2)] ..
  moreover have "fst (select_address h it later later' select' R4 ctx' p') = Some (ae_backend e)"
    by (rule select_address_bound [OF libs(1) st3(1) _ pools(4)])
       (use filter2 st3 st2(4,5) time(2) pools(6,7) in auto)
  ultimately show ?thesis using st2(4) by simp
qed

section \<open>A session\<close>

lemma select_address_ready:
  assumes "ro_sticky R = Some st" "cx_app_name ctx = Some app" "cx_affinity_key ctx = Some key"
    and "select (rp_lb p) key = Some a"
  shows "\<exists>b st'. select_address h it now now' select R ctx p = (Some b, R\<lparr>ro_sticky := Some st'\<rparr>)
    \<and> st_config st' = st_config st
    \<and> (b = a \<or> fst (sticky_lookup h it now app (rp_transport p) key (rp_backends p) st) = Some b)"
proof -
  obtain r st1 where l: "sticky_lookup h it now app (rp_transport p) key (rp_backends p) st = (r, st1)" by fastforce
  have "st_config st1 = st_config st"
    using sticky_lookup_config [of h it now app "rp_transport p" key "rp_backends p" st] l by simp
  with l show ?thesis
    by (intro exI [of _ "case r of None \<Rightarrow> a | Some b \<Rightarrow> b"]
          exI [of _ "case r of None \<Rightarrow> sticky_bind h it now' app (rp_transport p) key a st1 | Some b \<Rightarrow> st1"])
       (auto simp: select_address_sticky [OF assms(1-3)] sticky_choose_def assms(4) split: option.split)
qed

definition sample_store :: sticky_session_state where
  "sample_store = sticky_state_new sample_sticky"

lemma sample_store_facts:
  "ro_sticky sample_router = Some sample_store" "wf_sticky_state h sample_store"
  "\<forall>sh\<in>set (shards sample_store). \<not> poisoned sh" "entry_count sample_store = 0"
  "st_config sample_store = sample_sticky"
proof -
  show "ro_sticky sample_router = Some sample_store" by (simp add: sample_store_def sample_router_def router_new_def sample_sticky_def)
  show "wf_sticky_state h sample_store" by (simp add: sample_store_def wf_sticky_state_new)
  show "entry_count sample_store = 0"
    by (simp add: sample_store_def sticky_state_new_def entry_count_def lock_guards_replicate hm_empty_def sum_list_replicate)
  show "\<forall>sh\<in>set (shards sample_store). \<not> poisoned sh" "st_config sample_store = sample_sticky"
    by (simp_all add: sample_store_def sticky_state_new_def sticky_shard_new_def)
qed

lemma sample_cookie_accepted:
  "strict_append [] ''set-cookie'' (cookie_header_value sample_sticky ''k1'')
     = Inr [(''set-cookie'', cookie_header_value sample_sticky ''k1'')]"
proof -
  have "list_all printable (sc_cookie_name sample_sticky)" by (simp add: sample_sticky_def) code_simp
  moreover have "is_cookie_safe_affinity_key ''k1''" by code_simp
  ultimately show ?thesis by (simp add: strict_append_def printable_cookie)
qed

lemma sample_ws_visit:
  assumes "ro_config R = ro_config sample_router" "ro_limits R = ro_limits sample_router"
    and "ro_sticky R = Some st" "st_config st = sample_sticky" "select (rp_lb sample_ws_pool) ''k1'' = Some a"
  shows "\<exists>R1 ds1 ctx peer R2 st2. request_filter sample_lib (\<lambda>_. None) None R sample_ws_request sample_downstream new_ctx
        = Ret (Inr False, R1, ds1, ctx)
      \<and> upstream_peer h it now now' select sample_peer R1 ctx = (Inr peer, R2, ctx)
      \<and> R2 = R\<lparr>ro_sticky := Some st2\<rparr> \<and> st_config st2 = sample_sticky
      \<and> response_filter strict_append R2 [] ctx
          = Inr ([] @ [(''set-cookie'', cookie_header_value sample_sticky ''k1'')])
      \<and> cx_app_name ctx = Some ''auth'' \<and> cx_affinity_key ctx = Some ''k1'' \<and> cx_resolved_pool ctx = Some sample_ws_pool
      \<and> (hp_address peer = a \<or> fst (sticky_lookup h it now ''auth'' Ws ''k1'' {''127.0.0.1:4001''} st) = Some (hp_address peer))"
proof -
  have "request_affinity_key sample_lib None sample_ws_request st = (''k1'', st)"
    using sample_key assms(4) by (simp add: request_affinity_key_def sample_sticky_def)
  moreover have "routed sample_lib R sample_ws_request (Some sample_ws_route)"
    using sample_ws_routed assms(1,2) by (simp add: routed_def sample_hosts)
  ultimately obtain R1 ds1 ctx where f: "request_filter sample_lib (\<lambda>_. None) None R sample_ws_request sample_downstream new_ctx
      = Ret (Inr False, R1, ds1, ctx)" "cx_resolved_pool ctx = Some sample_ws_pool" "cx_app_name ctx = Some ''auth''"
    "cx_affinity_key ctx = Some ''k1''" "cx_should_set_cookie ctx" "R1 = R\<lparr>ro_sticky := Some st\<rparr>"
    using request_filter_pool [of sample_lib R sample_ws_request sample_ws_route sample_ws_pool "\<lambda>_. None" None sample_downstream]
      sample_ws_pool assms(1,3) by (auto simp: sample_ws_route_def)
  have R1: "R1 = R" "ro_sticky R1 = Some st" using f(6) assms(3) by simp_all
  obtain b st' where b: "select_address h it now now' select R1 ctx sample_ws_pool = (Some b, R1\<lparr>ro_sticky := Some st'\<rparr>)"
    "b = a \<or> fst (sticky_lookup h it now ''auth'' Ws ''k1'' {''127.0.0.1:4001''} st) = Some b"
    "st_config st' = sample_sticky"
    using assms(4) select_address_ready [where select = select, OF R1(2) f(3,4) assms(5), of h it now now'] by (auto simp: sample_ws_pool_def)
  show ?thesis
    by (intro exI conjI, rule f(1), simp add: upstream_peer_def Let_def f(2) b(1), simp_all add: f R1)
       (use b in \<open>simp_all add: f response_filter_def sample_cookie_accepted sample_peer_def apply_upstream_timeouts_def Let_def\<close>)
qed

theorem returning_client_same_backend_witness:
  "\<exists>(R3 :: string list router) R4 R5 ds4 ctx' peer'.
     request_filter sample_lib (\<lambda>_. None) None R3 sample_ws_request sample_downstream new_ctx
       = Ret (Inr False, R4, ds4, ctx')
     \<and> upstream_peer sample_hash (\<lambda>m. m) 100 100 (\<lambda>_ _. Some ''127.0.0.1:9999'') sample_peer R4 ctx' = (Inr peer', R5, ctx')
     \<and> hp_address peer' = ''127.0.0.1:4001''"
proof -
  note st = sample_store_facts
  let ?ops = "[OpBind 50 ''auth'' Ws ''k2'' ''127.0.0.1:4001'', OpGenerate None]"
  obtain R1 ds1 ctx peer R2 st2 where one:
    "request_filter sample_lib (\<lambda>_. None) None sample_router sample_ws_request sample_downstream new_ctx
       = Ret (Inr False, R1, ds1, ctx)"
    "upstream_peer sample_hash (\<lambda>m. m) 0 0 sample_select sample_peer R1 ctx = (Inr peer, R2, ctx)"
    "R2 = sample_router\<lparr>ro_sticky := Some st2\<rparr>" "st_config st2 = sample_sticky"
    "response_filter strict_append R2 [] ctx
       = Inr ([] @ [(''set-cookie'', cookie_header_value sample_sticky ''k1'')])"
    "cx_app_name ctx = Some ''auth''" "cx_affinity_key ctx = Some ''k1''" "cx_resolved_pool ctx = Some sample_ws_pool"
    "hp_address peer = ''127.0.0.1:4001'' \<or> fst (sticky_lookup sample_hash (\<lambda>m. m) 0 ''auth'' Ws ''k1'' {''127.0.0.1:4001''} sample_store) = Some (hp_address peer)"
    using sample_ws_visit [OF refl refl st(1,5), of sample_select "''127.0.0.1:4001''" sample_hash "\<lambda>m. m" 0 0]
    by (auto simp: sample_select_def sample_ws_pool_def sample_pool_def)
  have addr: "hp_address peer = ''127.0.0.1:4001''"
    using one(9) sticky_lookup_hit [OF iteration_id st(2)] by (metis prod.collapse singletonD)
  let ?st3 = "sticky_run sample_hash (\<lambda>m. m) ?ops st2"
  let ?R3 = "R2\<lparr>ro_sticky := Some ?st3\<rparr>"
  have cfg3: "st_config ?st3 = sample_sticky" using one(4) by (simp add: sticky_run_def generate_affinity_key_def)
  obtain R4 ds4 ctx' peer' R5 where two:
    "request_filter sample_lib (\<lambda>_. None) None ?R3 sample_ws_request sample_downstream new_ctx = Ret (Inr False, R4, ds4, ctx')"
    "upstream_peer sample_hash (\<lambda>m. m) 100 100 (\<lambda>_ _. Some ''127.0.0.1:9999'') sample_peer R4 ctx' = (Inr peer', R5, ctx')"
    "cx_app_name ctx' = Some ''auth''" "cx_resolved_pool ctx' = Some sample_ws_pool"
    using sample_ws_visit [OF _ _ _ cfg3, of ?R3 "\<lambda>_ _. Some ''127.0.0.1:9999''" "''127.0.0.1:9999''" sample_hash "\<lambda>m. m" 100 100]
      one(3) by auto
  have name: "sc_cookie_name sample_sticky = ''nmt_affinity''" by (simp add: sample_sticky_def)
  have plain: "plain_cookie_name (sc_cookie_name sample_sticky)" unfolding name by code_simp
  have safe: "is_cookie_safe_affinity_key ''k1''" by code_simp
  have other: "cookie_pair_value ''nmt_affinity'' ''a=b'' = None" by code_simp
  have header: "header_text sample_lib sample_ws_request ''cookie'' = Some (cookie_header
      ([''a=b''] @ cookie_pair_of (cookie_header_value sample_sticky ''k1'') # []))"
    unfolding cookie_pair_of_header_value [OF plain safe] name
    by (simp add: header_text_def sample_lib_def sample_request_def sample_ws_request_def)
  have "hp_address peer' = hp_address peer"
  proof (rule returning_client_same_backend [OF one(1,2,5) _ _ _ header two(1,2) one(6-8) two(3,4) refl _ st(1-3)])
    show "ro_sticky R2 = Some st2" "ro_sticky ?R3 = Some ?st3" using one(3) by simp_all
    show "list_all (spares (affinity_map_key_of ''auth'' (rp_transport sample_ws_pool) ''k1'') 100) ?ops" by simp
    show "hp_address peer \<in> rp_backends sample_ws_pool" by (simp add: addr sample_ws_pool_def)
    show "entry_count sample_store + sum_list (map may_add ?ops) < sc_max_entries (st_config sample_store)"
      by (simp add: st(4,5)) (simp add: sample_sticky_def)
    show "plain_cookie_name (sc_cookie_name (st_config sample_store))" by (simp add: st(5) plain)
    show "list_all (\<lambda>c. CHR '';'' \<notin> set c \<and> cookie_pair_value (sc_cookie_name (st_config sample_store)) c = None) [''a=b'']"
      by (simp add: st(5) name other)
    show "100 < 0 + sc_ttl (st_config sample_store)" by (simp add: st(5)) (simp add: sample_sticky_def)
  qed (simp_all add: iteration_id sample_peer_def strict_append_def split: if_splits)
  then have "hp_address peer' = ''127.0.0.1:4001''" by (simp only: addr)
  then show ?thesis by (intro exI conjI) (rule two(1), rule two(2))
qed

end
