(* ===== verification/System_Runs.thy ===== *)
theory System_Runs
  imports Concurrent_Calls Session_Flow
begin

text \<open>
  The proxy as a whole: the calls from JavaScript, whose futures interleave, and the requests Pingora
  serves meanwhile with the same router. A callback runs between two steps of the futures; it reads
  the configuration once, as the code loads it once, and changes the sticky store. The context a
  callback gets is arbitrary, so a request may have been routed by an older configuration.
\<close>

section \<open>Serving requests\<close>

inductive serves :: "key_hash \<Rightarrow> iter_order \<Rightarrow> 'lb router \<Rightarrow> 'lb router \<Rightarrow> bool" for h it where
  filter: "request_filter L respond clock R s ds ctx = Ret (result, R', ds', ctx') \<Longrightarrow> serves h it R R'"
| peer: "upstream_peer h it now now' select new_peer R ctx = (result, R', ctx') \<Longrightarrow> serves h it R R'"
| connect: "fail_to_connect h R ctx e = (e', R', ctx') \<Longrightarrow> serves h it R R'"

definition with_router :: "'lb router \<Rightarrow> 'lb world \<Rightarrow> 'lb world" where
  "with_router R = on_inner (\<lambda>p. p\<lparr>pi_router := R\<rparr>)"

inductive system ::
    "('fd, 'tls, 'addr, 'lb) envs \<Rightarrow> 'lb service_iter \<Rightarrow> key_hash \<Rightarrow> iter_order \<Rightarrow> 'lb config \<Rightarrow> bool"
  for envs sit h it where
  init: "proxy_new options = Inr w \<Longrightarrow> system envs sit h it (w, [])"
| move: "system envs sit h it cfg \<Longrightarrow> moves envs sit cfg cfg' \<Longrightarrow> system envs sit h it cfg'"
| serve: "system envs sit h it (w, ts) \<Longrightarrow> serves h it (pi_router (w_inner w)) R
    \<Longrightarrow> system envs sit h it (with_router R w, ts)"

section \<open>What a callback changes\<close>

text \<open>Only the sticky store of the router, by calls on it.\<close>

lemma sticky_choose_run:
  "\<exists>ops. snd (sticky_choose (sticky_lookup h it now a t k) (sticky_bind h it now' a t k) selected B st) = sticky_run h it ops st"
proof (cases "sticky_lookup h it now a t k B st")
  case (Pair r st1)
  show ?thesis
  proof (cases "r = None \<and> selected \<noteq> None")
    case True
    with Pair show ?thesis
      by (intro exI [of _ "[OpLookup now a t k B, OpBind now' a t k (the selected)]"])
         (auto simp: sticky_choose_def sticky_run_def)
  next
    case False
    with Pair show ?thesis
      by (intro exI [of _ "[OpLookup now a t k B]"]) (auto simp: sticky_choose_def sticky_run_def split: option.split)
  qed
qed

lemma request_affinity_key_run: "\<exists>ops. snd (request_affinity_key L clock s st) = sticky_run h it ops st"
proof (cases "snd (request_affinity_key L clock s st) = st")
  case True
  then show ?thesis by (intro exI [of _ "[]"]) (simp add: sticky_run_def)
next
  case False
  then have "snd (request_affinity_key L clock s st) = snd (generate_affinity_key clock st)"
    by (auto simp: request_affinity_key_def split: option.splits)
  then show ?thesis by (intro exI [of _ "[OpGenerate clock]"]) (simp add: sticky_run_def)
qed

definition same_store :: "key_hash \<Rightarrow> iter_order \<Rightarrow> 'lb router \<Rightarrow> 'lb router \<Rightarrow> bool" where
  "same_store h it R R' \<longleftrightarrow>
     (\<exists>ops. R' = R\<lparr>ro_sticky := map_option (sticky_run h it ops) (ro_sticky R)\<rparr>)"

lemma same_store_refl: "same_store h it R R"
  unfolding same_store_def
  by (intro exI [of _ "[]"]) (cases "ro_sticky R"; simp add: sticky_run_def)

lemma same_storeI:
  "ro_sticky R = Some st \<Longrightarrow> R' = R\<lparr>ro_sticky := Some (sticky_run h it ops st)\<rparr> \<Longrightarrow> same_store h it R R'"
  by (auto simp: same_store_def)

lemma assign_affinity_store: "same_store h it R (fst (assign_affinity L clock s R ctx))"
proof (cases "ro_sticky R")
  case (Some st)
  then show ?thesis
    using request_affinity_key_run [of L clock s st h it]
    by (auto simp: assign_affinity_def same_store_refl intro!: same_storeI split: option.split prod.split) 
qed (simp add: assign_affinity_def same_store_refl)

lemma assign_affinity_result: "assign_affinity L clock s R ctx = (R', ctx') \<Longrightarrow> same_store h it R R'"
  using assign_affinity_store [of h it R L clock s ctx] by simp

lemma select_address_store:
  assumes "select_address h it now now' select R ctx p = (a, R')"
  shows "same_store h it R R'"
proof (cases "\<exists>st app key. ro_sticky R = Some st \<and> cx_app_name ctx = Some app \<and> cx_affinity_key ctx = Some key")
  case True
  then obtain st app key where s: "ro_sticky R = Some st" "cx_app_name ctx = Some app" "cx_affinity_key ctx = Some key"
    by blast
  obtain ops where "snd (sticky_choose (sticky_lookup h it now app (rp_transport p) key)
      (sticky_bind h it now' app (rp_transport p) key) (select (rp_lb p) key) (rp_backends p) st) = sticky_run h it ops st"
    using sticky_choose_run by blast
  with assms show ?thesis
    by (intro same_storeI [OF s(1), of R' h it ops]) (auto simp: select_address_sticky [OF s] Let_def)
qed (use assms in \<open>auto simp: select_address_def same_store_refl split: option.splits\<close>)

lemma serves_store: "serves h it R R' \<Longrightarrow> same_store h it R R'"
proof (induction rule: serves.induct)
  case (filter L respond clock R s ds ctx result R' ds' ctx')
  then show ?case
    by (cases "extract_host L s")
       (auto simp: request_filter_def Let_def same_store_refl split: option.splits prod.splits
          dest: assign_affinity_result [of L clock s R _ R' _ h it])
next
  case (peer now now' select new_peer R ctx result R' ctx')
  then show ?case
    by (auto simp: upstream_peer_def Let_def same_store_refl split: option.splits prod.splits
        dest: select_address_store)
next
  case (connect R ctx e e' R' ctx')
  then show ?case
    by (cases "ro_sticky R"; cases "cx_app_name ctx"; cases "cx_selected_transport ctx"; cases "cx_affinity_key ctx")
       (auto simp: fail_to_connect_def Let_def same_store_refl split: if_splits
        intro!: same_storeI [of R _ _ h it "[OpRemove (the (cx_app_name ctx)) (the (cx_selected_transport ctx)) (the (cx_affinity_key ctx))]"]
        simp: sticky_run_def)
qed

section \<open>The invariant of the whole\<close>

text \<open>The router keeps what the options gave it, and its store is a store of these options.\<close>

definition router_ok :: "key_hash \<Rightarrow> 'lb proxy_inner \<Rightarrow> bool" where
  "router_ok h p \<longleftrightarrow>
     ro_limits (pi_router p) = po_limits (pi_options p) \<and> ro_timeouts (pi_router p) = po_timeouts (pi_options p)
     \<and> (case ro_sticky (pi_router p) of
          None \<Rightarrow> \<not> ss_enabled (po_sticky_sessions (pi_options p))
        | Some st \<Rightarrow> ss_enabled (po_sticky_sessions (pi_options p))
            \<and> sticky_inv h (sticky_config_of (pi_options p)) st)"

definition same_router :: "'lb proxy_inner \<Rightarrow> 'lb proxy_inner \<Rightarrow> bool" where
  "same_router p p' \<longleftrightarrow> pi_options p' = pi_options p \<and> ro_limits (pi_router p') = ro_limits (pi_router p)
     \<and> ro_timeouts (pi_router p') = ro_timeouts (pi_router p) \<and> ro_sticky (pi_router p') = ro_sticky (pi_router p)"

lemma same_router_ok: "same_router p p' \<Longrightarrow> router_ok h p' = router_ok h p"
  by (simp add: same_router_def router_ok_def cong: option.case_cong)

lemma same_data_router: "same_data w w' \<Longrightarrow> same_router (w_inner w) (w_inner w')"
  by (simp add: same_data_def same_router_def)

lemma commit_router: "same_router p (snd (commit_upstreams app change p))"
  by (simp add: commit_upstreams_def same_router_def router_update_def case_prod_unfold Let_def)

text \<open>Only a commit changes the data of the proxy.\<close>

lemma task_step_data:
  assumes "task_step S E it t w = Some (t', w')"
  shows "same_data w w' \<or> (\<exists>k app u change. t = UpdateCommitting k app u change)"
proof (cases t)
  case (StartSetup job)
  with assms show ?thesis
    by (cases "build_start_resources S (sj_listen job) (sj_tls job)") (auto simp: same_data_refl same_data_sections)
next
  case (StartServices a tasks c)
  with assms show ?thesis by (cases tasks) (auto simp: on_registry_eq same_data_sections)
next
  case (StartFinishing a c)
  with assms have "w' = snd (start_finish a w)"
    by (cases "start_finish a w") (auto split: sum.splits)
  then show ?thesis by (simp add: same_data_sections)
next
  case (StopWaiting rx)
  with assms show ?thesis by (cases rx) (auto simp: same_data_refl)
next
  case (UpdateLocking k app u)
  with assms show ?thesis by (auto simp: same_data_refl split: sum.splits)
next
  case (UpdateRebuilding k app u snapshot)
  with assms show ?thesis by (auto simp: same_data_refl split: sum.splits)
next
  case (UpdateServices ups names)
  with assms show ?thesis
    by (cases ups; cases names) (auto simp: on_registry_eq same_data_refl same_data_sections)
next
  case (Ending hs t1)
  with assms show ?thesis by (cases hs) (auto simp: same_data_refl same_data_sections)
qed (use assms in \<open>auto simp: on_registry_eq same_data_refl same_data_sections\<close>)

lemma task_step_router:
  assumes "task_step S E it t w = Some (t', w')"
  shows "same_router (w_inner w) (w_inner w')"
  using task_step_data [OF assms]
proof (elim disjE exE)
  fix k app u change assume t: "t = UpdateCommitting k app u change"
  obtain r p where "commit_upstreams app change (w_inner w) = (r, p)" by fastforce
  with assms t commit_router [of "w_inner w" app change] show ?thesis by (cases r) auto
qed (rule same_data_router)

text \<open>Every pool was built from the upstreams its application has now, by some update.\<close>

definition made_of ::
    "('fd, 'tls, 'addr, 'lb) envs \<Rightarrow> proxy_options_parsed \<Rightarrow> string \<Rightarrow> port_upstream set \<Rightarrow> 'lb pool_config \<Rightarrow> bool" where
  "made_of envs parsed app U q \<longleftrightarrow>
     (\<exists>(S, E)\<in>envs. \<exists>a\<in>set (po_applications parsed).
        a_name a = app \<and> pool_spec (ue_net E) a (po_health_check_interval_ms parsed) U q)"

definition built :: "('fd, 'tls, 'addr, 'lb) envs \<Rightarrow> 'lb proxy_inner \<Rightarrow> bool" where
  "built envs p \<longleftrightarrow>
     (\<forall>app t q. hm_get (pi_pools p) (app, t) = Some q \<longrightarrow>
        (\<exists>us. hm_get (pi_upstreams_by_app p) app = Some us \<and> made_of envs (pi_options p) app (upstreams_of us t) q))"

text \<open>The same of the pools a pending update is about to commit.\<close>

fun plan_built :: "('fd, 'tls, 'addr, 'lb) envs \<Rightarrow> proxy_options_parsed \<Rightarrow> 'lb task \<Rightarrow> bool" where
  "plan_built envs parsed (UpdateCommitting k app u (us, nps, removed)) \<longleftrightarrow>
     (\<forall>t q. map_of nps t = Some q \<longrightarrow> made_of envs parsed app (upstreams_of us t) q)"
| "plan_built envs parsed (Ending hs t) \<longleftrightarrow> plan_built envs parsed t"
| "plan_built envs parsed _ \<longleftrightarrow> True"

definition system_ok :: "('fd, 'tls, 'addr, 'lb) envs \<Rightarrow> key_hash \<Rightarrow> 'lb config \<Rightarrow> bool" where
  "system_ok envs h cfg \<longleftrightarrow>
     sane cfg \<and> router_ok h (w_inner (fst cfg)) \<and> built envs (w_inner (fst cfg))
     \<and> list_all (plan_built envs (pi_options (w_inner (fst cfg)))) (snd cfg)"

lemma plan_built_ending [simp]: "plan_built envs parsed (ending hs t) = plan_built envs parsed t"
  by (simp add: ending_def)

lemma update_plan_built:
  assumes "(S, E) \<in> envs" "env_ok E" "update_plan E k u snapshot = Inr change"
    and "snapshot_ok k app u snapshot p" "wf_inner p"
  shows "plan_built envs (pi_options p) (UpdateCommitting k app u change)"
proof -
  obtain a ms current where s: "snapshot = (a, ms, current)" by (cases snapshot) auto
  obtain us nps removed where c: "change = (us, nps, removed)" by (cases change) auto
  from assms(4) have f: "find_upstreams app p = Inr (a, current)" and ms: "ms = po_health_check_interval_ms (pi_options p)"
    by (auto simp: s snapshot_ok_def)
  note a = find_upstreams_Inr [OF f]
  have "hm_wf current" using assms(5) a by (auto simp: wf_inner_def pools_match_def split: option.splits)
  then have wf: "hm_wf (next_upstreams k u current)" by (cases k) (simp_all add: hm_wf_sets)
  note r = update_plan_Inr [OF assms(3) [unfolded s], unfolded c]
  note ch = rebuild_change_Inr [OF assms(2) wf r]
  show ?thesis
    unfolding c plan_built.simps made_of_def
    using ch(4) a assms(1) by (auto simp: ch(1) ms intro!: bexI [of _ "(S, E)"] bexI [of _ a])
qed

lemma commit_built:
  assumes "built envs p" "plan_built envs (pi_options p) (UpdateCommitting k app u change)"
    and "change_fits k app u change p" "commit_upstreams app change p = (r, p')"
  shows "built envs p'"
proof (cases r)
  case (Inl err)
  with assms(1,4) show ?thesis
    by (auto simp: commit_upstreams_def Let_def split: prod.splits if_splits)
next
  case (Inr services)
  obtain us nps removed where c: "change = (us, nps, removed)" by (cases change) auto
  have ok: "change_ok nps removed" using assms(3) by (simp add: change_fits_def c)
  note up = commit_upstreams_Inr [OF assms(4) [unfolded c Inr] ok]
  show ?thesis
    unfolding built_def up(3,9)
  proof (intro allI impI)
    fix name t q assume q: "hm_get (pi_pools p') (name, t) = Some q"
    show "\<exists>us'. hm_get (hm_insert app us (pi_upstreams_by_app p)) name = Some us'
        \<and> made_of envs (pi_options p) name (upstreams_of us' t) q"
      using q assms(1,2) by (cases "name = app") (auto simp: up(1) hm.get_insert c built_def)
  qed
qed

lemma same_data_built: "same_data w w' \<Longrightarrow> built envs (w_inner w') = built envs (w_inner w)"
  by (simp add: same_data_def built_def)

lemma run_built:
  assumes "(S, E) \<in> envs" "env_ok E" "world_ok w" "task_ok w t" "task_step S E it t w = Some (t', w')"
    and "built envs (w_inner w)" "plan_built envs (pi_options (w_inner w)) t"
  shows "built envs (w_inner w') \<and> plan_built envs (pi_options (w_inner w)) t'"
proof
  show "built envs (w_inner w')"
    using task_step_data [OF assms(5)]
  proof (elim disjE exE)
    fix k app u change assume t: "t = UpdateCommitting k app u change"
    obtain r p where c: "commit_upstreams app change (w_inner w) = (r, p)" by fastforce
    then have "w_inner w' = p" using assms(5) t by (cases r) auto
    with commit_built [OF assms(6) _ _ c] assms(4,7) t show ?thesis by simp
  qed (use assms(6) in \<open>simp add: same_data_built\<close>)
  show "plan_built envs (pi_options (w_inner w)) t'"
  proof (cases t)
    case (UpdateRebuilding k app u snapshot)
    have snap: "snapshot_ok k app u snapshot (w_inner w)" using assms(4) UpdateRebuilding by simp
    have wf: "wf_inner (w_inner w)" using assms(3) by (simp add: world_ok_def)
    show ?thesis
    proof (cases "update_plan E k u snapshot")
      case (Inr change)
      with assms(5) UpdateRebuilding have "t' = UpdateCommitting k app u change" by simp
      with update_plan_built [OF assms(1,2) Inr snap wf] show ?thesis by (simp only:)
    qed (use assms(5) UpdateRebuilding in auto)
  next
    case (UpdateCommitting k app u change)
    with assms(5) show ?thesis
      by (auto split: sum.splits prod.splits if_splits)
  next
    case (StartSetup job)
    with assms(5) show ?thesis
      by (cases "build_start_resources S (sj_listen job) (sj_tls job)") auto
  next
    case (StartServices a tasks c)
    with assms(5) show ?thesis by (cases tasks) (auto simp: on_registry_eq)
  next
    case (StopWaiting rx)
    with assms(5) show ?thesis by (cases rx) auto
  next
    case (UpdateServices ups names)
    with assms(5) show ?thesis by (cases ups; cases names) (auto simp: on_registry_eq)
  next
    case (Ending hs t1)
    with assms(5,7) show ?thesis by (cases hs) auto
  qed (use assms(5) in \<open>auto simp: on_registry_eq split: sum.splits prod.splits\<close>)
qed

section \<open>Runs of the whole keep the invariant\<close>

lemma same_routerD: "same_router p p' \<Longrightarrow> pi_options p' = pi_options p"
  by (simp add: same_router_def)

lemma system_ok_run:
  assumes "runs envs sit cfg cfg'" "envs_ok envs" "system_ok envs h cfg"
  shows "system_ok envs h cfg'"
  using assms(1)
proof (cases rule: runs.cases)
  case (run S E i ts w t' w')
  have E: "env_ok E" using assms(2) run(3) by (auto simp: envs_ok_def)
  have ti: "ts ! i \<in> set ts" using run(4) by simp
  with assms(3) run(1) have ok: "world_ok w" "task_ok w (ts ! i)" "built envs (w_inner w)"
    "plan_built envs (pi_options (w_inner w)) (ts ! i)"
    by (auto simp: system_ok_def sane_def list_all_iff)
  note b = run_built [OF run(3) E ok(1,2) run(6) ok(3,4)]
  note r = task_step_router [OF run(6)]
  have "list_all (plan_built envs (pi_options (w_inner w))) (ts[i := t'])"
    using assms(3) b set_update_subset_insert [of ts i t'] by (auto simp: run(1) system_ok_def list_all_iff)
  then show ?thesis
    using sane_runs [OF assms(1,2)] assms(3) b same_router_ok [OF r, of h] same_routerD [OF r]
    by (simp add: run(1,2) system_ok_def)
qed

lemma enter_plan_built: "enter c w = (t, w') \<Longrightarrow> plan_built envs parsed t"
  by (cases c) (auto split: prod.splits start_entry.splits stop_entry.splits sum.splits)

lemma system_ok_move:
  assumes "moves envs sit cfg cfg'" "envs_ok envs" "system_ok envs h cfg"
  shows "system_ok envs h cfg'"
  using assms(1)
proof (cases rule: moves.cases)
  case (call c w t w' ts)
  have "world_ok w" using assms(3) by (simp add: call(1) system_ok_def sane_def)
  with call(3) have d: "same_data w w'" using enter_keeps by (auto simp: enter_keeps_def)
  note r = same_data_router [OF d]
  show ?thesis
    using assms(3) sane_moves [OF assms(1,2)] same_router_ok [OF r, of h] same_data_built [OF d, of envs] same_routerD [OF r]
    by (simp add: call(1,2) system_ok_def enter_plan_built [OF call(3)])
qed (use assms(2,3) system_ok_run in blast)

lemma same_store_sane:
  assumes "same_store h it (pi_router (w_inner w)) R" "sane (w, ts)"
  shows "sane (with_router R w, ts)"
proof -
  let ?w = "with_router R w"
  have w: "pi_options (w_inner ?w) = pi_options (w_inner w)" "pi_state (w_inner ?w) = pi_state (w_inner w)"
    "pi_listen_address (w_inner ?w) = pi_listen_address (w_inner w)"
    "pi_start_notifier (w_inner ?w) = pi_start_notifier (w_inner w)"
    "pi_stop_notifier (w_inner ?w) = pi_stop_notifier (w_inner w)"
    "pi_upstreams_by_app (w_inner ?w) = pi_upstreams_by_app (w_inner w)" "pi_pools (w_inner ?w) = pi_pools (w_inner w)"
    "w_start_channels ?w = w_start_channels w" "w_stop_channels ?w = w_stop_channels w"
    "ro_config (pi_router (w_inner ?w)) = ro_config (pi_router (w_inner w))"
    using assms(1) by (auto simp: with_router_def same_store_def)
  have "task_ok ?w t = task_ok w t" for t
  proof (induction t)
    case (StopWaiting rx)
    then show ?case by (cases rx) (simp_all add: w)
  qed (simp_all add: w snapshot_ok_def change_fits_def find_upstreams_def cong: option.case_cong)
  moreover have "world_ok ?w = world_ok w"
    by (simp add: world_ok_def state_ok_def start_channels_ok_def stop_channels_ok_def wf_inner_def pools_match_def w
        cong: option.case_cong)
  ultimately show ?thesis using assms(2) by (simp add: sane_def awaited_ok_def w)
qed

lemma system_ok_serve:
  assumes "serves h it (pi_router (w_inner w)) R" "iteration it" "system_ok envs h (w, ts)"
  shows "system_ok envs h (with_router R w, ts)"
proof -
  note s = serves_store [OF assms(1)]
  have "router_ok h (w_inner (with_router R w))"
    using s assms(3) sticky_run_inv [OF assms(2)]
    by (auto simp: with_router_def same_store_def system_ok_def router_ok_def split: option.splits)
  then show ?thesis
    using same_store_sane [OF s] assms(3) by (simp add: system_ok_def with_router_def built_def)
qed

lemma system_ok_new: "proxy_new options = Inr w \<Longrightarrow> system_ok envs h (w, [])"
  using sane_new [of options w]
  by (auto simp: system_ok_def proxy_new_def Let_def result_inv router_ok_def router_new_def router_update_def
      sticky_config_of_def sticky_inv_new built_def hm.get_empty)

lemma system_invariant: "system envs sit h it cfg \<Longrightarrow> envs_ok envs \<Longrightarrow> iteration it \<Longrightarrow> system_ok envs h cfg"
  by (induction rule: system.induct) (auto intro: system_ok_new system_ok_move system_ok_serve)

end
