(* ===== verification/Whole_System.thy ===== *)
theory Whole_System
  imports System_Runs Call_Runs
begin

text \<open>
  What holds of the proxy as a whole at every moment: which requests are let through while upstreams
  come and go, where a request that was let through is sent, and how large the store gets.
\<close>

section \<open>The upstreams of a request\<close>

definition registered_upstreams :: "'lb proxy_inner \<Rightarrow> string \<Rightarrow> transport_kind \<Rightarrow> port_upstream set" where
  "registered_upstreams p app t = (case hm_get (pi_upstreams_by_app p) app of None \<Rightarrow> {} | Some us \<Rightarrow> upstreams_of us t)"

definition transport_for :: "'lb proxy_inner \<Rightarrow> string \<Rightarrow> bool \<Rightarrow> transport_kind" where
  "transport_for p app up = (if up then Ws else if registered_upstreams p app Http2 \<noteq> {} then Http2 else Http1)"

lemma registered_pool: "wf_inner p \<Longrightarrow> hm_get (pi_pools p) (app, t) = None \<longleftrightarrow> registered_upstreams p app t = {}"
  using wf_inner_pools(1) [of p app t] by (auto simp: registered_upstreams_def split: option.splits)

lemma built_registered:
  assumes "built envs p" "hm_get (pi_pools p) (app, t) = Some q"
  shows "made_of envs (pi_options p) app (registered_upstreams p app t) q"
proof -
  obtain us where "hm_get (pi_upstreams_by_app p) app = Some us" "made_of envs (pi_options p) app (upstreams_of us t) q"
    using assms unfolding built_def by blast
  then show ?thesis by (simp add: registered_upstreams_def)
qed

lemma routed_application:
  assumes "wf_inner p" "routed L (pi_router p) s (Some route)"
  obtains a where "a \<in> set (po_applications (pi_options p))" "a_name a = rr_app_name route"
    "apps (ro_config (pi_router p)) (rr_app_name route) = Some (app_pools_of (pi_pools p) a)"
proof -
  let ?cfg = "ro_config (pi_router p)"
  have cfg: "?cfg = build_router_config (pi_options p) (pi_pools p)"
    and valid: "valid_applications (po_applications (pi_options p))"
    using assms(1) by (simp_all add: wf_inner_def wf_options_def)
  note r = router_config_routes [OF valid, of "pi_pools p", folded cfg]
  from assms(2) obtain host seg where "resolve_route ?cfg host seg = Some route"
    by (auto simp: routed_def split: rust.splits)
  then have "(\<exists>k. subdomain_routes ?cfg k = Some (rr_app_name route)) \<or> (\<exists>k. path_routes ?cfg k = Some (rr_app_name route))
      \<or> default_app ?cfg = Some (rr_app_name route)"
    by (auto simp: resolve_route_def bind_eq_Some_conv split: option.splits)
  then obtain a where a: "a \<in> set (po_applications (pi_options p))" "a_name a = rr_app_name route"
    unfolding r by blast
  then have "apps ?cfg (rr_app_name route) = Some (app_pools_of (pi_pools p) a)" unfolding r(3) by blast
  with a that show thesis by blast
qed

text \<open>The pool of a routed request: there is one exactly when upstreams of its transport are registered,
  and it was made of these.\<close>

lemma routed_pool:
  assumes "system_ok envs h (w, ts)" "routed L (pi_router (w_inner w)) s (Some route)"
  defines "t \<equiv> transport_for (w_inner w) (rr_app_name route) (req_is_upgrade s)"
  shows "pool_of_route (ro_config (pi_router (w_inner w))) (req_is_upgrade s) route = None
      \<longleftrightarrow> registered_upstreams (w_inner w) (rr_app_name route) t = {}"
    and "pool_of_route (ro_config (pi_router (w_inner w))) (req_is_upgrade s) route = Some p \<Longrightarrow>
      rp_transport p = t \<and>
      (\<exists>q. rp_lb p = pc_lb q \<and> rp_secure p = pc_secure q \<and> rp_verify_hostname p = pc_verify_hostname q
         \<and> rp_backends p = pc_backends q
         \<and> made_of envs (pi_options (w_inner w)) (rr_app_name route) (registered_upstreams (w_inner w) (rr_app_name route) t) q)"
proof -
  let ?p = "w_inner w" and ?n = "rr_app_name route"
  have wf: "wf_inner ?p" and built: "built envs ?p"
    using assms(1) by (simp_all add: system_ok_def sane_def world_ok_def)
  obtain a where a: "a_name a = ?n"
    "apps (ro_config (pi_router ?p)) ?n = Some (app_pools_of (pi_pools ?p) a)"
    using routed_application [OF wf assms(2)] by blast
  have pr: "pool_of_route (ro_config (pi_router ?p)) (req_is_upgrade s) route
      = resolve_pool (app_pools_of (pi_pools ?p) a) (req_is_upgrade s)"
    by (simp add: pool_of_route_def a(2))
  have ap: "ap_ws (app_pools_of (pi_pools ?p) a) = hm_get (pi_pools ?p) (?n, Ws)"
    "ap_http2 (app_pools_of (pi_pools ?p) a) = hm_get (pi_pools ?p) (?n, Http2)"
    "ap_http1 (app_pools_of (pi_pools ?p) a) = hm_get (pi_pools ?p) (?n, Http1)"
    by (simp_all add: app_pools_of_def a(1))
  show "pool_of_route (ro_config (pi_router ?p)) (req_is_upgrade s) route = None \<longleftrightarrow> registered_upstreams ?p ?n t = {}"
    by (simp add: pr resolve_pool_None ap registered_pool [OF wf] t_def transport_for_def)
  assume "pool_of_route (ro_config (pi_router ?p)) (req_is_upgrade s) route = Some p"
  then have r: "resolve_pool (app_pools_of (pi_pools ?p) a) (req_is_upgrade s) = Some p" by (simp add: pr)
  note rt = resolve_pool_transport [OF r]
  have t: "rp_transport p = t"
    using rt(1,2) by (simp add: ap registered_pool [OF wf] t_def transport_for_def)
  let ?q = "\<lparr>pc_lb = rp_lb p, pc_secure = rp_secure p, pc_verify_hostname = rp_verify_hostname p,
              pc_backends = rp_backends p\<rparr>"
  have "hm_get (pi_pools ?p) (?n, t) = Some ?q"
    using rt(3) by (cases t) (simp_all add: t ap)
  note made = built_registered [OF built this]
  from made t show "rp_transport p = t \<and>
      (\<exists>q. rp_lb p = pc_lb q \<and> rp_secure p = pc_secure q \<and> rp_verify_hostname p = pc_verify_hostname q
         \<and> rp_backends p = pc_backends q \<and> made_of envs (pi_options ?p) ?n (registered_upstreams ?p ?n t) q)"
    by (intro conjI exI [of _ ?q]) simp_all
qed

section \<open>Samples\<close>

lemma system_moves: "(moves envs sit)\<^sup>*\<^sup>* cfg cfg' \<Longrightarrow> system envs sit h it cfg \<Longrightarrow> system envs sit h it cfg'"
  by (induction rule: rtranclp_induct) (auto intro: system.move)

lemma sample_system:
  assumes "add_upstream sample_env ''app'' sample_upstream sample_world = (Inr (), w1)"
  shows "system sample_envs (\<lambda>m. m) h it (w1, [Done (Inr ())])"
proof -
  obtain t where t: "enter (IssueUpdate AddUpstream ''app'' sample_upstream) sample_world = (t, sample_world)"
    "solo sample_os sample_env (\<lambda>m. m) t sample_world (Done (Inr ())) w1"
    using update_is_solo(1) [OF assms] by blast
  have "(sample_os, sample_env) \<in> sample_envs" by (simp add: sample_envs_def)
  from system_moves [OF solo_call_moves [OF t this, of "[]", simplified] system.init [OF sample_new]] show ?thesis .
qed

definition sample_home :: session where
  "sample_home = sample_request ''/'' [(''host'', ''API.example.com:8080'')] False"

definition sample_home_route :: resolved_route where
  "sample_home_route = \<lparr>rr_app_name = ''app'', rr_path_rewrite_segment = None\<rparr>"

lemma sample_update:
  assumes "add_upstream sample_env ''app'' sample_upstream sample_world = (Inr (), w1)"
  shows "registered_upstreams (w_inner w1) ''app'' Http1 = {sample_port}"
    and "transport_for (w_inner w1) ''app'' (req_is_upgrade sample_home) = Http1"
    and "routed sample_lib (pi_router (w_inner w1)) sample_home (Some sample_home_route)"
    and "ro_sticky (pi_router (w_inner w1)) = None"
proof -
  from assms obtain u current where u: "parse_port_upstream sample_upstream = Inr u"
    and up: "updated sample_env ''app'' current (hs_insert u current) sample_world w1" by (rule add_upstream_Inr)
  have eq: "u = sample_port" "current = hm_empty"
    using u sample_parse_upstream updated_upstreams(1) [OF up]
    by (auto simp: sample_world_def sample_parsed_def hm_get_initial_upstreams)
  have get: "hm_get (pi_upstreams_by_app (w_inner w1)) ''app'' = Some (hs_insert sample_port hm_empty)"
    unfolding updated_upstreams(2) [OF up] by (simp add: eq hm.get_insert)
  then show "registered_upstreams (w_inner w1) ''app'' Http1 = {sample_port}"
    by (simp add: registered_upstreams_def sample_set)
  from get show "transport_for (w_inner w1) ''app'' (req_is_upgrade sample_home) = Http1"
    by (simp add: transport_for_def registered_upstreams_def sample_set sample_home_def sample_request_def)
  have wf: "wf_inner (w_inner w1)"
    using add_upstream_wf [OF sample_env_ok proxy_new_Inr(1) [OF sample_new], of "''app''" sample_upstream] assms by simp
  note opts = sample_updated [OF assms]
  have valid: "valid_applications (po_applications (pi_options (w_inner w1)))"
    using wf by (simp add: wf_inner_def wf_options_def)
  note r = router_config_routes(1) [OF valid, of "pi_pools (w_inner w1)", folded wf_inner_pools(2) [OF wf]]
  have "to_ascii_lowercase ''Api.example.com'' = ''api.example.com''" by code_simp
  then have "subdomain_routes (ro_config (pi_router (w_inner w1))) ''api.example.com'' = Some ''app''"
    unfolding r opts(1) by (simp add: sample_parsed_def)
  moreover have "extract_host sample_lib sample_home = Ret (Some (Owned ''api.example.com''))" by code_simp
  ultimately show "routed sample_lib (pi_router (w_inner w1)) sample_home (Some sample_home_route)"
    by (simp add: routed_def opts(2) resolve_route_def sample_home_route_def)
  have "ro_sticky (pi_router (w_inner w1)) = ro_sticky (pi_router (w_inner sample_world))"
    using up by (auto simp: updated_def commit_upstreams_def router_update_def Let_def split: if_splits prod.splits)
  then show "ro_sticky (pi_router (w_inner w1)) = None"
    by (simp add: sample_world_def router_update_def router_new_def sticky_config_of_def sample_parsed_def)
qed

section \<open>Requests while upstreams come and go\<close>

text \<open>C5. At every moment, whatever updates, starts and stops are under way and whatever requests were
  served before, a request that is routed to an application is let through exactly when upstreams of
  the transport it needs are registered for this application at this moment, and then goes to the
  pool of these; otherwise it gets 503.\<close>

theorem request_follows_upstreams:
  assumes "system envs sit h it (w, ts)" and "envs_ok envs" and "iteration it"
    and "routed L (pi_router (w_inner w)) s (Some route)"
    and "app = rr_app_name route" and "t = transport_for (w_inner w) app (req_is_upgrade s)"
  shows "if registered_upstreams (w_inner w) app t = {}
    then \<exists>msg ds' ctx. request_filter L respond clock (pi_router (w_inner w)) s ds new_ctx
        = Ret (Inl (explain (HTTPStatus SERVICE_UNAVAILABLE) msg), pi_router (w_inner w), ds', ctx)
    else \<exists>R' ds' ctx p. request_filter L respond clock (pi_router (w_inner w)) s ds new_ctx
        = Ret (Inr False, R', ds', ctx)
      \<and> cx_app_name ctx = Some app \<and> cx_resolved_pool ctx = Some p \<and> rp_transport p = t
      \<and> (\<exists>(S, E)\<in>envs. rp_backends p = nl_addr_text (ue_net E) ` resolved_addrs (ue_net E) (registered_upstreams (w_inner w) app t))"
proof -
  let ?R = "pi_router (w_inner w)"
  note rp = routed_pool [OF system_invariant [OF assms(1-3)] assms(4), folded assms(5), folded assms(6)]
  show ?thesis
  proof (cases "pool_of_route (ro_config ?R) (req_is_upgrade s) route")
    case None
    with request_filter_no_pool [OF assms(4) None, of respond clock ds] rp(1) show ?thesis by auto
  next
    case (Some p)
    then have "registered_upstreams (w_inner w) app t \<noteq> {}" using rp(1) by simp
    moreover have "\<exists>(S, E)\<in>envs. rp_backends p = nl_addr_text (ue_net E) ` resolved_addrs (ue_net E) (registered_upstreams (w_inner w) app t)"
      using rp(2) [OF Some] by (auto simp: made_of_def pool_spec_def)
    ultimately show ?thesis
      using request_filter_pool [OF assms(4) Some, of respond clock ds] rp(2) [OF Some] assms(5) by auto
  qed
qed

theorem request_follows_upstreams_witness:
  "\<exists>w1 R' ds' ctx p. add_upstream sample_env ''app'' sample_upstream sample_world = (Inr (), w1)
     \<and> request_filter sample_lib (\<lambda>_. None) None (pi_router (w_inner w1)) sample_home sample_downstream new_ctx
       = Ret (Inr False, R', ds', ctx)
     \<and> cx_resolved_pool ctx = Some p \<and> rp_transport p = Http1 \<and> rp_backends p = {''10.0.0.1''}"
proof -
  obtain w1 where w1: "add_upstream sample_env ''app'' sample_upstream sample_world = (Inr (), w1)"
    using sample_added by blast
  note up = sample_update [OF w1]
  have resolved: "resolved_addrs (ue_net sample_env) {sample_port} = {''10.0.0.1''}"
    by (auto simp: resolved_addrs_def sample_env_def sample_port_def)
  have shown: "nl_addr_text (ue_net sample_env) = id" by (simp add: sample_env_def)
  from request_follows_upstreams [OF sample_system [OF w1] sample_envs_ok(1) iteration_id up(3) refl refl,
      of "\<lambda>_. None" None sample_downstream]
  show ?thesis
    using w1 by (auto simp: up(1,2) sample_home_route_def sample_envs_def resolved shown)
qed

section \<open>Where a request is sent\<close>

text \<open>C1. A request is only ever sent to an upstream of its own application. Let the request filter
  accept it at some moment, and let \<open>upstream_peer\<close> choose a peer at any moment, whatever updates came
  in between, with a load balancer that selects among the addresses it was built from. Then the
  peer is an address that an upstream resolved to which was registered, for the application the
  request was routed to and for the transport the request needs, when the request was accepted; it
  is reached over TLS exactly when that upstream is secure.\<close>

theorem request_sent_to_registered_upstream:
  assumes "system envs sit h it (w, ts)" and "system envs sit h it (w2, ts2)"
    and "envs_ok envs" and "iteration it"
    and "request_filter L respond clock (pi_router (w_inner w)) s ds new_ctx = Ret (Inr False, R1, ds', ctx)"
    and "upstream_peer h it now now' select new_peer (pi_router (w_inner w2)) ctx = (Inr peer, R2, ctx2)"
    and "\<And>S E addrs lb key b. (S, E) \<in> envs \<Longrightarrow> nl_try_from_iter (ue_net E) addrs = Inr (lb_inner lb)
      \<Longrightarrow> select lb key = Some b \<Longrightarrow> b \<in> nl_addr_text (ue_net E) ` set addrs"
    and "\<And>a t n. hp_address (new_peer a t n) = a \<and> hp_tls (new_peer a t n) = t \<and> hp_sni (new_peer a t n) = n"
  shows "\<exists>app S E u found addr.
    cx_app_name ctx = Some app \<and> (S, E) \<in> envs
    \<and> u \<in> registered_upstreams (w_inner w) app (transport_for (w_inner w) app (req_is_upgrade s))
    \<and> nl_resolve (ue_net E) (pu_hostname u) (pu_port u) = Inr found \<and> addr \<in> set found
    \<and> hp_address peer = nl_addr_text (ue_net E) addr \<and> hp_tls peer = pu_secure u"
proof -
  let ?R = "pi_router (w_inner w)"
  have ok: "system_ok envs h (w, ts)" "system_ok envs h (w2, ts2)"
    using system_invariant assms(1-4) by blast+
  obtain route p where rp: "routed L ?R s (Some route)"
    "pool_of_route (ro_config ?R) (req_is_upgrade s) route = Some p"
    using assms(5)
  proof (cases rule: request_filter_outcomes)
    case (limit status)
    with assms(5) show thesis by (auto simp: request_filter_limit reject_request_def Let_def split: option.splits)
  next
    case unrouted
    with assms(5) show thesis by (simp add: request_filter_unrouted)
  next
    case (no_pool route)
    with assms(5) request_filter_no_pool [OF no_pool, of respond clock ds] show thesis by auto
  qed (rule that)
  have ctx: "cx_app_name ctx = Some (rr_app_name route)" "cx_resolved_pool ctx = Some p"
    using request_filter_pool [OF rp, of respond clock ds] assms(5) by auto
  let ?U = "registered_upstreams (w_inner w) (rr_app_name route)
      (transport_for (w_inner w) (rr_app_name route) (req_is_upgrade s))"
  obtain q S E a where q: "rp_lb p = pc_lb q" "rp_secure p = pc_secure q" "rp_backends p = pc_backends q"
    "(S, E) \<in> envs" "pool_spec (ue_net E) a (po_health_check_interval_ms (pi_options (w_inner w))) ?U q"
    using routed_pool(2) [OF ok(1) rp] by (auto simp: made_of_def)
  obtain b where b: "select_address h it now now' select (pi_router (w_inner w2)) ctx p = (Some b, R2)"
    and peer: "peer = (apply_upstream_timeouts (ro_timeouts (pi_router (w_inner w2))) (new_peer b (rp_secure p) (rp_verify_hostname p)))
      \<lparr>hp_http_version := (if rp_is_http2 p then (2, 2) else (1, 1))\<rparr>"
    by (rule upstream_peer_Inr [OF assms(6)]) (use ctx(2) in simp)
  have "wf_sticky_state h st" if "ro_sticky (pi_router (w_inner w2)) = Some st" for st
    using ok(2) that by (simp add: system_ok_def router_ok_def sticky_inv_def)
  with select_address_source [OF b assms(4)] have "b \<in> rp_backends p \<or> (\<exists>key. select (rp_lb p) key = Some b)" .
  moreover obtain addrs where "set addrs = resolved_addrs (ue_net E) ?U"
    "nl_try_from_iter (ue_net E) addrs = Inr (lb_inner (pc_lb q))"
    using q(5) by (auto simp: pool_spec_def)
  ultimately have "b \<in> nl_addr_text (ue_net E) ` resolved_addrs (ue_net E) ?U"
    using assms(7) [OF q(4), of addrs "pc_lb q"] q(1,3,5) by (auto simp: pool_spec_def)
  then obtain u found addr where u: "u \<in> ?U" "nl_resolve (ue_net E) (pu_hostname u) (pu_port u) = Inr found"
    "addr \<in> set found" "b = nl_addr_text (ue_net E) addr"
    by (auto simp: resolved_addrs_def)
  have "hp_address peer = b" "hp_tls peer = pu_secure u"
    using q(2,5) u(1) assms(8) by (simp_all add: peer apply_upstream_timeouts_def Let_def pool_spec_def)
  with ctx(1) q(4) u show ?thesis by blast
qed

theorem request_sent_to_registered_upstream_witness:
  "\<exists>w1 ctx peer R2 ctx2. add_upstream sample_env ''app'' sample_upstream sample_world = (Inr (), w1)
     \<and> upstream_peer sample_hash (\<lambda>m. m) 0 0 sample_select sample_peer (pi_router (w_inner w1)) ctx = (Inr peer, R2, ctx2)
     \<and> hp_address peer = ''10.0.0.1'' \<and> \<not> hp_tls peer"
proof -
  obtain w1 where w1: "add_upstream sample_env ''app'' sample_upstream sample_world = (Inr (), w1)"
    using sample_added by blast
  note up = sample_update [OF w1] and sys = sample_system [OF w1]
  let ?R = "pi_router (w_inner w1)"
  have ok: "system_ok sample_envs sample_hash (w1, [Done (Inr ())])"
    by (rule system_invariant [OF sys sample_envs_ok(1) iteration_id])
  note rp = routed_pool [OF ok up(3)]
  have name: "rr_app_name sample_home_route = ''app''" by (simp add: sample_home_route_def)
  obtain p where p: "pool_of_route (ro_config ?R) (req_is_upgrade sample_home) sample_home_route = Some p"
    using rp(1) by (auto simp: name up(1,2))
  obtain R1 ds1 ctx where f: "request_filter sample_lib (\<lambda>_. None) None ?R sample_home sample_downstream new_ctx
      = Ret (Inr False, R1, ds1, ctx)"
    and ctx: "cx_resolved_pool ctx = Some p" "cx_app_name ctx = Some ''app''"
    using request_filter_pool [OF up(3) p, of "\<lambda>_. None" None sample_downstream] by (auto simp: name)
  have "\<exists>a. sample_select (rp_lb p) [] = Some a"
    using rp(2) [OF p] by (auto simp: made_of_def pool_spec_def sample_envs_def sample_env_def sample_select_def
        split: list.split)
  then obtain peer where peer: "upstream_peer sample_hash (\<lambda>m. m) 0 0 sample_select sample_peer ?R ctx = (Inr peer, ?R, ctx)"
    by (auto simp: upstream_peer_def ctx(1) select_address_plain [OF disjI1 [OF up(4)]] Let_def)
  have select: "b \<in> nl_addr_text (ue_net E) ` set addrs"
    if "(S, E) \<in> sample_envs" "nl_try_from_iter (ue_net E) addrs = Inr (lb_inner lb)" "sample_select lb key = Some b"
    for S E addrs lb key b
    using that by (auto simp: sample_envs_def sample_env_def sample_select_def split: list.splits)
  have new: "hp_address (sample_peer a t n) = a \<and> hp_tls (sample_peer a t n) = t \<and> hp_sni (sample_peer a t n) = n" for a t n
    by (simp add: sample_peer_def)
  from request_sent_to_registered_upstream [OF sys sys sample_envs_ok(1) iteration_id f peer select new]
  have "hp_address peer = ''10.0.0.1'' \<and> \<not> hp_tls peer"
    by (auto simp: ctx(2) up(1,2) sample_envs_def sample_env_def sample_port_def)
  with w1 peer show ?thesis by blast
qed

section \<open>What stays as it was configured\<close>

lemma moves_router:
  assumes "moves envs sit (w, ts) cfg" "world_ok w"
  shows "same_router (w_inner w) (w_inner (fst cfg))"
  using assms(1)
proof (cases rule: moves.cases)
  case (call c t w')
  with enter_keeps [OF assms(2)] have "same_data w w'" by (auto simp: enter_keeps_def)
  then show ?thesis by (simp add: call(1) same_data_router)
next
  case step
  then show ?thesis by (cases rule: runs.cases) (auto dest: task_step_router)
qed

text \<open>C19. At every moment the router applies the limits and timeouts of the options, and it has a sticky
  store exactly when the options enable sticky sessions, with their configuration and of bounded size.
  No step of a start, a stop or an update touches that store: the bindings of the clients survive every
  change of the upstreams. A callback changes nothing of the router but the contents of the store, and
  these only by calls on it.\<close>

theorem settings_and_store_kept:
  assumes "system envs sit h it (w, ts)" and "envs_ok envs" and "iteration it"
  shows "ro_limits (pi_router (w_inner w)) = po_limits (pi_options (w_inner w))
    \<and> ro_timeouts (pi_router (w_inner w)) = po_timeouts (pi_options (w_inner w))
    \<and> (ro_sticky (pi_router (w_inner w)) \<noteq> None \<longleftrightarrow> ss_enabled (po_sticky_sessions (pi_options (w_inner w))))
    \<and> (\<forall>st. ro_sticky (pi_router (w_inner w)) = Some st \<longrightarrow>
          wf_sticky_state h st \<and> st_config st = sticky_config_of (pi_options (w_inner w))
          \<and> entry_count st \<le> sc_max_entries (st_config st) + 8128)
    \<and> (\<forall>w' ts'. moves envs sit (w, ts) (w', ts') \<longrightarrow>
          ro_sticky (pi_router (w_inner w')) = ro_sticky (pi_router (w_inner w))
          \<and> pi_options (w_inner w') = pi_options (w_inner w))
    \<and> (\<forall>R. serves h it (pi_router (w_inner w)) R \<longrightarrow>
          (\<exists>ops. R = (pi_router (w_inner w))
             \<lparr>ro_sticky := map_option (sticky_run h it ops) (ro_sticky (pi_router (w_inner w)))\<rparr>))"
proof -
  have ok: "router_ok h (w_inner w)" "world_ok w"
    using system_invariant [OF assms] by (simp_all add: system_ok_def sane_def)
  have "entry_count st \<le> sc_max_entries cfg + 8128" if "sticky_inv h cfg st" for st cfg
    using that slack_le [of st]
    by (auto simp: sticky_inv_def within_bound_def wf_sticky_state_def STICKY_SHARD_COUNT_def)
  note this [unfolded sticky_inv_def, OF conjI [OF _ conjI]]
  with ok(1) have "ro_limits (pi_router (w_inner w)) = po_limits (pi_options (w_inner w))
    \<and> ro_timeouts (pi_router (w_inner w)) = po_timeouts (pi_options (w_inner w))
    \<and> (ro_sticky (pi_router (w_inner w)) \<noteq> None \<longleftrightarrow> ss_enabled (po_sticky_sessions (pi_options (w_inner w))))
    \<and> (\<forall>st. ro_sticky (pi_router (w_inner w)) = Some st \<longrightarrow>
          wf_sticky_state h st \<and> st_config st = sticky_config_of (pi_options (w_inner w))
          \<and> entry_count st \<le> sc_max_entries (st_config st) + 8128)"
    by (auto simp: router_ok_def sticky_inv_def split: option.splits)
  moreover have "same_router (w_inner w) (w_inner w')" if "moves envs sit (w, ts) (w', ts')" for w' ts'
    using moves_router [OF that ok(2)] by simp
  moreover note serves_store [of h it "pi_router (w_inner w)", unfolded same_store_def]
  ultimately show ?thesis unfolding same_router_def by blast
qed

definition sticky_options :: proxy_options where
  "sticky_options = demo_options\<lparr>o_sticky_sessions := Some
     \<lparr>o_enabled = None, o_cookie_name = None, o_header_name = None, o_ttl_ms = None, o_max_entries = None\<rparr>\<rparr>"

lemma sticky_options_parse:
  "parse_proxy_options sticky_options
     = Inr (sample_parsed\<lparr>po_sticky_sessions := (po_sticky_sessions sample_parsed)\<lparr>ss_enabled := True\<rparr>\<rparr>)"
  by (simp add: parse_proxy_options_def demo_options_def sticky_options_def sample_parsed_def
      parse_application_options_def parse_application_sni_def parse_sticky_session_options_def parse_limits_options_def
      parse_timeout_options_def timeout_default_defs validate_applications_def require_routing_name_def Let_def)
     code_simp

theorem settings_and_store_kept_witness:
  "\<exists>w st. proxy_new sticky_options = Inr (w :: string list world) \<and> ro_limits (pi_router (w_inner w)) = Disabled
     \<and> ro_sticky (pi_router (w_inner w)) = Some st \<and> entry_count st \<le> 28128"
proof -
  obtain w :: "string list world" where w: "proxy_new sticky_options = Inr w"
    by (simp add: proxy_new_def sticky_options_parse Let_def)
  then have opts: "pi_options (w_inner w) = sample_parsed\<lparr>po_sticky_sessions := (po_sticky_sessions sample_parsed)\<lparr>ss_enabled := True\<rparr>\<rparr>"
    by (auto simp: proxy_new_def sticky_options_parse Let_def)
  have "system sample_envs (\<lambda>m. m) sample_hash (\<lambda>m. m) (w, [])" by (rule system.init [OF w])
  from settings_and_store_kept [OF this sample_envs_ok(1) iteration_id] w show ?thesis
    by (auto simp: opts sample_parsed_def sticky_config_of_def)
qed

end
