(* ===== verification/Sticky_Threads.thy ===== *)
theory Sticky_Threads
  imports Sticky_Retention
begin

text \<open>
  The calls on \<open>StickySessionState\<close> (\<open>src/router.rs\<close>) as the threads that serve requests run them.
  A thread is cut where it takes or releases the lock of a shard: \<open>lookup\<close> counts itself, cleans up
  when its count asks for it, then reads its shard under the lock; \<open>bind\<close> inserts and counts under
  the lock, releases it, then cleans up; \<open>remove\<close> is one locked section. A cleanup takes the locks of
  all shards one after the other, keeps them, does its work, and releases them together. The lock
  of a poisoned shard is given back at once.
\<close>

section \<open>Locked sections\<close>

definition read_section ::
    "key_hash \<Rightarrow> instant \<Rightarrow> affinity_map_key \<Rightarrow> string set \<Rightarrow> sticky_session_state
       \<Rightarrow> string option \<times> sticky_session_state" where
  "read_section h now key allowed_backends st =
     (let i = shard_index_for_key h st key; shard = shards st ! i
      in if poisoned shard then (None, st)
         else case hm_get (entries shard) key of
                Some entry \<Rightarrow>
                  if now < ae_expires_at entry \<and> ae_backend entry \<in> allowed_backends
                  then (Some (ae_backend entry),
                        set_shard i
                          (shard\<lparr>entries := hm_insert key
                                   (entry\<lparr>ae_expires_at := now + sc_ttl (st_config st)\<rparr>)
                                   (entries shard)\<rparr>) st)
                  else (None, set_shard i (shard\<lparr>entries := hm_remove key (entries shard)\<rparr>) st)
              | None \<Rightarrow> (None, st))"

definition insert_section ::
    "key_hash \<Rightarrow> instant \<Rightarrow> affinity_map_key \<Rightarrow> string \<Rightarrow> sticky_session_state
       \<Rightarrow> bool \<times> sticky_session_state" where
  "insert_section h now key backend st =
     (let i = shard_index_for_key h st key; shard = shards st ! i
      in if poisoned shard then (False, st)
         else let shard = shard\<lparr>entries := hm_insert key
                    \<lparr>ae_backend = backend, ae_expires_at = now + sc_ttl (st_config st)\<rparr> (entries shard)\<rparr>;
                  (cleanup, shard) = should_cleanup shard
              in (cleanup, set_shard i shard st))"

section \<open>Threads\<close>

datatype thread =
  Looking instant string transport_kind string "string set"
| Reading instant string transport_kind string "string set"
| Binding instant string transport_kind string string
| Removing string transport_kind string
| Cleaning instant nat thread
| Finished "string option"

fun thread_step ::
    "key_hash \<Rightarrow> iter_order \<Rightarrow> thread \<Rightarrow> sticky_session_state \<Rightarrow> (thread \<times> sticky_session_state) option" where
  "thread_step h it (Looking now app transport key B) st = Some
     (let i = shard_index_for_key h st (affinity_map_key_of app transport key);
          (cleanup, shard) = should_cleanup (shards st ! i);
          reading = Reading now app transport key B
      in (if cleanup then Cleaning now 0 reading else reading, set_shard i shard st))"
| "thread_step h it (Reading now app transport key B) st = Some
     (case read_section h now (affinity_map_key_of app transport key) B st of
        (answer, st) \<Rightarrow> (Finished answer, st))"
| "thread_step h it (Binding now app transport key b) st = Some
     (case insert_section h now (affinity_map_key_of app transport key) b st of
        (cleanup, st) \<Rightarrow> (if cleanup then Cleaning now 0 (Finished None) else Finished None, st))"
| "thread_step h it (Removing app transport key) st = Some
     (Finished None, sticky_remove h app transport key st)"
| "thread_step h it (Cleaning now n next_thread) st = Some
     (if n < length (shards st) then (Cleaning now (Suc n) next_thread, st)
      else (next_thread, cleanup_global it now st))"
| "thread_step h it (Finished answer) st = None"

text \<open>The locks a thread holds between its steps, and the lock its next step has to take.\<close>

fun holds :: "sticky_session_state \<Rightarrow> thread \<Rightarrow> nat \<Rightarrow> bool" where
  "holds st (Cleaning now n t) i \<longleftrightarrow> i < n \<and> \<not> poisoned (shards st ! i)"
| "holds st _ i \<longleftrightarrow> False"

fun wants :: "key_hash \<Rightarrow> sticky_session_state \<Rightarrow> thread \<Rightarrow> nat option" where
  "wants h st (Reading now app transport key B) = Some (shard_index_for_key h st (affinity_map_key_of app transport key))"
| "wants h st (Binding now app transport key b) = Some (shard_index_for_key h st (affinity_map_key_of app transport key))"
| "wants h st (Removing app transport key) = Some (shard_index_for_key h st (affinity_map_key_of app transport key))"
| "wants h st (Cleaning now n t) = (if n < length (shards st) then Some n else None)"
| "wants h st _ = None"

definition may_step :: "key_hash \<Rightarrow> sticky_session_state \<Rightarrow> thread list \<Rightarrow> thread \<Rightarrow> bool" where
  "may_step h st ts t = (case wants h st t of None \<Rightarrow> True | Some i \<Rightarrow> \<not> list_ex (\<lambda>t'. holds st t' i) ts)"

section \<open>Interleaved calls\<close>

text \<open>What a step does to the bindings, as a call on the map the store stands for, with its answer.\<close>

fun effect :: "thread \<Rightarrow> thread \<Rightarrow> (sticky_op \<times> string option) list" where
  "effect (Reading now app transport key B) (Finished answer) = [(OpLookup now app transport key B, answer)]"
| "effect (Binding now app transport key b) t' = [(OpBind now app transport key b, None)]"
| "effect (Removing app transport key) t' = [(OpRemove app transport key, None)]"
| "effect t t' = []"

fun thread_of :: "sticky_op \<Rightarrow> thread" where
  "thread_of (OpLookup now app transport key B) = Looking now app transport key B"
| "thread_of (OpBind now app transport key b) = Binding now app transport key b"
| "thread_of (OpRemove app transport key) = Removing app transport key"
| "thread_of _ = Finished None"

type_synonym thread_config = "sticky_session_state \<times> thread list"

inductive turn :: "key_hash \<Rightarrow> iter_order \<Rightarrow> thread_config \<Rightarrow> (sticky_op \<times> string option) list \<Rightarrow> thread_config \<Rightarrow> bool"
  for h it where
  turn: "i < length ts \<Longrightarrow> may_step h st ts (ts ! i) \<Longrightarrow> thread_step h it (ts ! i) st = Some (t', st')
    \<Longrightarrow> turn h it (st, ts) (effect (ts ! i) t') (st', ts[i := t'])"

inductive calls :: "key_hash \<Rightarrow> iter_order \<Rightarrow> thread_config \<Rightarrow> (sticky_op \<times> string option) list \<Rightarrow> thread_config \<Rightarrow> bool"
  for h it where
  start: "calls h it cfg [] cfg"
| call: "calls h it cfg es (st, ts) \<Longrightarrow> calls h it cfg es (st, ts @ [thread_of op])"
| step: "calls h it cfg es cfg' \<Longrightarrow> turn h it cfg' e cfg'' \<Longrightarrow> calls h it cfg (es @ e) cfg''"

inductive_cases turnE: "turn h it (st, ts) e cfg'"

end
