(* ===== verification/Concurrent_Sticky.thy ===== *)
theory Concurrent_Sticky
  imports Thread_Props
begin

text \<open>
  The sticky store under concurrent requests: reachable configurations, and what holds of the
  answers, the locks, the memory and the progress of all calls.
\<close>

section \<open>Reachable configurations\<close>

definition threads_ok :: "key_hash \<Rightarrow> sticky_session_config \<Rightarrow> thread_config \<Rightarrow> bool" where
  "threads_ok h cfg c \<longleftrightarrow>
     wf_sticky_state h (fst c) \<and> st_config (fst c) = cfg \<and> (\<forall>t\<in>set (snd c). thread_ok t)
     \<and> exclusive (fst c) (snd c)"

lemma thread_of_ok: "thread_ok (thread_of op)" "\<not> cleaning (thread_of op)"
  by (cases op; simp)+

lemma not_cleaning_holds: "\<not> cleaning t \<Longrightarrow> \<not> holds st t l"
  by (cases t) auto

lemma turn_cases:
  assumes "turn h it (st, ts) e c'"
  obtains i t' st' where "e = effect (ts ! i) t'" "c' = (st', ts[i := t'])" "i < length ts"
    "may_step h st ts (ts ! i)" "thread_step h it (ts ! i) st = Some (t', st')"
  using assms by (auto elim!: turnE)

lemma turn_ok:
  assumes "iteration it" "threads_ok h cfg c" "turn h it c e c'"
  shows "threads_ok h cfg c'"
proof -
  obtain st ts where c: "c = (st, ts)" by fastforce
  from assms(3) [unfolded c] show ?thesis
  proof (cases rule: turn_cases)
    case (1 i t' st')
    note inv = assms(2) [unfolded threads_ok_def c fst_conv snd_conv]
    have "\<forall>t\<in>set (ts[i := t']). thread_ok t"
      using inv thread_step_ok [OF _ _ 1(5)] 1(3) by (auto dest!: set_update_subset_insert [THEN subsetD])
    moreover have "exclusive st' (ts[i := t'])"
      using exclusive_step [OF assms(1) _ _ _ 1(3,4,5)] inv by blast
    ultimately show ?thesis
      using thread_step_keeps [OF assms(1) _ 1(5)] inv by (simp add: threads_ok_def 1(2))
  qed
qed

lemma call_ok:
  assumes "threads_ok h cfg (st, ts)"
  shows "threads_ok h cfg (st, ts @ [thread_of op])"
  using assms not_cleaning_holds [OF thread_of_ok(2)]
  by (auto simp: threads_ok_def thread_of_ok exclusive_def nth_append less_Suc_eq)

lemma calls_ok: "calls h it c es c' \<Longrightarrow> iteration it \<Longrightarrow> threads_ok h cfg c \<Longrightarrow> threads_ok h cfg c'"
  by (induction rule: calls.induct) (auto intro: turn_ok call_ok)

lemma threads_ok_new: "threads_ok h cfg (sticky_state_new cfg, [])"
  by (simp add: threads_ok_def wf_sticky_state_new exclusive_def) (simp add: sticky_state_new_def)

lemma turn_poison:
  "iteration it \<Longrightarrow> threads_ok h cfg c \<Longrightarrow> turn h it c e c' \<Longrightarrow> poison_map (fst c') = poison_map (fst c)"
  by (cases c) (auto elim!: turn_cases dest: thread_step_keeps simp: threads_ok_def)

lemma calls_poison:
  "calls h it c es c' \<Longrightarrow> iteration it \<Longrightarrow> threads_ok h cfg c \<Longrightarrow> poison_map (fst c') = poison_map (fst c)"
proof (induction rule: calls.induct)
  case (step c es c' e c'')
  from turn_poison [OF step.prems(1) calls_ok [OF step.hyps(1) step.prems] step.hyps(2)] step.IH [OF step.prems]
  show ?case by simp
qed simp_all

section \<open>An interleaving for the witnesses\<close>

text \<open>A bind has inserted its key and is due to clean up; it has locked the first shard when a lookup of
  another thread finds the key. A third thread is about to remove another key.\<close>

lemma due_once: "i < length (shards st) \<Longrightarrow> cleanup_due i st \<Longrightarrow> \<not> cleanup_due i (count_op i st)"
proof -
  assume i: "i < length (shards st)" and "cleanup_due i st"
  then have "unat (op_counter (shards st ! i)) mod 128 = 0" by (simp add: cleanup_due_def should_cleanup_def)
  then have "(unat (op_counter (shards st ! i)) + 1) mod 128 \<noteq> 0" by (simp add: mod_Suc)
  then have "unat (op_counter (shards st ! i) + 1) mod 128 \<noteq> 0"
    using unat_plus_mod_128 [of "op_counter (shards st ! i)" 1] by simp
  with i show "\<not> cleanup_due i (count_op i st)" by (simp add: cleanup_due_def should_cleanup_def count_op_shard)
qed

definition demo_threads :: "thread list" where
  "demo_threads = [Cleaning 0 1 (Finished None), Finished (Some ''b''), Removing ''app'' Ws ''k2'']"

definition demo_history :: "(sticky_op \<times> string option) list" where
  "demo_history = [(OpBind 0 ''app'' Ws ''k'' ''b'', None), (OpLookup 10 ''app'' Ws ''k'' {''b''}, Some ''b'')]"

lemma demo_calls:
  "\<exists>st. calls demo_hash (\<lambda>m. m) (sticky_state_new (demo_config 2), []) demo_history (st, demo_threads)"
proof -
  let ?h = demo_hash and ?it = "\<lambda>m :: shard_map. m" and ?c0 = "(sticky_state_new (demo_config 2), []) :: thread_config"
  let ?k = "affinity_map_key_of ''app'' Ws ''k''"
  define st0 where "st0 = demo_store 2"
  have wf: "wf_sticky_state ?h st0" and ttl: "sc_ttl (st_config st0) = 600"
    and np: "\<not> poisoned (shards st0 ! shard_index_for_key ?h st0 ?k)"
    by (simp_all add: st0_def)
  define i where "i = shard_index_for_key ?h st0 ?k"
  have i: "i = 1" "i < length (shards st0)"
    using shard_index_less [OF wf, of ?k] wf_length [OF wf]
    by (simp_all add: i_def shard_index_for_key_def demo_hash_def affinity_map_key_of_def STICKY_SHARD_COUNT_def)
  define e where "e = \<lparr>ae_backend = ''b'', ae_expires_at = 600\<rparr>"
  define st1 where "st1 = count_op i (put_entry ?h ?k e st0)"
  define st2 where "st2 = count_op i st1"
  have wf1: "wf_sticky_state ?h (put_entry ?h ?k e st0)" "wf_sticky_state ?h st1"
    by (simp_all add: st1_def count_op_wf put_entry_wf wf)
  have idx: "shard_index_for_key ?h st1 ?k = i" "shard_index_for_key ?h st2 ?k = i"
    by (simp_all add: st1_def st2_def i_def put_entry_def Let_def)
  have due: "cleanup_due i st0" "cleanup_due i (put_entry ?h ?k e st0)"
    using i wf_length [OF wf]
    by (simp_all add: cleanup_due_def should_cleanup_def put_entry_def Let_def nth_set_shard flip: i_def)
       (simp_all add: st0_def demo_store_def sticky_state_new_def sticky_shard_new_def STICKY_SHARD_COUNT_def)
  have "\<not> cleanup_due i st1"
    unfolding st1_def using i(2) due(2) by (intro due_once) (simp_all add: put_entry_def Let_def)
  then have look: "thread_step ?h ?it (Looking 10 ''app'' Ws ''k'' {''b''}) st1 = Some (Reading 10 ''app'' Ws ''k'' {''b''}, st2)"
    by (simp add: looking_eq idx st2_def Let_def del: thread_step.simps)
  have "insert_section ?h 0 ?k ''b'' st0 = (True, st1)"
    using due(1) np by (simp add: insert_section_eq [OF wf] ttl Let_def st1_def e_def flip: i_def)
  then have ins: "thread_step ?h ?it (Binding 0 ''app'' Ws ''k'' ''b'') st0 = Some (Cleaning 0 0 (Finished None), st1)"
    by simp
  have "binding ?h st2 ?k = Some e"
    using np by (simp add: st2_def st1_def binding_count_op count_op_wf wf1(1) [unfolded st1_def] binding_put_entry [OF wf])
  then obtain st3 where read: "thread_step ?h ?it (Reading 10 ''app'' Ws ''k'' {''b''}) st2 = Some (Finished (Some ''b''), st3)"
    by (simp add: read_section_eq e_def)
  have clean: "thread_step ?h ?it (Cleaning 0 0 (Finished None)) st2 = Some (Cleaning 0 (Suc 0) (Finished None), st2)"
    using i by (cases "shards st0") (simp_all add: st2_def st1_def put_entry_def Let_def count_op_def)
  have take: "turn ?h ?it (st, ts) (effect (ts ! j) t') (st', ts[j := t'])"
    if "j < length ts" "may_step ?h st ts (ts ! j)" "thread_step ?h ?it (ts ! j) st = Some (t', st')" for st ts j t' st'
    using that by (rule turn.intros)
  have "calls ?h ?it ?c0 [] (st0, [] @ [thread_of (OpBind 0 ''app'' Ws ''k'' ''b'')])"
    using calls.call [OF calls.start, of ?h ?it st0 "[]" "OpBind 0 ''app'' Ws ''k'' ''b''"]
    by (simp add: st0_def demo_store_def)
  from calls.step [OF this take [of 0]] ins
  have "calls ?h ?it ?c0 [(OpBind 0 ''app'' Ws ''k'' ''b'', None)] (st1, [Cleaning 0 0 (Finished None)])"
    by (simp add: may_step_def)
  from calls.call [OF this, of "OpLookup 10 ''app'' Ws ''k'' {''b''}"]
  have c1: "calls ?h ?it ?c0 [(OpBind 0 ''app'' Ws ''k'' ''b'', None)]
      (st1, [Cleaning 0 0 (Finished None), Looking 10 ''app'' Ws ''k'' {''b''}])" by simp
  from calls.step [OF this take [of 1]] look
  have "calls ?h ?it ?c0 [(OpBind 0 ''app'' Ws ''k'' ''b'', None)]
      (st2, [Cleaning 0 0 (Finished None), Reading 10 ''app'' Ws ''k'' {''b''}])"
    by (simp add: may_step_def del: thread_step.simps)
  from calls.step [OF this take [of 0]] clean
  have "calls ?h ?it ?c0 [(OpBind 0 ''app'' Ws ''k'' ''b'', None)]
      (st2, [Cleaning 0 1 (Finished None), Reading 10 ''app'' Ws ''k'' {''b''}])"
    by (simp add: may_step_def del: thread_step.simps)
  from calls.step [OF this take [of 1]] read
  have "calls ?h ?it ?c0 demo_history (st3, [Cleaning 0 1 (Finished None), Finished (Some ''b'')])"
    by (simp add: may_step_def idx i(1) demo_history_def del: thread_step.simps)
  from calls.call [OF this, of "OpRemove ''app'' Ws ''k2''"] show ?thesis
    by (intro exI [of _ st3]) (simp add: demo_threads_def)
qed

lemma demo_healthy:
  assumes "calls demo_hash (\<lambda>m. m) (sticky_state_new (demo_config 2), []) demo_history (st, demo_threads)"
  shows "\<not> poisoned (shards st ! 0)"
proof -
  have "poison_map st = replicate 64 False"
    using calls_poison [OF assms iteration_id threads_ok_new]
    by (simp add: poison_map_def) (simp add: sticky_state_new_def sticky_shard_new_def STICKY_SHARD_COUNT_def)
  then have "poison_map st ! 0 = False" "0 < length (poison_map st)" by simp_all
  then show ?thesis by (simp add: poison_map_def)
qed

section \<open>Answers\<close>

lemma calls_simulate:
  assumes "calls h it c es c'" "iteration it" "threads_ok h cfg c" "forgets h (fst c) m"
  shows "forgets h (fst c') (spec_after (sc_ttl cfg) (map fst es) m)
    \<and> allowed_by es (spec_answers (sc_ttl cfg) (map fst es) m)"
  using assms
proof (induction rule: calls.induct)
  case (start cfg)
  then show ?case by (simp add: spec_after_def allowed_by_def)
next
  case (step c es c' e c'')
  obtain st ts where c': "c' = (st, ts)" by fastforce
  have inv: "threads_ok h cfg (st, ts)" using calls_ok [OF step.hyps(1) step.prems(1,2)] by (simp add: c')
  from step.hyps(2) [unfolded c'] show ?case
  proof (cases rule: turn_cases)
    case (1 i t' st')
    from inv have "wf_sticky_state h st" "sc_ttl (st_config st) = sc_ttl cfg" by (simp_all add: threads_ok_def)
    with effect_simulates [OF step.prems(1) _ _ 1(5), of "spec_after (sc_ttl cfg) (map fst es) m"] step.IH [OF step.prems]
    show ?thesis
      by (simp add: 1(1,2) c' spec_answers_append spec_after_append allowed_by_def list_all2_appendI)
  qed
qed auto

lemma forgets_new: "forgets h (sticky_state_new cfg) Map.empty"
proof -
  have "binding h (sticky_state_new cfg) j = None" for j
    using shard_index_less [OF wf_sticky_state_new, of h cfg j]
    by (simp add: binding_def Let_def sticky_state_new_def) (simp add: sticky_shard_new_def hm_empty_def hm_get_def)
  then show ?thesis by (simp add: forgets_def)
qed

text \<open>Every answer a thread returns is in the history.\<close>

fun result :: "thread \<Rightarrow> string option" where
  "result (Finished answer) = answer"
| "result (Cleaning now n t) = result t"
| "result _ = None"

definition recorded :: "(sticky_op \<times> string option) list \<Rightarrow> thread list \<Rightarrow> bool" where
  "recorded es ts \<longleftrightarrow> (\<forall>t\<in>set ts. \<forall>b. result t = Some b \<longrightarrow> (\<exists>op. (op, Some b) \<in> set es))"

lemma step_result:
  "thread_step h it t st = Some (t', st') \<Longrightarrow> result t' = Some b \<Longrightarrow>
   (\<exists>op. (op, Some b) \<in> set (effect t t')) \<or> result t = Some b"
  by (cases t) (auto simp: Let_def split: prod.splits if_splits)

lemma calls_recorded: "calls h it c es c' \<Longrightarrow> snd c = [] \<Longrightarrow> recorded es (snd c')"
proof (induction rule: calls.induct)
  case (call c es st ts op)
  have "result (thread_of op) = None" by (cases op) simp_all
  with call show ?case by (auto simp: recorded_def)
next
  case (step c es c' e c'')
  obtain st ts where c': "c' = (st, ts)" by fastforce
  from step.hyps(2) [unfolded c'] show ?case
  proof (cases rule: turn_cases)
    case (1 i t' st')
    have old: "recorded es ts" using step.IH [OF step.prems] by (simp add: c')
    have "set (ts[i := t']) \<subseteq> insert t' (set ts)" by (rule set_update_subset_insert)
    moreover have "ts ! i \<in> set ts" using 1(3) by simp
    ultimately show ?thesis
      using old step_result [OF 1(5)] unfolding 1(1,2) recorded_def snd_conv set_append by fast
  qed
qed (simp add: recorded_def)

text \<open>C9. However the threads that serve requests interleave, the store behaves like one map that they
  access one after the other: the calls take effect in one order, each at a step of its own between
  its start and its end, every lookup answers in that order nothing or exactly what an unbounded map
  with expiries answers, and the answer is the one the call returns.\<close>

theorem concurrent_calls_linearize:
  assumes "iteration it" and "calls h it (sticky_state_new cfg, []) history (st, ts)"
  shows "list_all2 (\<lambda>e spec. snd e = None \<or> snd e = spec) history
      (spec_answers (sc_ttl cfg) (map fst history) Map.empty)
    \<and> (\<forall>b. Finished (Some b) \<in> set ts \<longrightarrow> (\<exists>op. (op, Some b) \<in> set history))"
proof -
  have "forgets h (fst (sticky_state_new cfg, [] :: thread list)) Map.empty" by (simp add: forgets_new)
  from calls_simulate [OF assms(2,1) threads_ok_new this] calls_recorded [OF assms(2)] show ?thesis
    by (auto simp: allowed_by_def recorded_def)
qed

theorem concurrent_calls_linearize_witness:
  "\<exists>op. (op, Some ''b'') \<in> set demo_history"
proof -
  obtain st where "calls demo_hash (\<lambda>m. m) (sticky_state_new (demo_config 2), []) demo_history (st, demo_threads)"
    using demo_calls by blast
  from concurrent_calls_linearize [OF iteration_id this] show ?thesis by (auto simp: demo_threads_def)
qed

section \<open>Locks\<close>

lemma entries_set_shard:
  "l \<noteq> i \<Longrightarrow> entries (shards (set_shard i s st) ! l) = entries (shards st ! l)"
  by (simp add: set_shard_def)

lemma entries_count_op: "entries (shards (count_op i st) ! l) = entries (shards st ! l)"
  by (cases "i < length (shards st)"; cases "l = i")
     (simp_all add: count_op_def set_shard_def should_cleanup_def list_update_beyond)

lemma section_entries:
  assumes "wf_sticky_state h st" "l \<noteq> shard_index_for_key h st k"
  shows "entries (shards (put_entry h k e st) ! l) = entries (shards st ! l)"
    and "entries (shards (drop_entry h k st) ! l) = entries (shards st ! l)"
  using assms by (simp_all add: put_entry_def drop_entry_def Let_def entries_set_shard)

text \<open>A step that changes the entries of a shard either took its lock or holds all locks.\<close>

lemma step_changes:
  assumes "wf_sticky_state h st" "thread_step h it t st = Some (t', st')"
    and "wants h st t \<noteq> Some l" "\<not> cleaning t"
  shows "entries (shards st' ! l) = entries (shards st ! l)"
  using assms
  by (cases t) (auto simp: looking_eq read_section_eq insert_section_eq sticky_remove_eq Let_def
      section_entries entries_count_op put_entry_wf simp del: thread_step.simps(1) split: option.splits if_splits)

text \<open>C39. The locks work: while a thread holds the lock of a shard no other thread holds it, and no
  step of another thread changes the entries of that shard. In particular what a cleanup works on
  is what it locked.\<close>

theorem locked_shard_untouched:
  assumes "iteration it" and "calls h it (sticky_state_new cfg, []) history (st, ts)"
    and "i < length ts" and "j < length ts" and "i \<noteq> j" and "holds st (ts ! j) l"
    and "may_step h st ts (ts ! i)" and "thread_step h it (ts ! i) st = Some (t', st')"
  shows "\<not> holds st (ts ! i) l \<and> \<not> holds st' t' l \<and> entries (shards st' ! l) = entries (shards st ! l)"
proof -
  from calls_ok [OF assms(2,1) threads_ok_new] have inv: "wf_sticky_state h st" "exclusive st ts"
    and ok: "\<And>i. i < length ts \<Longrightarrow> thread_ok (ts ! i)" by (simp_all add: threads_ok_def)
  have no: "\<not> holds st (ts ! i) l" using inv(2) assms(3-6) by (auto simp: exclusive_def)
  have free: "wants h st (ts ! i) \<noteq> Some l" using assms(4,6,7) by (auto simp: may_step_def list_ex_iff)
  have "\<not> holds st t' l" using thread_step_holds [OF assms(8) ok [OF assms(3)]] no free by blast
  moreover have "thread_ok t'" using thread_step_ok [OF inv(1) ok [OF assms(3)] assms(8)] .
  ultimately have new: "\<not> holds st' t' l"
    using holds_cong [of st' st t' h l] thread_step_keeps [OF assms(1) inv(1) assms(8)] inv(1) by blast
  have "entries (shards st' ! l) = entries (shards st ! l)"
  proof (cases "cleaning (ts ! i)")
    case True
    then obtain now n t0 where t: "ts ! i = Cleaning now n t0" by (cases "ts ! i") auto
    from assms(6) ok [OF assms(4)] have "l < STICKY_SHARD_COUNT" "\<not> poisoned (shards st ! l)"
      by (auto simp: holds_cleaning)
    then have "n < length (shards st)" using no t wf_length [OF inv(1)] by auto
    with assms(8) t show ?thesis by simp
  qed (use step_changes [OF inv(1) assms(8) free] in simp)
  with no new show ?thesis by blast
qed

theorem locked_shard_untouched_witness:
  "\<exists>st. calls demo_hash (\<lambda>m. m) (sticky_state_new (demo_config 2), []) demo_history (st, demo_threads)
     \<and> entries (shards (sticky_remove demo_hash ''app'' Ws ''k2'' st) ! 0) = entries (shards st ! 0)"
proof -
  obtain st where c: "calls demo_hash (\<lambda>m. m) (sticky_state_new (demo_config 2), []) demo_history (st, demo_threads)"
    using demo_calls by blast
  from calls_ok [OF c iteration_id threads_ok_new] have wf: "wf_sticky_state demo_hash st" by (simp add: threads_ok_def)
  have free: "may_step demo_hash st demo_threads (demo_threads ! 2)"
    using wf_length [OF wf]
    by (simp add: may_step_def demo_threads_def shard_index_for_key_def demo_hash_def affinity_map_key_of_def
        STICKY_SHARD_COUNT_def)
  have held: "holds st (demo_threads ! 0) 0" using demo_healthy [OF c] by (simp add: demo_threads_def)
  have "entries (shards (sticky_remove demo_hash ''app'' Ws ''k2'' st) ! 0) = entries (shards st ! 0)"
    using locked_shard_untouched [OF iteration_id c _ _ _ held free] by (simp add: demo_threads_def)
  with c show ?thesis by blast
qed

section \<open>Memory\<close>

text \<open>The cleanups that are due or under way.\<close>

definition due :: "thread list \<Rightarrow> nat" where
  "due ts = sum_list (map (\<lambda>t. if cleaning t then 1 else 0) ts)"

lemma sum_list_replace:
  fixes f :: "'a \<Rightarrow> nat"
  shows "i < length ts \<Longrightarrow> sum_list (map f (ts[i := t])) + f (ts ! i) = sum_list (map f ts) + f t"
proof (induction ts arbitrary: i)
  case (Cons a ts)
  then show ?case by (cases i) auto
qed simp

lemma due_update: "i < length ts \<Longrightarrow>
  due (ts[i := t]) + (if cleaning (ts ! i) then 1 else 0) = due ts + (if cleaning t then 1 else 0)"
  unfolding due_def by (rule sum_list_replace)

lemma slack_count_op_ge:
  assumes "i < length (shards st)"
  shows "slack st \<le> slack (count_op i st) + 127"
proof -
  let ?s = "snd (should_cleanup (shards st ! i))"
  have "slack (count_op i st) + shard_slack (shards st ! i) = slack st + shard_slack ?s"
    using assms member_le_sum_list [of "shard_slack (shards st ! i)" "map shard_slack (shards st)"]
    by (simp add: slack_def count_op_def set_shard_def map_update sum_list_update)
  with shard_slack_le [of "shards st ! i"] show ?thesis by simp
qed

definition bounded :: "thread_config \<Rightarrow> bool" where
  "bounded c \<longleftrightarrow> entry_count (fst c) \<le> sc_max_entries (st_config (fst c)) + slack (fst c) + 128 * due (snd c)"

text \<open>Counting an operation, with or without an insertion, pays for one more entry.\<close>

lemma count_pays:
  assumes "wf_sticky_state h st" "i < length (shards st)" "entry_count st \<le> Suc b"
    and "b = m + slack st + 128 * d" "d' = (if cleanup_due i st then Suc d else d)"
  shows "entry_count (count_op i st) \<le> m + slack (count_op i st) + 128 * d'"
  using assms(3) slack_count_op [OF assms(2)] slack_count_op_ge [OF assms(2)]
  by (auto simp: assms(4,5))

lemma turn_bounded:
  assumes "iteration it" "threads_ok h cfg c" "bounded c" "turn h it c e c'"
  shows "bounded c'"
proof -
  obtain st ts where c: "c = (st, ts)" by fastforce
  from assms(2,3) have wf: "wf_sticky_state h st"
    and b: "entry_count st \<le> sc_max_entries (st_config st) + slack st + 128 * due ts"
    by (simp_all add: threads_ok_def bounded_def c)
  from assms(4) [unfolded c] show ?thesis
  proof (cases rule: turn_cases)
    case (1 i t' st')
    note due = due_update [OF 1(3), of t'] and keeps = thread_step_keeps [OF assms(1) wf 1(5)]
    have "entry_count st' \<le> sc_max_entries (st_config st) + slack st' + 128 * due (ts[i := t'])"
    proof (cases "ts ! i")
      case (Looking now a tr k B)
      let ?i = "shard_index_for_key h st (affinity_map_key_of a tr k)"
      have "st' = count_op ?i st" "cleaning t' \<longleftrightarrow> cleanup_due ?i st"
        using 1(5) Looking by (auto simp: looking_eq Let_def simp del: thread_step.simps split: if_splits)
      with count_pays [OF wf shard_index_less [OF wf] _ refl refl, of "sc_max_entries (st_config st)" "due ts"
          "affinity_map_key_of a tr k"] b due Looking
      show ?thesis by (cases "cleanup_due ?i st") auto
    next
      case (Reading now a tr k B)
      with 1(5) b due entry_count_put(2) [OF wf] le_trans [OF entry_count_drop [OF wf] b] show ?thesis
        by (auto simp: read_section_eq split: option.splits if_splits)
    next
      case (Binding now a tr k x)
      let ?k = "affinity_map_key_of a tr k"
      let ?i = "shard_index_for_key h st ?k"
      let ?st = "put_entry h ?k \<lparr>ae_backend = x, ae_expires_at = now + sc_ttl (st_config st)\<rparr> st"
      show ?thesis
      proof (cases "poisoned (shards st ! ?i)")
        case True
        with 1(5) b due Binding show ?thesis by (auto simp: insert_section_eq [OF wf] Let_def)
      next
        case False
        then have st': "st' = count_op ?i ?st" "cleaning t' \<longleftrightarrow> cleanup_due ?i st"
          using 1(5) Binding by (auto simp: insert_section_eq [OF wf] Let_def split: if_splits)
        have same: "cleanup_due ?i ?st = cleanup_due ?i st" "?i < length (shards ?st)"
          using shard_index_less [OF wf]
          by (simp_all add: cleanup_due_def should_cleanup_def put_entry_def Let_def nth_set_shard)
        have "entry_count ?st \<le> Suc (sc_max_entries (st_config st) + slack ?st + 128 * due ts)"
          using le_trans [OF entry_count_put(1) [OF wf]] b by simp
        from count_pays [OF put_entry_wf [OF wf] same(2) this refl refl] due Binding st' same(1)
        show ?thesis by (auto split: if_splits)
      qed
    next
      case (Removing a tr k)
      with 1(5) b due le_trans [OF entry_count_drop [OF wf] b] show ?thesis by (auto simp: sticky_remove_eq)
    next
      case (Cleaning now n t0)
      with 1(5) b due cleanup_count [OF assms(1) wf, of now] show ?thesis by (auto split: if_splits)
    next
      case (Finished answer)
      with 1(5) show ?thesis by simp
    qed
    with keeps show ?thesis by (simp add: bounded_def 1(2))
  qed
qed

lemma calls_bounded:
  "calls h it c es c' \<Longrightarrow> iteration it \<Longrightarrow> threads_ok h cfg c \<Longrightarrow> bounded c \<Longrightarrow> bounded c'"
proof (induction rule: calls.induct)
  case (call c es st ts op)
  then show ?case by (simp add: bounded_def due_def thread_of_ok)
next
  case (step c es c' e c'')
  from turn_bounded [OF step.prems(1) calls_ok [OF step.hyps(1) step.prems(1,2)] step.IH [OF step.prems] step.hyps(2)]
  show ?case .
qed

text \<open>C12. The memory of the store stays bounded under any number of threads: it never holds more than
  \<open>max_entries\<close> entries, 127 for each of its 64 shards, and 128 for each call that still has its
  cleanup to do.\<close>

theorem concurrent_memory_bounded:
  assumes "iteration it" and "calls h it (sticky_state_new cfg, []) history (st, ts)"
  shows "entry_count st \<le> sc_max_entries cfg + 127 * 64 + 128 * length (filter cleaning ts)"
proof -
  have "bounded (sticky_state_new cfg, [])"
    using sticky_inv_new [of h cfg] by (auto simp: bounded_def sticky_inv_def within_bound_def due_def)
  with calls_bounded [OF assms(2,1) threads_ok_new] have "bounded (st, ts)" by blast
  moreover have "threads_ok h cfg (st, ts)" using calls_ok [OF assms(2,1) threads_ok_new] .
  moreover have "due ts = length (filter cleaning ts)" by (induction ts) (auto simp: due_def)
  ultimately show ?thesis
    using slack_le [of st] by (simp add: bounded_def threads_ok_def wf_sticky_state_def STICKY_SHARD_COUNT_def)
qed

theorem concurrent_memory_bounded_witness:
  "\<exists>st. calls demo_hash (\<lambda>m. m) (sticky_state_new (demo_config 2), []) demo_history (st, demo_threads)
     \<and> entry_count st \<le> 8258"
proof -
  obtain st where c: "calls demo_hash (\<lambda>m. m) (sticky_state_new (demo_config 2), []) demo_history (st, demo_threads)"
    using demo_calls by blast
  from concurrent_memory_bounded [OF iteration_id c] have "entry_count st \<le> 8258"
    by (simp add: demo_threads_def demo_config_def)
  with c show ?thesis by blast
qed

section \<open>Progress\<close>

fun thread_work :: "thread \<Rightarrow> nat" where
  "thread_work (Looking now a tr k B) = STICKY_SHARD_COUNT + 3"
| "thread_work (Reading now a tr k B) = 1"
| "thread_work (Binding now a tr k b) = STICKY_SHARD_COUNT + 2"
| "thread_work (Removing a tr k) = 1"
| "thread_work (Cleaning now n t) = Suc (STICKY_SHARD_COUNT - n + thread_work t)"
| "thread_work (Finished answer) = 0"

lemma thread_step_work:
  "wf_sticky_state h st \<Longrightarrow> thread_step h it t st = Some (t', st') \<Longrightarrow> thread_work t' < thread_work t"
  by (cases t) (auto simp: Let_def wf_length split: prod.splits if_splits)

lemma thread_step_None: "thread_step h it t st = None \<longleftrightarrow> (\<exists>answer. t = Finished answer)"
  by (cases t) (auto split: prod.splits)

text \<open>The cleanup that has come furthest is not blocked, since locks are taken in one order.\<close>

lemma some_thread_steps:
  assumes "wf_sticky_state h st" "t \<in> set ts" "\<nexists>answer. t = Finished answer"
  shows "\<exists>i<length ts. may_step h st ts (ts ! i) \<and> thread_step h it (ts ! i) st \<noteq> None"
proof (cases "\<exists>t\<in>set ts. cleaning t")
  case False
  then have "\<not> list_ex (\<lambda>t'. holds st t' l) ts" for l by (auto simp: list_ex_iff not_cleaning_holds)
  then have "may_step h st ts t'" for t' by (simp add: may_step_def split: option.split)
  with assms(2,3) thread_step_None show ?thesis by (metis in_set_conv_nth)
next
  case True
  define visited where "visited = (\<lambda>t. case t of Cleaning now n t0 \<Rightarrow> Suc n | _ \<Rightarrow> 0)"
  have "Max (visited ` set ts) \<in> visited ` set ts" using assms(2) by (intro Max_in) auto
  then obtain t1 where t1: "t1 \<in> set ts" "visited t1 = Max (visited ` set ts)" by auto
  then have m: "t1 \<in> set ts" "\<And>t. t \<in> set ts \<Longrightarrow> visited t \<le> visited t1" by simp_all
  from True obtain t2 where "t2 \<in> set ts" "cleaning t2" by blast
  with m(2) [of t2] have "0 < visited t1" by (cases t2) (auto simp: visited_def)
  then obtain now n t0 where c: "t1 = Cleaning now n t0" by (cases t1) (auto simp: visited_def)
  have "\<not> holds st t n" if "t \<in> set ts" for t
    using m(2) [OF that] by (auto simp: holds_cleaning c visited_def)
  then have "may_step h st ts t1" by (auto simp: may_step_def c list_ex_iff)
  moreover have "thread_step h it t1 st \<noteq> None" by (simp add: c)
  ultimately show ?thesis using m(1) by (metis in_set_conv_nth)
qed

inductive turns :: "key_hash \<Rightarrow> iter_order \<Rightarrow> nat \<Rightarrow> thread_config \<Rightarrow> thread_config \<Rightarrow> bool" for h it where
  none: "turns h it 0 c c"
| one: "turn h it c e c' \<Longrightarrow> turns h it n c' c'' \<Longrightarrow> turns h it (Suc n) c c''"

lemma turns_work:
  "turns h it n c c' \<Longrightarrow> iteration it \<Longrightarrow> threads_ok h cfg c \<Longrightarrow>
   n + sum_list (map thread_work (snd c')) \<le> sum_list (map thread_work (snd c)) \<and> threads_ok h cfg c'"
proof (induction rule: turns.induct)
  case (one c e c' n c'')
  obtain st ts where c: "c = (st, ts)" by fastforce
  note ok = turn_ok [OF one.prems one.hyps(1)]
  from one.hyps(1) [unfolded c] show ?case
  proof (cases rule: turn_cases)
    case (1 i t' st')
    have "wf_sticky_state h st" using one.prems(2) by (simp add: threads_ok_def c)
    from thread_step_work [OF this 1(5)] sum_list_replace [OF 1(3), of thread_work t'] one.IH [OF one.prems(1) ok]
    show ?thesis by (simp add: 1(2) c)
  qed
qed simp

text \<open>C13. No call on the store waits forever: without new calls the threads take at most 67 steps each,
  and as long as one of them has not returned some thread can go on. Cleanups that run at the same
  time do not deadlock.\<close>

theorem sticky_calls_settle:
  assumes "iteration it" and "calls h it (sticky_state_new cfg, []) history (st, ts)"
    and "turns h it n (st, ts) (st', ts')"
  shows "n \<le> 67 * length ts
    \<and> ((\<nexists>e c. turn h it (st', ts') e c) \<longrightarrow> (\<forall>t\<in>set ts'. \<exists>answer. t = Finished answer))"
proof
  note ok = calls_ok [OF assms(2,1) threads_ok_new]
  note w = turns_work [OF assms(3,1) ok]
  have "thread_work t \<le> 67" if "thread_ok t" for t
    using that by (cases t rule: thread_ok.cases) (auto simp: STICKY_SHARD_COUNT_def elim!: resumable.elims)
  then have "\<forall>t\<in>set ts. thread_work t \<le> 67" using ok by (simp add: threads_ok_def)
  then have "sum_list (map thread_work ts) \<le> 67 * length ts" by (induction ts) auto
  with w show "n \<le> 67 * length ts" by simp
  have wf: "wf_sticky_state h st'" using w by (simp add: threads_ok_def)
  show "(\<nexists>e c. turn h it (st', ts') e c) \<longrightarrow> (\<forall>t\<in>set ts'. \<exists>answer. t = Finished answer)"
  proof (rule impI, rule ccontr)
    assume stuck: "\<nexists>e c. turn h it (st', ts') e c" and "\<not> (\<forall>t\<in>set ts'. \<exists>answer. t = Finished answer)"
    then obtain t where "t \<in> set ts'" "\<nexists>answer. t = Finished answer" by blast
    from some_thread_steps [OF wf this, of it] obtain i t' st'' where "i < length ts'" "may_step h st' ts' (ts' ! i)"
      "thread_step h it (ts' ! i) st' = Some (t', st'')" by force
    from turn.intros [OF this] stuck show False by blast
  qed
qed

theorem sticky_calls_settle_witness:
  "\<exists>st. calls demo_hash (\<lambda>m. m) (sticky_state_new (demo_config 2), []) demo_history (st, demo_threads)
     \<and> (\<exists>e c. turn demo_hash (\<lambda>m. m) (st, demo_threads) e c)"
proof -
  obtain st where c: "calls demo_hash (\<lambda>m. m) (sticky_state_new (demo_config 2), []) demo_history (st, demo_threads)"
    using demo_calls by blast
  from sticky_calls_settle [OF iteration_id c turns.none] c show ?thesis by (auto simp: demo_threads_def)
qed

section \<open>A call that runs alone\<close>

definition leads :: "key_hash \<Rightarrow> iter_order \<Rightarrow> thread_config \<Rightarrow> thread_config \<Rightarrow> bool" where
  "leads h it c c' \<longleftrightarrow> (\<exists>es. calls h it c es c')"

lemma calls_trans: "calls h it c' es' c'' \<Longrightarrow> calls h it c es c' \<Longrightarrow> calls h it c (es @ es') c''"
  by (induction rule: calls.induct) (auto intro: calls.intros simp flip: append_assoc)

lemma leads_refl: "leads h it c c"
  unfolding leads_def by (rule exI [of _ "[]"]) (rule calls.start)

lemma leads_trans [trans]: "leads h it c c' \<Longrightarrow> leads h it c' c'' \<Longrightarrow> leads h it c c''"
  by (auto simp: leads_def dest: calls_trans)

lemma leads_last:
  assumes "\<forall>t\<in>set ts. \<not> cleaning t" "thread_step h it t st = Some (t', st')"
  shows "leads h it (st, ts @ [t]) (st', ts @ [t'])"
proof -
  have "may_step h st (ts @ [t]) t"
    using assms(1) by (cases t) (auto simp: may_step_def list_ex_iff not_cleaning_holds)
  with turn.intros [of "length ts" "ts @ [t]" h st it t' st'] assms(2)
  have "turn h it (st, ts @ [t]) (effect t t') (st', ts @ [t'])" by simp
  from calls.step [OF calls.start this] show ?thesis by (auto simp: leads_def)
qed

lemma leads_cleanup:
  assumes "\<forall>t\<in>set ts. \<not> cleaning t"
  shows "leads h it (st, ts @ [Cleaning now n t]) (cleanup_global it now st, ts @ [t])"
proof (induction "length (shards st) - n" arbitrary: n)
  case 0
  then show ?case by (intro leads_last [OF assms]) simp
next
  case (Suc m)
  have "leads h it (st, ts @ [Cleaning now n t]) (st, ts @ [Cleaning now (Suc n) t])"
    using Suc.hyps(2) by (intro leads_last [OF assms]) simp
  also have "leads h it \<dots> (cleanup_global it now st, ts @ [t])" using Suc.hyps(2) by (intro Suc.hyps(1)) simp
  finally show ?case .
qed

text \<open>C14. The operations that the other properties speak of are what the threads do when nobody
  interferes: while no cleanup is under way, a call that runs alone returns the answer of the atomic
  operation and leaves the store as the operation leaves it.\<close>

theorem lone_call_is_operation:
  assumes "iteration it" and "wf_sticky_state h st" and "\<forall>t\<in>set ts. \<not> cleaning t"
  shows "leads h it (st, ts @ [Looking now a tr k B])
      (snd (sticky_lookup h it now a tr k B st), ts @ [Finished (fst (sticky_lookup h it now a tr k B st))])
    \<and> leads h it (st, ts @ [Binding now a tr k b]) (sticky_bind h it now a tr k b st, ts @ [Finished None])
    \<and> leads h it (st, ts @ [Removing a tr k]) (sticky_remove h a tr k st, ts @ [Finished None])"
proof (intro conjI)
  let ?k = "affinity_map_key_of a tr k"
  let ?i = "shard_index_for_key h st ?k"
  let ?r = "Reading now a tr k B" and ?f = "Finished (fst (sticky_lookup h it now a tr k B st))"
  have "leads h it (st, ts @ [Looking now a tr k B]) (counted it now ?i st, ts @ [?r])"
  proof (cases "cleanup_due ?i st")
    case True
    have "leads h it (st, ts @ [Looking now a tr k B]) (count_op ?i st, ts @ [Cleaning now 0 ?r])"
      by (rule leads_last [OF assms(3)]) (use True in \<open>simp add: looking_eq Let_def del: thread_step.simps\<close>)
    also have "leads h it \<dots> (counted it now ?i st, ts @ [?r])"
      using leads_cleanup [OF assms(3)] True by (simp add: counted_def)
    finally show ?thesis .
  next
    case False
    then show ?thesis
      by (intro leads_last [OF assms(3)]) (simp add: looking_eq counted_def Let_def del: thread_step.simps)
  qed
  also have "leads h it \<dots> (snd (sticky_lookup h it now a tr k B st), ts @ [?f])"
    by (rule leads_last [OF assms(3)]) (simp add: sticky_lookup_sections [OF assms(1,2)] split: prod.split)
  finally show "leads h it (st, ts @ [Looking now a tr k B]) (snd (sticky_lookup h it now a tr k B st), ts @ [?f])" .
  obtain cleanup st' where ins: "insert_section h now ?k b st = (cleanup, st')" by fastforce
  have "leads h it (st, ts @ [Binding now a tr k b])
      (st', ts @ [if cleanup then Cleaning now 0 (Finished None) else Finished None])"
    by (rule leads_last [OF assms(3)]) (simp add: ins)
  also have "leads h it \<dots> (sticky_bind h it now a tr k b st, ts @ [Finished None])"
    using leads_cleanup [OF assms(3)] leads_refl by (auto simp: sticky_bind_sections [OF assms(2)] ins)
  finally show "leads h it (st, ts @ [Binding now a tr k b]) (sticky_bind h it now a tr k b st, ts @ [Finished None])" .
  show "leads h it (st, ts @ [Removing a tr k]) (sticky_remove h a tr k st, ts @ [Finished None])"
    by (rule leads_last [OF assms(3)]) simp
qed

theorem lone_call_is_operation_witness:
  "leads demo_hash (\<lambda>m. m) (demo_store 2, [Removing ''app'' Ws ''k'', Looking 0 ''app'' Ws ''k'' {}])
     (snd (sticky_lookup demo_hash (\<lambda>m. m) 0 ''app'' Ws ''k'' {} (demo_store 2)),
      [Removing ''app'' Ws ''k'', Finished (fst (sticky_lookup demo_hash (\<lambda>m. m) 0 ''app'' Ws ''k'' {} (demo_store 2)))])"
  using lone_call_is_operation [OF iteration_id demo_store_facts(1), of "[Removing ''app'' Ws ''k'']" demo_hash 2 0 "''app''" Ws "''k''" "{}"]
  by simp

end
