(* ===== verification/Unit_Tests.thy ===== *)
theory Unit_Tests
  imports Rewriting Sticky_Retention
begin

text \<open>
  The unit tests of \<open>src/router.rs\<close>: each \<open>#[test]\<close> function is a definition that is true when all
  its assertions hold, over the model's functions, and each is proved to pass. Where a test takes
  the time or depends on the hash of a key or on the order of a hash map, it passes for every time,
  hash and order.
\<close>

section \<open>Helpers of the tests\<close>

definition as_deref :: "cow option rust \<Rightarrow> string option rust" where
  "as_deref = map_rust (map_option cow_str)"

definition test_sticky_state :: "nat \<Rightarrow> sticky_session_state" where
  "test_sticky_state max_entries =
     \<lparr>st_config = \<lparr>sc_enabled = True, sc_cookie_name = ''nmt_affinity'', sc_header_name = ''x-nmt-affinity-key'',
        sc_ttl = 60 * 1000000000, sc_max_entries = max_entries, sc_cookie_secure = False\<rparr>,
      shards = replicate STICKY_SHARD_COUNT \<lparr>entries = hm_empty, op_counter = 0, poisoned = False\<rparr>,
      key_counter = 1\<rparr>"

definition test_affinity_key :: "string \<Rightarrow> affinity_map_key" where
  "test_affinity_key value = \<lparr>amk_app_name = ''app'', amk_transport = Http1, amk_affinity_key = value\<rparr>"

text \<open>\<open>expect\<close> on a poisoned lock panics.\<close>

definition insert_entry ::
    "key_hash \<Rightarrow> affinity_map_key \<Rightarrow> string \<Rightarrow> instant \<Rightarrow> sticky_session_state \<Rightarrow> sticky_session_state rust" where
  "insert_entry h key backend expires_at st =
     (let i = shard_index_for_key h st key; shard = shards st ! i
      in if poisoned shard then Panic
         else Ret (set_shard i (shard\<lparr>entries := hm_insert key
                \<lparr>ae_backend = backend, ae_expires_at = expires_at\<rparr> (entries shard)\<rparr>) st))"

definition contains_entry :: "key_hash \<Rightarrow> sticky_session_state \<Rightarrow> affinity_map_key \<Rightarrow> bool rust" where
  "contains_entry h st key =
     (let shard = shards st ! shard_index_for_key h st key
      in if poisoned shard then Panic else Ret (hm_get (entries shard) key \<noteq> None))"

definition sticky_entry_count :: "sticky_session_state \<Rightarrow> nat rust" where
  "sticky_entry_count st =
     (if list_ex poisoned (shards st) then Panic else Ret (sum_list (map (\<lambda>s. length (entries s)) (shards st))))"

section \<open>The tests\<close>

definition upstream_timeout_options_map_to_pingora_peer_options :: "http_peer \<Rightarrow> bool" where
  "upstream_timeout_options_map_to_pingora_peer_options new_peer =
     (let timeouts = \<lparr>downstream_header_timeout_ms = 10000, downstream_body_idle_timeout_ms = 60000,
            upstream_connect_timeout_ms = 1234, upstream_read_timeout_ms = 2345,
            upstream_write_timeout_ms = 3456, downstream_keep_alive_timeout_seconds = 75\<rparr>;
          peer = apply_upstream_timeouts timeouts new_peer
      in hp_connection_timeout peer = Some (from_millis 1234)
         \<and> hp_total_connection_timeout peer = Some (from_millis 1234)
         \<and> hp_read_timeout peer = Some (from_millis 2345)
         \<and> hp_write_timeout peer = Some (from_millis 3456))"

definition route_resolution_prefers_subdomain_then_path_then_default :: bool where
  "route_resolution_prefers_subdomain_then_path_then_default =
     (let config = \<lparr>subdomain_routes = [''app.test'' \<mapsto> ''subdomain''], path_routes = [''app'' \<mapsto> ''path''],
            default_app = Some ''default'', apps = Map.empty\<rparr> :: unit router_config
      in (case resolve_route config (Some ''app.test'') (Some ''app'') of
            None \<Rightarrow> False
          | Some route \<Rightarrow> rr_app_name route = ''subdomain'' \<and> rr_path_rewrite_segment route = None)
         \<and> (case resolve_route config (Some ''missing.test'') (Some ''app'') of
              None \<Rightarrow> False
            | Some route \<Rightarrow> rr_app_name route = ''path'' \<and> rr_path_rewrite_segment route = Some ''app'')
         \<and> (case resolve_route config (Some ''missing.test'') (Some ''missing'') of
              None \<Rightarrow> False
            | Some route \<Rightarrow> rr_app_name route = ''default'' \<and> rr_path_rewrite_segment route = None))"

definition path_rewrite_strips_exact_segment :: bool where
  "path_rewrite_strips_exact_segment \<longleftrightarrow>
     as_deref (strip_first_path_segment ''/auth'' ''auth'') = Ret (Some ''/'')
     \<and> as_deref (strip_first_path_segment ''/auth/'' ''auth'') = Ret (Some ''/'')
     \<and> as_deref (strip_first_path_segment ''/auth/login'' ''auth'') = Ret (Some ''/login'')"

definition path_rewrite_preserves_query_string :: bool where
  "path_rewrite_preserves_query_string \<longleftrightarrow>
     as_deref (strip_first_path_segment ''/auth/login?x=1'' ''auth'') = Ret (Some ''/login?x=1'')"

definition path_rewrite_is_boundary_aware :: bool where
  "path_rewrite_is_boundary_aware \<longleftrightarrow>
     strip_first_path_segment ''/authz'' ''auth'' = Ret None
     \<and> strip_first_path_segment ''/authz/login'' ''auth'' = Ret None
     \<and> strip_first_path_segment ''/a'' ''auth'' = Ret None"

definition strip_port_handles_ipv4 :: bool where
  "strip_port_handles_ipv4 \<longleftrightarrow>
     strip_port_str ''example.com:3000'' = Ret ''example.com''
     \<and> strip_port_str ''example.com'' = Ret ''example.com''
     \<and> strip_port_str ''127.0.0.1:8080'' = Ret ''127.0.0.1''"

definition strip_port_handles_ipv6 :: bool where
  "strip_port_handles_ipv6 \<longleftrightarrow>
     strip_port_str ''[::1]:3000'' = Ret ''[::1]''
     \<and> strip_port_str ''[::1]'' = Ret ''[::1]''
     \<and> strip_port_str ''[2001:db8::1]:443'' = Ret ''[2001:db8::1]''"

definition strip_port_edge_cases :: bool where
  "strip_port_edge_cases \<longleftrightarrow>
     strip_port_str '''' = Ret ''''
     \<and> strip_port_str ''host:'' = Ret ''host''
     \<and> strip_port_str ''host:abc'' = Ret ''host:abc''
     \<and> strip_port_str ''a:b:80'' = Ret ''a:b''
     \<and> strip_port_str '':8080'' = Ret '':8080''
     \<and> strip_port_str ''[::1'' = Ret ''[::1''
     \<and> strip_port_str ''[::1]abc'' = Ret ''[::1]''"

definition path_rewrite_edge_cases :: bool where
  "path_rewrite_edge_cases \<longleftrightarrow>
     strip_first_path_segment ''/'' ''auth'' = Ret None
     \<and> strip_first_path_segment ''/auth'' '''' = Ret None
     \<and> as_deref (strip_first_path_segment ''/auth/a/b/c/d'' ''auth'') = Ret (Some ''/a/b/c/d'')
     \<and> as_deref (strip_first_path_segment ''/auth?redirect=home'' ''auth'') = Ret (Some ''/?redirect=home'')
     \<and> as_deref (strip_first_path_segment ''/auth/login?a=1&b=2&c=3'' ''auth'') = Ret (Some ''/login?a=1&b=2&c=3'')
     \<and> as_deref (strip_first_path_segment ''/auth/path%20with%20spaces'' ''auth'') = Ret (Some ''/path%20with%20spaces'')
     \<and> as_deref (strip_first_path_segment ''/auth-service/login'' ''auth-service'') = Ret (Some ''/login'')"

definition path_rewrite_returns_borrowed_when_no_query :: bool where
  "path_rewrite_returns_borrowed_when_no_query \<longleftrightarrow>
     (case strip_first_path_segment ''/auth/login'' ''auth'' of Ret (Some (Borrowed _)) \<Rightarrow> True | _ \<Rightarrow> False)
     \<and> (case strip_first_path_segment ''/auth/login?x=1'' ''auth'' of Ret (Some (Owned _)) \<Rightarrow> True | _ \<Rightarrow> False)"

definition path_rewrite_no_match_cases :: bool where
  "path_rewrite_no_match_cases \<longleftrightarrow>
     strip_first_path_segment ''/users/login'' ''auth'' = Ret None
     \<and> strip_first_path_segment ''/authorization'' ''auth'' = Ret None
     \<and> strip_first_path_segment ''/Auth/login'' ''auth'' = Ret None
     \<and> strip_first_path_segment ''/AUTH/login'' ''auth'' = Ret None
     \<and> strip_first_path_segment ''auth/login'' ''auth'' = Ret None"

text \<open>The test has a copy of \<open>normalize_host\<close>, which reads like the one in \<open>extract_host\<close>.\<close>

definition lowercase_host_helper :: bool where
  "lowercase_host_helper \<longleftrightarrow>
     normalize_host ''example.com'' = Ret (Borrowed ''example.com'')
     \<and> normalize_host ''Example.COM'' = Ret (Owned ''example.com'')
     \<and> normalize_host ''Example.com:8080'' = Ret (Owned ''example.com'')
     \<and> normalize_host ''example.com:8080'' = Ret (Borrowed ''example.com'')
     \<and> normalize_host ''[::1]:8080'' = Ret (Borrowed ''[::1]'')"

definition affinity_keys_must_be_cookie_safe :: bool where
  "affinity_keys_must_be_cookie_safe \<longleftrightarrow>
     is_cookie_safe_affinity_key ''client-A_1.alpha''
     \<and> is_cookie_safe_affinity_key ''generated-123''
     \<and> \<not> is_cookie_safe_affinity_key ''''
     \<and> \<not> is_cookie_safe_affinity_key ''bad key''
     \<and> \<not> is_cookie_safe_affinity_key ''bad;Domain=evil.test''
     \<and> \<not> is_cookie_safe_affinity_key ''bad/value''"

definition sticky_cleanup_removes_expired_entries_without_overflow ::
    "key_hash \<Rightarrow> iter_order \<Rightarrow> instant \<Rightarrow> bool" where
  "sticky_cleanup_removes_expired_entries_without_overflow h it now =
     (let state = test_sticky_state 8;
          expired = test_affinity_key ''expired'';
          live = test_affinity_key ''live'';
          filled = rust_bind (insert_entry h expired ''127.0.0.1:3001'' (now - 1000000000) state)
                     (insert_entry h live ''127.0.0.1:3002'' (now + 30000000000))
      in case filled of
           Panic \<Rightarrow> False
         | Ret state \<Rightarrow>
             let state = cleanup_global it now state
             in contains_entry h state expired = Ret False
                \<and> contains_entry h state live = Ret True
                \<and> sticky_entry_count state = Ret 1)"

definition sticky_cleanup_evicts_oldest_live_entries_when_over_capacity ::
    "key_hash \<Rightarrow> iter_order \<Rightarrow> instant \<Rightarrow> bool" where
  "sticky_cleanup_evicts_oldest_live_entries_when_over_capacity h it now =
     (let state = test_sticky_state 2;
          oldest = test_affinity_key ''oldest'';
          newer = test_affinity_key ''newer'';
          newest = test_affinity_key ''newest'';
          filled = rust_bind (rust_bind (insert_entry h oldest ''127.0.0.1:3001'' (now + 5000000000) state)
                     (insert_entry h newer ''127.0.0.1:3002'' (now + 10000000000)))
                     (insert_entry h newest ''127.0.0.1:3003'' (now + 15000000000))
      in case filled of
           Panic \<Rightarrow> False
         | Ret state \<Rightarrow>
             let state = cleanup_global it now state
             in contains_entry h state oldest = Ret False
                \<and> contains_entry h state newer = Ret True
                \<and> contains_entry h state newest = Ret True
                \<and> sticky_entry_count state = Ret 2)"

section \<open>The text tests pass\<close>

lemma text_tests_pass:
  "path_rewrite_strips_exact_segment" "path_rewrite_preserves_query_string" "path_rewrite_is_boundary_aware"
  "strip_port_handles_ipv4" "strip_port_handles_ipv6" "strip_port_edge_cases" "path_rewrite_edge_cases"
  "path_rewrite_returns_borrowed_when_no_query" "path_rewrite_no_match_cases" "lowercase_host_helper"
  "affinity_keys_must_be_cookie_safe"
  by code_simp+

lemma timeout_test_passes: "upstream_timeout_options_map_to_pingora_peer_options p"
  by (simp add: upstream_timeout_options_map_to_pingora_peer_options_def apply_upstream_timeouts_def Let_def
      duration_ms_def)

lemma route_test_passes: "route_resolution_prefers_subdomain_then_path_then_default"
  by (simp add: route_resolution_prefers_subdomain_then_path_then_default_def resolve_route_def)

section \<open>The sticky tests pass\<close>

text \<open>The number of entries is the number of keys that are bound.\<close>

lemma entry_count_sum:
  "entry_count st = (\<Sum>i<length (shards st). if poisoned (shards st ! i) then 0 else length (entries (shards st ! i)))"
proof -
  have "sum_list (map length (lock_guards ss)) = sum_list (map (\<lambda>s. if poisoned s then 0 else length (entries s)) ss)" for ss
    by (induction ss) auto
  then show ?thesis
    by (simp add: entry_count_def sum_list_sum_nth atLeast0LessThan)
qed

lemma entry_count_card:
  assumes "wf_sticky_state h st"
  shows "entry_count st = card (dom (binding h st))" and "finite (dom (binding h st))"
proof -
  let ?n = "length (shards st)" and ?d = "dom (binding h st)" and ?i = "shard_index_for_key h st"
  define D where "D = (\<lambda>i. {k \<in> ?d. ?i k = i})"
  have D: "D i = (if poisoned (shards st ! i) then {} else fst ` set (entries (shards st ! i)))"
    and card: "card (D i) = (if poisoned (shards st ! i) then 0 else length (entries (shards st ! i)))"
    if "i < ?n" for i
  proof -
    have wf: "hm_wf (entries (shards st ! i))" and idx: "\<forall>p\<in>set (entries (shards st ! i)). ?i (fst p) = i"
      using assms that by (auto simp: wf_sticky_state_def shard_index_for_key_def)
    have "k \<in> D i \<longleftrightarrow> ?i k = i \<and> \<not> poisoned (shards st ! i) \<and> hm_get (entries (shards st ! i)) k \<noteq> None" for k
      by (auto simp: D_def binding_def Let_def dom_def split: if_splits)
    moreover have "hm_get (entries (shards st ! i)) k \<noteq> None \<longleftrightarrow> k \<in> fst ` set (entries (shards st ! i))" for k
      by (simp add: hm_get_def map_of_eq_None_iff)
    ultimately show D: "D i = (if poisoned (shards st ! i) then {} else fst ` set (entries (shards st ! i)))"
      using idx by (intro set_eqI) force
    show "card (D i) = (if poisoned (shards st ! i) then 0 else length (entries (shards st ! i)))"
      using wf by (simp add: D hm_wf_def) (metis distinct_card length_map set_map)
  qed
  have "?d = (\<Union>i<?n. D i)" using shard_index_less [OF assms] by (auto simp: D_def)
  moreover have "finite (D i)" if "i < ?n" for i using that by (simp add: D)
  moreover have "D i \<inter> D j = {}" if "i \<noteq> j" for i j using that by (auto simp: D_def)
  ultimately show "entry_count st = card ?d" "finite ?d"
    by (simp_all add: entry_count_sum card card_UN_disjoint)
qed

lemma live_count_all:
  assumes "wf_sticky_state h st" "\<And>k e. binding h st k = Some e \<Longrightarrow> now < ae_expires_at e"
  shows "live_count now st = entry_count st"
proof -
  have "now < ae_expires_at (snd p)" if "g \<in> set (lock_guards (shards st))" "p \<in> set g" for g p
  proof -
    from that(1) obtain i where i: "i < length (shards st)" "\<not> poisoned (shards st ! i)" "g = entries (shards st ! i)"
      by (auto simp: lock_guards_def in_set_conv_nth)
    with assms(1) that(2) have "hm_wf g" "shard_index_for_key h st (fst p) = i"
      by (auto simp: wf_sticky_state_def shard_index_for_key_def)
    with i that(2) have "binding h st (fst p) = Some (snd p)"
      by (simp add: binding_def Let_def hm_get_def hm_wf_def)
    then show ?thesis by (rule assms(2))
  qed
  then have "length (filter (\<lambda>p. now < ae_expires_at (snd p)) g) = length g" if "g \<in> set (lock_guards (shards st))" for g
    using that by (simp add: filter_id_conv)
  then show ?thesis unfolding live_count_def entry_count_def by (intro arg_cong [of _ _ sum_list] map_cong) auto
qed

text \<open>What the helpers of the tests do on a healthy store.\<close>

definition healthy :: "key_hash \<Rightarrow> sticky_session_state \<Rightarrow> bool" where
  "healthy h st \<longleftrightarrow> wf_sticky_state h st \<and> poison_map st = replicate STICKY_SHARD_COUNT False"

lemma healthy_shard: "healthy h st \<Longrightarrow> i < length (shards st) \<Longrightarrow> \<not> poisoned (shards st ! i)"
  by (metis (no_types) healthy_def length_map length_replicate nth_map nth_replicate poison_map_def)

lemma healthy_insert:
  assumes "healthy h st"
  shows "insert_entry h k b x st = Ret (put_entry h k \<lparr>ae_backend = b, ae_expires_at = x\<rparr> st)"
    and "healthy h (put_entry h k e st)" and "binding h (put_entry h k e st) = (binding h st)(k \<mapsto> e)"
proof -
  have wf: "wf_sticky_state h st" using assms by (simp add: healthy_def)
  note np = healthy_shard [OF assms shard_index_less [OF wf]]
  show "insert_entry h k b x st = Ret (put_entry h k \<lparr>ae_backend = b, ae_expires_at = x\<rparr> st)"
    by (simp add: insert_entry_def Let_def np put_entry_def)
  show "healthy h (put_entry h k e st)" using assms by (simp add: healthy_def put_entry_wf)
  show "binding h (put_entry h k e st) = (binding h st)(k \<mapsto> e)"
    by (rule ext) (simp add: binding_put_entry [OF wf] np)
qed

lemma healthy_cleanup: "iteration it \<Longrightarrow> healthy h st \<Longrightarrow> healthy h (cleanup_global it now st)"
  using poison_map_cleanup [of it h st now] by (simp add: healthy_def cleanup_wf)

lemma healthy_queries:
  assumes "healthy h st"
  shows "contains_entry h st k = Ret (binding h st k \<noteq> None)" and "sticky_entry_count st = Ret (card (dom (binding h st)))"
proof -
  have wf: "wf_sticky_state h st" using assms by (simp add: healthy_def)
  show "contains_entry h st k = Ret (binding h st k \<noteq> None)"
    using healthy_shard [OF assms shard_index_less [OF wf]] by (simp add: contains_entry_def binding_def Let_def)
  have "\<not> list_ex poisoned (shards st)" using healthy_shard [OF assms] by (auto simp: list_ex_iff in_set_conv_nth)
  moreover have "entry_count st = sum_list (map (\<lambda>s. length (entries s)) (shards st))"
    using healthy_shard [OF assms] by (simp add: entry_count_sum sum_list_sum_nth atLeast0LessThan)
  ultimately show "sticky_entry_count st = Ret (card (dom (binding h st)))"
    by (simp add: sticky_entry_count_def flip: entry_count_card(1) [OF wf])
qed

lemma healthy_test_state: "healthy h (test_sticky_state m)" "binding h (test_sticky_state m) = Map.empty"
  "sc_max_entries (st_config (test_sticky_state m)) = m"
proof -
  have new: "test_sticky_state m = sticky_state_new (st_config (test_sticky_state m))"
    by (simp add: test_sticky_state_def sticky_state_new_def sticky_shard_new_def)
  have wf: "wf_sticky_state h (test_sticky_state m)" by (subst new) (rule wf_sticky_state_new)
  show ok: "healthy h (test_sticky_state m)"
    using wf by (simp add: healthy_def) (simp add: poison_map_def test_sticky_state_def)
  show "binding h (test_sticky_state m) = Map.empty"
    using shard_index_less [OF wf]
    by (intro ext) (simp add: binding_def Let_def test_sticky_state_def hm_empty_def hm_get_def)
  show "sc_max_entries (st_config (test_sticky_state m)) = m" by (simp add: test_sticky_state_def)
qed

text \<open>A cleanup when everything fits, and when one entry too many is live.\<close>

lemma expired_test_passes:
  assumes "iteration it" "1000000000 \<le> now"
  shows "sticky_cleanup_removes_expired_entries_without_overflow h it now"
proof -
  let ?e = "test_affinity_key ''expired''" and ?l = "test_affinity_key ''live''"
  have ne: "?e \<noteq> ?l" by (simp add: test_affinity_key_def)
  define xe where "xe = \<lparr>ae_backend = ''127.0.0.1:3001'', ae_expires_at = now - 1000000000\<rparr>"
  define xl where "xl = \<lparr>ae_backend = ''127.0.0.1:3002'', ae_expires_at = now + 30000000000\<rparr>"
  define st1 where "st1 = put_entry h ?e xe (test_sticky_state 8)"
  define st2 where "st2 = put_entry h ?l xl st1"
  note ok0 = healthy_test_state(1) [of h 8]
  have ok1: "healthy h st1" and ok2: "healthy h st2"
    by (simp_all add: st1_def st2_def healthy_insert(2) ok0)
  have "binding h st1 = [?e \<mapsto> xe]" by (simp add: st1_def healthy_insert(3) [OF ok0] healthy_test_state(2))
  then have b2: "binding h st2 = [?e \<mapsto> xe, ?l \<mapsto> xl]" by (simp only: st2_def healthy_insert(3) [OF ok1])
  have wf2: "wf_sticky_state h st2" using ok2 by (simp add: healthy_def)
  let ?st = "cleanup_global it now st2"
  have max: "sc_max_entries (st_config st2) = 8" by (simp add: st2_def st1_def healthy_test_state(3))
  have "entry_count st2 \<le> 8" by (simp add: entry_count_card(1) [OF wf2] b2 card_insert_if)
  then have room: "live_count now st2 \<le> sc_max_entries (st_config st2)"
    using live_le_entry [of now st2] max by simp
  have live: "binding h ?st ?l = Some xl"
    by (rule cleanup_keeps_live [OF assms(1) wf2 room]) (simp_all add: b2 xl_def)
  have gone: "binding h ?st k = None" if "k \<noteq> ?l" for k
    using cleanup_keeps_only_live [OF assms(1) wf2, of now k] that assms(2)
    by (cases "binding h ?st k") (auto simp: b2 xe_def split: if_splits)
  have "k \<in> dom (binding h ?st) \<longleftrightarrow> k \<in> {?l}" for k using live gone [of k] by (cases "k = ?l") auto
  then have "dom (binding h ?st) = {?l}" by (rule set_eqI)
  have ins: "insert_entry h ?e ''127.0.0.1:3001'' (now - 1000000000) (test_sticky_state 8) = Ret st1"
    "insert_entry h ?l ''127.0.0.1:3002'' (now + 30000000000) st1 = Ret st2"
    by (simp only: healthy_insert(1) [OF ok0] st1_def xe_def)
       (simp only: healthy_insert(1) [OF ok1] st2_def xl_def)
  with \<open>dom _ = _\<close> live gone [OF ne] healthy_queries [OF healthy_cleanup [OF assms(1) ok2]] show ?thesis
    by (simp add: sticky_cleanup_removes_expired_entries_without_overflow_def ins)
qed

lemma oldest_test_passes:
  assumes "iteration it"
  shows "sticky_cleanup_evicts_oldest_live_entries_when_over_capacity h it now"
proof -
  let ?a = "test_affinity_key ''oldest''" and ?b = "test_affinity_key ''newer''" and ?c = "test_affinity_key ''newest''"
  have ne: "?a \<noteq> ?b" "?a \<noteq> ?c" "?b \<noteq> ?c" by (simp_all add: test_affinity_key_def)
  define xa where "xa = \<lparr>ae_backend = ''127.0.0.1:3001'', ae_expires_at = now + 5000000000\<rparr>"
  define xb where "xb = \<lparr>ae_backend = ''127.0.0.1:3002'', ae_expires_at = now + 10000000000\<rparr>"
  define xc where "xc = \<lparr>ae_backend = ''127.0.0.1:3003'', ae_expires_at = now + 15000000000\<rparr>"
  define st1 where "st1 = put_entry h ?a xa (test_sticky_state 2)"
  define st2 where "st2 = put_entry h ?b xb st1"
  define st3 where "st3 = put_entry h ?c xc st2"
  note ok0 = healthy_test_state(1) [of h 2]
  have ok1: "healthy h st1" and ok2: "healthy h st2" and ok3: "healthy h st3"
    by (simp_all add: st1_def st2_def st3_def healthy_insert(2) ok0)
  have "binding h st1 = [?a \<mapsto> xa]" by (simp add: st1_def healthy_insert(3) [OF ok0] healthy_test_state(2))
  then have "binding h st2 = [?a \<mapsto> xa, ?b \<mapsto> xb]" by (simp only: st2_def healthy_insert(3) [OF ok1])
  then have b3: "binding h st3 = [?a \<mapsto> xa, ?b \<mapsto> xb, ?c \<mapsto> xc]" by (simp only: st3_def healthy_insert(3) [OF ok2])
  have wf3: "wf_sticky_state h st3" using ok3 by (simp add: healthy_def)
  let ?st = "cleanup_global it now st3"
  have max: "sc_max_entries (st_config st3) = 2" by (simp add: st3_def st2_def st1_def healthy_test_state(3))
  have ok: "healthy h ?st" using assms ok3 by (rule healthy_cleanup)
  then have wf: "wf_sticky_state h ?st" by (simp add: healthy_def)
  have some: "k = ?a \<or> k = ?b \<or> k = ?c" if "binding h ?st k \<noteq> None" for k
    using cleanup_keeps_only_live [OF assms wf3, of now k] that by (auto simp: b3 split: if_splits)
  have "live_count now st3 = entry_count st3"
    by (rule live_count_all [OF wf3]) (auto simp: b3 xa_def xb_def xc_def split: if_splits)
  then have live: "live_count now st3 = 3" using ne by (simp add: entry_count_card(1) [OF wf3] b3)
  have two: "card (dom (binding h ?st)) = 2"
    using cleanup_count [OF assms wf3, of now] entry_count_card(1) [OF wf] live max by simp
  have order: "ae_expires_at x \<le> ae_expires_at x'" if "binding h st3 k = Some x" "now < ae_expires_at x"
      "binding h ?st k = None" "binding h ?st k' = Some x'" for k k' x x'
    using cleanup_evicts_first_expiring [OF assms wf3 that] .
  have a: "binding h ?st ?a = None"
  proof (rule ccontr)
    assume "binding h ?st ?a \<noteq> None"
    then obtain x where "binding h ?st ?a = Some x" by blast
    moreover from this have "x = xa" using cleanup_keeps_only_live [OF assms wf3] b3 ne by fastforce
    ultimately have xa: "binding h ?st ?a = Some xa" by simp
    have "binding h ?st ?b \<noteq> None" using order [of ?b xb ?a xa] xa b3 ne by (auto simp: xa_def xb_def)
    moreover have "binding h ?st ?c \<noteq> None" using order [of ?c xc ?a xa] xa b3 ne by (auto simp: xa_def xc_def)
    ultimately have "{?a, ?b, ?c} \<subseteq> dom (binding h ?st)" using xa by auto
    from card_mono [OF entry_count_card(2) [OF wf] this] two ne show False by simp
  qed
  have "k \<in> {?b, ?c}" if "k \<in> dom (binding h ?st)" for k using some [of k] a that by auto
  then have "dom (binding h ?st) \<subseteq> {?b, ?c}" by (rule subsetI)
  then have "dom (binding h ?st) = {?b, ?c}" using two ne by (intro card_subset_eq) simp_all
  have ins: "insert_entry h ?a ''127.0.0.1:3001'' (now + 5000000000) (test_sticky_state 2) = Ret st1"
    "insert_entry h ?b ''127.0.0.1:3002'' (now + 10000000000) st1 = Ret st2"
    "insert_entry h ?c ''127.0.0.1:3003'' (now + 15000000000) st2 = Ret st3"
    by (simp only: healthy_insert(1) [OF ok0] st1_def xa_def)
       (simp only: healthy_insert(1) [OF ok1] st2_def xb_def, simp only: healthy_insert(1) [OF ok2] st3_def xc_def)
  have "binding h ?st ?b \<noteq> None" "binding h ?st ?c \<noteq> None" using \<open>dom _ = _\<close> by auto
  with ins \<open>dom _ = _\<close> a two healthy_queries [OF ok] show ?thesis
    by (simp add: sticky_cleanup_evicts_oldest_live_entries_when_over_capacity_def ins Let_def)
qed

section \<open>All tests\<close>

text \<open>All unit tests of the router pass, for every hash function, every iteration order of the hash
  maps, every new peer, and at every instant from which the tests can take a second.\<close>

lemma router_unit_tests_pass:
  assumes "iteration it" and "1000000000 \<le> now"
  shows "upstream_timeout_options_map_to_pingora_peer_options new_peer
    \<and> route_resolution_prefers_subdomain_then_path_then_default
    \<and> path_rewrite_strips_exact_segment \<and> path_rewrite_preserves_query_string \<and> path_rewrite_is_boundary_aware
    \<and> strip_port_handles_ipv4 \<and> strip_port_handles_ipv6 \<and> strip_port_edge_cases \<and> path_rewrite_edge_cases
    \<and> path_rewrite_returns_borrowed_when_no_query \<and> path_rewrite_no_match_cases \<and> lowercase_host_helper
    \<and> affinity_keys_must_be_cookie_safe
    \<and> sticky_cleanup_removes_expired_entries_without_overflow h it now
    \<and> sticky_cleanup_evicts_oldest_live_entries_when_over_capacity h it now"
  using text_tests_pass timeout_test_passes route_test_passes expired_test_passes [OF assms]
    oldest_test_passes [OF assms(1)] by simp

end
