(* ===== verification/Spec2Isabelle.thy ===== *)
theory Spec2Isabelle
  imports Call_Races Setup_Crash Whole_System Concurrent_Sticky Unit_Tests
begin

text \<open>
  The Neemata proxy: a reverse proxy in Rust, driven from JavaScript through N-API and built on
  Pingora. This development models the crate under \<open>src/\<close> of the repository and proves what makes
  it correct. Results of fallible code are sums (\<open>Inl\<close> the error, as \<open>Err\<close>), panics are the value
  \<open>Panic\<close> of the type \<open>rust\<close>, machine integers are words, strings are lists of bytes, instants and
  durations are nanoseconds, and every Rust struct is a record with the fields in the same order.

  The parts of the program and how they interact. \<open>Proxy\<close> (\<open>src/proxy.rs\<close>) is the object that
  JavaScript holds: it parses its options (\<open>src/options.rs\<close>, errors of \<open>src/errors.rs\<close>), keeps the
  set of upstreams of every application, builds a load balancer per application and transport
  (\<open>src/lb.rs\<close>) and from these the configuration it puts into the router (\<open>src/router.rs\<close>); \<open>start\<close>,
  \<open>stop\<close>, \<open>addUpstream\<close> and \<open>removeUpstream\<close> register and end background services in a registry
  (\<open>src/server.rs\<close>). Pingora calls the callbacks of the router for each request: they check limits,
  find the application and its pool, choose a backend, possibly the one remembered for the client,
  set timeouts and cookies, and turn failures into statuses.

  Which theory models what:

  \<^item> \<open>Prelude\<close>, \<open>Text_Lib\<close>, \<open>Hash_Map\<close>: what the crate uses of the standard library. \<open>HashMap\<close> is an
    association list with distinct keys behind the locale \<open>hash_map\<close>; the order in which a map is
    iterated is a parameter restricted by \<open>iteration\<close>, so results hold for every order.
  \<^item> \<open>Errors\<close>: \<open>src/errors.rs\<close>.
  \<^item> \<open>Options\<close>, \<open>Options_Props\<close>: \<open>src/options.rs\<close>, all option types, defaults, \<open>parse_proxy_options\<close> and
    \<open>validate_applications\<close>; that parsing and validating are exact, and that parsed options are well
    formed.
  \<^item> \<open>Routes\<close>, \<open>Rewriting\<close>: \<open>resolve_route\<close>, \<open>extract_first_path_segment\<close>, \<open>strip_first_path_segment\<close>,
    \<open>strip_port_str\<close> and the host handling of \<open>src/router.rs\<close>, and what they compute.
  \<^item> \<open>Affinity\<close>: affinity keys, cookies and headers of \<open>src/router.rs\<close>.
  \<^item> \<open>Eviction\<close>, \<open>Eviction_Props\<close>: the eviction of \<open>StickySessionState::cleanup_global\<close>. The heap is a
    list in eviction order; the loop ends because each round takes an element from it.
  \<^item> \<open>Sticky\<close>, \<open>Sticky_Props\<close>, \<open>Sticky_Ops\<close>, \<open>Sticky_Bound\<close>, \<open>Sticky_Sessions\<close>: \<open>StickySessionState\<close>, 64
    shards of expiring bindings with per-shard locks, which may be poisoned; each call in one piece;
    the store is a map with expiry (refinement), keeps clients apart, and stays bounded.
    \<open>Sticky_Retention\<close>: while the store has room, no other client shortens a binding.
  \<^item> \<open>Sticky_Threads\<close>, \<open>Thread_Props\<close>, \<open>Concurrent_Sticky\<close>: the same calls cut at the locks of the shards and
    run by many threads at once (\<open>thread\<close>, \<open>thread_step\<close>, the step relation \<open>turn\<close>): the calls linearize,
    a locked shard is not touched by others, memory stays bounded, no cleanup deadlocks (at most 67
    steps per call, since it visits 64 shards), and a call alone is the call in one piece.
  \<^item> \<open>Affinity_Store\<close>: the locale between the request handlers and the store.
  \<^item> \<open>Requests\<close>, \<open>Router\<close>, \<open>Router_Props\<close>, \<open>Request_Handling\<close>, \<open>Upstream_Choice\<close>: limits and timeouts, \<open>Router\<close>
    and the \<open>ProxyHttp\<close> callbacks of \<open>SharedRouter\<close>, and what a request gets, errors included.
    \<open>Session_Flow\<close> joins the callbacks of two requests of one client with the store. \<open>Samples\<close> holds
    concrete inputs for the witnesses.
  \<^item> \<open>Unit_Tests\<close>: the test functions of \<open>src/router.rs\<close> as definitions over the model, proved to pass.
  \<^item> \<open>Server\<close>: \<open>src/server.rs\<close>, with the locale \<open>service_registry\<close>; each operation also cut into its
    locked section and the shutdown of the handles that section returns.
  \<^item> \<open>Pools\<close>, \<open>Pools_Props\<close>: \<open>PortUpstream\<close>, \<open>rebuild_app_pools\<close> and \<open>build_router_config\<close> of
    \<open>src/proxy.rs\<close>, \<open>build_round_robin_lb\<close> of \<open>src/lb.rs\<close>.
  \<^item> \<open>Proxy\<close>, \<open>Proxy_Props\<close>, \<open>Proxy_Operation\<close>: \<open>ProxyInner\<close> and the methods of \<open>Proxy\<close>, each locked
    section a definition, composed as calls that run one after the other; the invariant \<open>wf_inner\<close>
    that upstreams, pools, router configuration and services agree.
  \<^item> \<open>Lifecycle\<close>: the same locked sections as steps of futures (\<open>task\<close>, \<open>task_step\<close>) and the interleaving
    of all pending calls as the step relations \<open>runs\<close> and \<open>moves\<close>; the update lock is taken by one
    future at a time. \<open>Lifecycle_Props\<close> proves the invariant \<open>sane\<close> of all reachable configurations,
    \<open>Lifecycle_Progress\<close> that steps are bounded by \<open>effort\<close>, the work left in the pending futures, and
    that nothing deadlocks. \<open>Concurrent_Calls\<close> draws the consequences for callers, \<open>Call_Runs\<close> shows
    that the composed calls of \<open>Proxy\<close> are runs of this relation, and \<open>Call_Races\<close> plays three
    interleavings whose outcome callers do not expect. \<open>Setup_Crash\<close> adds the panic of a blocking task.
  \<^item> \<open>System_Runs\<close>, \<open>Whole_System\<close>: the proxy as a whole. The step relation \<open>system\<close> joins the steps of the
    pending calls with the callbacks Pingora makes in between on the same router (\<open>serves\<close>), each in
    one piece; its invariant \<open>system_ok\<close> says that every pool was made of the upstreams its application
    has now and that the router keeps the settings and the store of the options. So a request is let
    through exactly while upstreams are registered for it, and is sent to one of them.

  This root theory joins options, routes, pools and requests: every configured application is
  reached by its own routes.

  Nothing runs on fuel. Loops over data are structural recursions; the eviction loop has a
  measure; the waiting loops (\<open>wait_for_start_ready\<close>, \<open>wait_for_stop_ready\<close>) are \<open>None\<close> while they wait,
  and \<open>every_call_settles\<close> shows that they do not wait for ever.

  What is a parameter: the \<open>http\<close> crate's header access (record \<open>http_lib\<close>), name resolution and
  Pingora's load balancer construction (\<open>net_lib\<close>), socket and TLS set-up (\<open>os_lib\<close>), \<open>HttpPeer::new\<close>,
  \<open>LoadBalancer::select\<close> and the appending of headers, which may refuse a value (arguments of the callbacks), the hash of a
  sticky key, and the clock.

  Not modelled, and why: Pingora's own connection handling, retries and health checks
  (third-party); the wiring of the bound socket into Pingora's \<open>ListenFds\<close>, which is the registration
  of the main service here; the poisoning of the mutex of \<open>ProxyInner\<close> (the code turns
  it into an error, and no locked section panics); the instant at which a service that was
  told to shut down ends, which is one step with the shutdown; \<open>lib.rs\<close> and \<open>build.rs\<close> (module
  declarations and the napi build set-up); the JavaScript tests and scripts.
\<close>

section \<open>Every application is reachable\<close>

text \<open>C33. For options that pass validation, the router configuration sends requests to the
  applications by their own routes, whatever the other applications are: a subdomain application
  gets every request to its host, a path application every request to its path on a host no
  subdomain claims, the default application all the rest, each with its own pools.\<close>

theorem applications_reachable:
  assumes "valid_applications (po_applications p)" and "app \<in> set (po_applications p)"
    and "cfg = build_router_config p pools"
  shows "apps cfg (a_name app) = Some (app_pools_of pools app)
    \<and> (case a_routing app of
         Subdomain n \<Rightarrow> \<forall>seg. resolve_route cfg (Some (to_ascii_lowercase n)) seg
             = Some \<lparr>rr_app_name = a_name app, rr_path_rewrite_segment = None\<rparr>
       | Path n \<Rightarrow> \<forall>host. Option.bind host (subdomain_routes cfg) = None \<longrightarrow>
             resolve_route cfg host (Some n) = Some \<lparr>rr_app_name = a_name app, rr_path_rewrite_segment = Some n\<rparr>
       | Default \<Rightarrow> \<forall>host seg. Option.bind host (subdomain_routes cfg) = None \<and> Option.bind seg (path_routes cfg) = None \<longrightarrow>
             resolve_route cfg host seg = Some \<lparr>rr_app_name = a_name app, rr_path_rewrite_segment = None\<rparr>)"
proof
  note r = router_config_routes [OF assms(1), of pools, folded assms(3)]
  show "apps cfg (a_name app) = Some (app_pools_of pools app)"
    using assms(2) unfolding r(3) by blast
  show "case a_routing app of
         Subdomain n \<Rightarrow> \<forall>seg. resolve_route cfg (Some (to_ascii_lowercase n)) seg
             = Some \<lparr>rr_app_name = a_name app, rr_path_rewrite_segment = None\<rparr>
       | Path n \<Rightarrow> \<forall>host. Option.bind host (subdomain_routes cfg) = None \<longrightarrow>
             resolve_route cfg host (Some n) = Some \<lparr>rr_app_name = a_name app, rr_path_rewrite_segment = Some n\<rparr>
       | Default \<Rightarrow> \<forall>host seg. Option.bind host (subdomain_routes cfg) = None \<and> Option.bind seg (path_routes cfg) = None \<longrightarrow>
             resolve_route cfg host seg = Some \<lparr>rr_app_name = a_name app, rr_path_rewrite_segment = None\<rparr>"
  proof (cases "a_routing app")
    case (Subdomain n)
    then have "subdomain_routes cfg (to_ascii_lowercase n) = Some (a_name app)"
      unfolding r(1) using assms(2) by blast
    with Subdomain show ?thesis by (simp add: resolve_route_def)
  next
    case (Path n)
    then have "path_routes cfg n = Some (a_name app)" unfolding r(2) using assms(2) by blast
    with Path show ?thesis by (simp add: resolve_route_def)
  next
    case Default
    then have "default_app cfg = Some (a_name app)" unfolding r(4) using assms(2) by blast
    moreover have "Option.bind seg (\<lambda>s. map_option (\<lambda>n. (s, n)) (path_routes cfg s)) = None"
      if "Option.bind seg (path_routes cfg) = None" for seg
      using that by (cases seg) auto
    ultimately show ?thesis using Default by (simp add: resolve_route_def)
  qed
qed

theorem applications_reachable_witness:
  "resolve_route (build_router_config sample_parsed (hm_empty :: nat pool_map)) (Some ''api.example.com'') None
     = Some \<lparr>rr_app_name = ''app'', rr_path_rewrite_segment = None\<rparr>"
proof -
  let ?app = "\<lparr>a_name = ''app'', a_routing = Subdomain ''Api.example.com'', a_sni = None\<rparr>"
  have v: "valid_applications (po_applications sample_parsed)"
    using parse_proxy_options_wf [OF sample_parse] by (simp add: wf_options_def)
  have "?app \<in> set (po_applications sample_parsed)" by (simp add: sample_parsed_def)
  moreover have "to_ascii_lowercase ''Api.example.com'' = ''api.example.com''" by code_simp
  ultimately show ?thesis
    using applications_reachable [OF v _ refl, of ?app "hm_empty :: nat pool_map"] by simp
qed

section \<open>From the Host header to the pool\<close>

text \<open>C11. At every moment, a request within the limits to the host of a subdomain application, in any case and with
  any port, is let through to that application, with its path untouched, when upstreams of the
  transport the request needs are registered for it. It gets the pool of these: the backends are
  the addresses these upstreams resolved to in the environment of the construction or the update that
  made the pool, at least one, TLS is used exactly when they are secure, and then the
  subdomain is the name to verify.\<close>

theorem request_reaches_its_application:
  assumes "system envs sit h it (w, ts)" and "envs_ok envs" and "iteration it"
    and "app \<in> set (po_applications (pi_options (w_inner w)))" and "a_routing app = Subdomain n"
    and "request_limit_rejection_status L s (ro_limits (pi_router (w_inner w))) = None"
    and "header_text L s ''host'' = Some (name @ port)" and "host_value name port"
    and "to_ascii_lowercase name = to_ascii_lowercase n"
    and "transport = transport_for (w_inner w) (a_name app) (req_is_upgrade s)"
    and "upstreams = registered_upstreams (w_inner w) (a_name app) transport" and "upstreams \<noteq> {}"
  shows "\<exists>R' ds' ctx pool.
    request_filter L respond clock (pi_router (w_inner w)) s ds new_ctx = Ret (Inr False, R', ds', ctx)
    \<and> cx_app_name ctx = Some (a_name app) \<and> cx_path_rewrite_segment ctx = None
    \<and> cx_resolved_pool ctx = Some pool \<and> rp_transport pool = transport
    \<and> (\<exists>(S, E)\<in>envs. rp_backends pool = nl_addr_text (ue_net E) ` resolved_addrs (ue_net E) upstreams)
    \<and> rp_backends pool \<noteq> {} \<and> (\<forall>u\<in>upstreams. pu_secure u = rp_secure pool)
    \<and> rp_verify_hostname pool = (if rp_secure pool then n else [])"
proof -
  let ?p = "w_inner w" and ?cfg = "ro_config (pi_router (w_inner w))"
  have ok: "system_ok envs h (w, ts)" by (rule system_invariant [OF assms(1-3)])
  then have wf: "wf_inner ?p" by (simp add: system_ok_def sane_def world_ok_def)
  have cfg: "?cfg = build_router_config (pi_options ?p) (pi_pools ?p)"
    and valid: "valid_applications (po_applications (pi_options ?p))"
    using wf by (simp_all add: wf_inner_def wf_options_def)
  let ?route = "\<lparr>rr_app_name = a_name app, rr_path_rewrite_segment = None\<rparr>"
  obtain host where host: "extract_host L s = Ret (Some host)" "cow_str host = to_ascii_lowercase n"
    using extract_host_value [OF assms(7,8)] assms(9) by auto
  have "subdomain_routes ?cfg (to_ascii_lowercase n) = Some (a_name app)"
    unfolding router_config_routes(1) [OF valid, of "pi_pools ?p", folded cfg] using assms(4,5) by blast
  then have routed: "routed L (pi_router ?p) s (Some ?route)"
    using assms(6) host by (simp add: routed_def resolve_route_def)
  note rp = routed_pool [OF ok routed, simplified, folded assms(10), folded assms(11)]
  obtain pool where pool: "pool_of_route ?cfg (req_is_upgrade s) ?route = Some pool"
    using rp(1) assms(12) by blast
  then obtain q S E a where q: "rp_transport pool = transport" "rp_secure pool = pc_secure q"
    "rp_verify_hostname pool = pc_verify_hostname q" "rp_backends pool = pc_backends q" "(S, E) \<in> envs"
    "a \<in> set (po_applications (pi_options ?p))" "a_name a = a_name app"
    "pool_spec (ue_net E) a (po_health_check_interval_ms (pi_options ?p)) upstreams q"
    using rp(2) [OF pool] by (auto simp: made_of_def)
  have "a = app" using valid q(6,7) assms(4) by (auto simp: valid_applications_def distinct_map dest: inj_onD)
  with q assms(5) have "rp_verify_hostname pool = (if rp_secure pool then n else [])"
    "rp_backends pool = nl_addr_text (ue_net E) ` resolved_addrs (ue_net E) upstreams" "rp_backends pool \<noteq> {}"
    "\<forall>u\<in>upstreams. pu_secure u = rp_secure pool"
    by (auto simp: pool_spec_def verify_hostname_for_secure_upstream_def split: if_splits)
  with request_filter_pool [OF routed pool, of respond clock ds] q(1,5) show ?thesis by fastforce
qed

theorem request_reaches_its_application_witness:
  "\<exists>w1 R' ds' ctx pool. add_upstream sample_env ''app'' sample_upstream sample_world = (Inr (), w1)
     \<and> request_filter sample_lib (\<lambda>_. None) None (pi_router (w_inner w1)) sample_home sample_downstream new_ctx
       = Ret (Inr False, R', ds', ctx)
     \<and> cx_app_name ctx = Some ''app'' \<and> cx_resolved_pool ctx = Some pool \<and> rp_backends pool = {''10.0.0.1''}"
proof -
  obtain w1 where w1: "add_upstream sample_env ''app'' sample_upstream sample_world = (Inr (), w1)"
    using sample_added by blast
  note up = sample_update [OF w1]
  have app: "sample_app \<in> set (po_applications (pi_options (w_inner w1)))"
    by (simp add: sample_updated(1) [OF w1] sample_parsed_def sample_app_def)
  have app_data: "a_routing sample_app = Subdomain ''Api.example.com''" "a_name sample_app = ''app''"
    by (simp_all add: sample_app_def)
  have limits: "request_limit_rejection_status sample_lib sample_home (ro_limits (pi_router (w_inner w1))) = None"
    by (simp add: sample_updated(2) [OF w1])
  have header: "header_text sample_lib sample_home ''host'' = Some (''API.example.com'' @ '':8080'')"
    by (simp add: header_text_def sample_lib_def sample_home_def sample_request_def)
  have host: "host_value ''API.example.com'' '':8080''" by code_simp
  have name: "to_ascii_lowercase ''API.example.com'' = to_ascii_lowercase ''Api.example.com''" by code_simp
  have resolved: "resolved_addrs (ue_net sample_env) {sample_port} = {''10.0.0.1''}"
    by (auto simp: resolved_addrs_def sample_env_def sample_port_def)
  have shown: "nl_addr_text (ue_net sample_env) = id" by (simp add: sample_env_def)
  have some: "registered_upstreams (w_inner w1) (a_name sample_app)
      (transport_for (w_inner w1) (a_name sample_app) (req_is_upgrade sample_home)) \<noteq> {}"
    by (simp add: app_data(2) up(1,2))
  from request_reaches_its_application [OF sample_system [OF w1, of sample_hash "\<lambda>m. m"] sample_envs_ok(1)
      iteration_id app app_data(1) limits header host name refl refl some, of "\<lambda>_. None" None sample_downstream]
  obtain R' ds' ctx pool where "request_filter sample_lib (\<lambda>_. None) None (pi_router (w_inner w1)) sample_home
      sample_downstream new_ctx = Ret (Inr False, R', ds', ctx)" "cx_app_name ctx = Some ''app''"
    "cx_resolved_pool ctx = Some pool" "rp_backends pool = {''10.0.0.1''}"
    unfolding app_data(2) up(1,2) sample_envs_def by (auto simp: resolved shown)
  with w1 show ?thesis by blast
qed

end
